(* ===== verification/Prelude.thy ===== *)
theory Prelude
  imports Main "HOL-Library.Word"
begin

text \<open>
  What every other theory shares: the machine integer types, the ways in which Rust code can stop
  without returning (\<open>fault\<close>), the sequencing of fallible code (\<open>andThen\<close>), the arithmetic and
  indexing primitives whose failure the language defines, and the generic lemmas on lists and
  words the components use.

  A Rust function that returns \<open>T\<close> is a HOL function into \<open>T outcome\<close>: \<open>Inl\<close> of a fault when it
  panics, aborts or meets undefined behaviour, \<open>Inr\<close> of the result otherwise. A Rust \<open>Result<T>\<close>
  is a sum of its own (\<open>Inl\<close> for \<open>Err\<close>), nested inside the outcome. The type \<open>usize\<close> is 64 bits wide
  (the project's targets); values of that type are \<open>nat\<close>, and the operations that could leave the
  range test it.
\<close>

unbundle bit_operations_syntax

type_synonym u8 = "8 word"
type_synonym u16 = "16 word"
type_synonym u32 = "32 word"
type_synonym u64 = "64 word"
type_synonym i32 = "32 word"
type_synonym usize = nat

text \<open>The ways in which code stops without a value.\<close>

datatype fault =
    AssertFailed          \<comment> \<open>\<open>assert!\<close>\<close>
  | UnwrapFailed          \<comment> \<open>\<open>unwrap\<close> or \<open>expect\<close> on \<open>None\<close> or \<open>Err\<close>\<close>
  | Unreachable           \<comment> \<open>\<open>unreachable!\<close>\<close>
  | ExplicitPanic         \<comment> \<open>\<open>panic!\<close>\<close>
  | ArithOverflow         \<comment> \<open>overflow, with overflow checks on\<close>
  | DivByZero
  | SliceBounds           \<comment> \<open>an index or range outside a slice\<close>
  | AllocAbort            \<comment> \<open>\<open>handle_alloc_error\<close>\<close>
  | UndefinedBehaviour    \<comment> \<open>the precondition of an unsafe operation does not hold\<close>

type_synonym 'a outcome = "fault + 'a"

text \<open>Whether the build checks integer overflow (\<open>debug\<close>) or wraps (\<open>release\<close>).\<close>

datatype profile = Checked | Wrapping

named_theorems outcome_simps "evaluation and inversion of sequenced outcomes"
named_theorems run_defs "definitions of the operations, unfolded to run one of them"

definition andThen :: "'a outcome \<Rightarrow> ('a \<Rightarrow> 'b outcome) \<Rightarrow> 'b outcome" where
  "andThen m f = (case m of Inl e \<Rightarrow> Inl e | Inr x \<Rightarrow> f x)"

lemma andThen_Inl [simp]: "andThen (Inl e) f = Inl e"
  by (simp add: andThen_def)

lemma andThen_Inr [simp]: "andThen (Inr x) f = f x"
  by (simp add: andThen_def)

lemma andThen_eq_Inr [outcome_simps]:
  "andThen m f = Inr y \<longleftrightarrow> (\<exists>x. m = Inr x \<and> f x = Inr y)"
  by (cases m) auto

lemma andThen_eq_Inl [outcome_simps]:
  "andThen m f = Inl e \<longleftrightarrow> m = Inl e \<or> (\<exists>x. m = Inr x \<and> f x = Inl e)"
  by (cases m) auto

lemma andThen_assoc: "andThen (andThen m f) g = andThen m (\<lambda>x. andThen (f x) g)"
  by (cases m) auto

lemma andThen_cong [fundef_cong]:
  "m = m' \<Longrightarrow> (\<And>x. m' = Inr x \<Longrightarrow> f x = g x) \<Longrightarrow> andThen m f = andThen m' g"
  by (cases m') auto

text \<open>\<open>assert!\<close>, \<open>Option::unwrap\<close>, \<open>Result::unwrap\<close> and \<open>Option::unwrap_unchecked\<close>.\<close>

definition rust_assert :: "bool \<Rightarrow> unit outcome" where
  "rust_assert b = (if b then Inr () else Inl AssertFailed)"

definition unwrap_option :: "'a option \<Rightarrow> 'a outcome" where
  "unwrap_option x = (case x of None \<Rightarrow> Inl UnwrapFailed | Some v \<Rightarrow> Inr v)"

definition unwrap_result :: "'e + 'a \<Rightarrow> 'a outcome" where
  "unwrap_result r = (case r of Inl _ \<Rightarrow> Inl UnwrapFailed | Inr v \<Rightarrow> Inr v)"

definition unwrap_unchecked :: "'a option \<Rightarrow> 'a outcome" where
  "unwrap_unchecked x = (case x of None \<Rightarrow> Inl UndefinedBehaviour | Some v \<Rightarrow> Inr v)"

lemma rust_assert_simps [simp]:
  "rust_assert True = Inr ()" "rust_assert False = Inl AssertFailed"
  by (simp_all add: rust_assert_def)

lemma rust_assert_eq [outcome_simps]:
  "rust_assert b = Inr u \<longleftrightarrow> b" "rust_assert b = Inl e \<longleftrightarrow> \<not> b \<and> e = AssertFailed"
  by (auto simp: rust_assert_def)

lemma unwrap_option_simps [simp]:
  "unwrap_option None = Inl UnwrapFailed" "unwrap_option (Some v) = Inr v"
  by (simp_all add: unwrap_option_def)

lemma unwrap_option_eq [outcome_simps]:
  "unwrap_option x = Inr v \<longleftrightarrow> x = Some v"
  by (cases x) auto

lemma unwrap_result_simps [simp]:
  "unwrap_result (Inl e) = Inl UnwrapFailed" "unwrap_result (Inr w) = Inr w"
  by (simp_all add: unwrap_result_def)

lemma unwrap_result_eq [outcome_simps]:
  "unwrap_result r = Inr v \<longleftrightarrow> r = Inr v"
  by (cases r) auto

lemma unwrap_unchecked_simps [simp]:
  "unwrap_unchecked None = Inl UndefinedBehaviour" "unwrap_unchecked (Some v) = Inr v"
  by (simp_all add: unwrap_unchecked_def)

lemma unwrap_unchecked_eq [outcome_simps]:
  "unwrap_unchecked x = Inr v \<longleftrightarrow> x = Some v"
  by (cases x) auto


text \<open>The \<open>?\<close> operator inside an outcome.\<close>

lemma question_mark_Inr [outcome_simps]:
  "(case x of Inl e \<Rightarrow> Inr (Inl e) | Inr y \<Rightarrow> f y) = Inr (Inr z) \<longleftrightarrow> (\<exists>y. x = Inr y \<and> f y = Inr (Inr z))"
  by (cases x) auto

text \<open>
  Memory safety: the code does not reach undefined behaviour. It may still panic.
\<close>

definition safe :: "'a outcome \<Rightarrow> bool" where
  "safe m \<longleftrightarrow> m \<noteq> Inl UndefinedBehaviour"

lemma safe_Inr [simp]: "safe (Inr x)"
  by (simp add: safe_def)

lemma safe_Inl [simp]: "safe (Inl e) \<longleftrightarrow> e \<noteq> UndefinedBehaviour"
  by (simp add: safe_def)

lemma safe_andThen: "safe m \<Longrightarrow> (\<And>x. m = Inr x \<Longrightarrow> safe (f x)) \<Longrightarrow> safe (andThen m f)"
  by (cases m) auto

lemma safe_primitives [simp]:
  "safe (rust_assert b)" "safe (unwrap_option x)" "safe (unwrap_result r)"
  by (simp_all add: safe_def rust_assert_def unwrap_option_def unwrap_result_def
      split: option.split sum.split)

text \<open>Memory safe, and \<open>P\<close> holds of the value if there is one.\<close>

definition ensures :: "'a outcome \<Rightarrow> ('a \<Rightarrow> bool) \<Rightarrow> bool" where
  "ensures m P \<longleftrightarrow> safe m \<and> (\<forall>x. m = Inr x \<longrightarrow> P x)"

lemma ensuresI: "safe m \<Longrightarrow> (\<And>x. m = Inr x \<Longrightarrow> P x) \<Longrightarrow> ensures m P"
  by (simp add: ensures_def)

lemma ensures_Inr [simp]: "ensures (Inr x) P \<longleftrightarrow> P x"
  by (simp add: ensures_def)

lemma ensures_Inl [simp]: "ensures (Inl f) P \<longleftrightarrow> f \<noteq> UndefinedBehaviour"
  by (simp add: ensures_def)

lemma ensuresD: "ensures m P \<Longrightarrow> m = Inr x \<Longrightarrow> P x"
  by (simp add: ensures_def)

lemma ensures_safe: "ensures m P \<Longrightarrow> safe m"
  by (simp add: ensures_def)

lemma ensures_mono: "ensures m P \<Longrightarrow> (\<And>x. P x \<Longrightarrow> Q x) \<Longrightarrow> ensures m Q"
  by (simp add: ensures_def)

lemma ensures_andThen: "ensures m P \<Longrightarrow> (\<And>x. P x \<Longrightarrow> ensures (f x) Q) \<Longrightarrow> ensures (andThen m f) Q"
  by (cases m) (auto simp: ensures_def)

lemma ensures_assert: "(b \<Longrightarrow> ensures (f ()) Q) \<Longrightarrow> ensures (andThen (rust_assert b) f) Q"
  by (cases b) auto

lemma ensures_unwrap_option:
  "(\<And>v. x = Some v \<Longrightarrow> ensures (f v) Q) \<Longrightarrow> ensures (andThen (unwrap_option x) f) Q"
  by (cases x) auto

lemma ensures_unwrap_result:
  "(\<And>v. r = Inr v \<Longrightarrow> ensures (f v) Q) \<Longrightarrow> ensures (andThen (unwrap_result r) f) Q"
  by (cases r) auto


text \<open>
  Orderly stops only: code that fails does so in one of the ways its author wrote down (an assertion,
  an \<open>unwrap\<close>, a \<open>panic!\<close>), by overflow or for want of memory; never in an \<open>unreachable!\<close> arm,
  outside a slice, by a division by zero or in undefined behaviour.
\<close>

definition panics :: "fault set" where
  "panics = {AssertFailed, UnwrapFailed, ExplicitPanic, ArithOverflow, AllocAbort}"

definition orderly :: "'a outcome \<Rightarrow> ('a \<Rightarrow> bool) \<Rightarrow> bool" where
  "orderly m P \<longleftrightarrow> (case m of Inl f \<Rightarrow> f \<in> panics | Inr x \<Rightarrow> P x)"

lemma orderly_Inr [simp]: "orderly (Inr x) P \<longleftrightarrow> P x"
  by (simp add: orderly_def)

lemma orderly_Inl [simp]: "orderly (Inl f) P \<longleftrightarrow> f \<in> panics"
  by (simp add: orderly_def)

lemma orderly_mono: "orderly m P \<Longrightarrow> (\<And>x. P x \<Longrightarrow> Q x) \<Longrightarrow> orderly m Q"
  by (cases m) auto

lemma orderly_andThen: "orderly m P \<Longrightarrow> (\<And>x. P x \<Longrightarrow> orderly (f x) Q) \<Longrightarrow> orderly (andThen m f) Q"
  by (cases m) auto

lemma orderly_step: "orderly m (\<lambda>x. orderly (f x) Q) \<Longrightarrow> orderly (andThen m f) Q"
  by (cases m) auto

lemma orderly_result: "orderly m P \<Longrightarrow> orderly m (\<lambda>x. m = Inr x \<and> P x)"
  by (cases m) auto

lemma orderly_safe: "orderly m P \<Longrightarrow> safe m"
  by (cases m) (auto simp: panics_def)

lemma orderly_assert: "(b \<Longrightarrow> orderly (f ()) Q) \<Longrightarrow> orderly (andThen (rust_assert b) f) Q"
  by (cases b) (auto simp: panics_def)

lemma orderly_unwrap_option:
  "(\<And>v. x = Some v \<Longrightarrow> orderly (f v) Q) \<Longrightarrow> orderly (andThen (unwrap_option x) f) Q"
  by (cases x) (auto simp: panics_def)

lemma orderly_unwrap_result:
  "(\<And>v. r = Inr v \<Longrightarrow> orderly (f v) Q) \<Longrightarrow> orderly (andThen (unwrap_result r) f) Q"
  by (cases r) (auto simp: panics_def)


text \<open>Concrete blocks of cells.\<close>

lemma replicate_numeral_eq [simp]: "replicate (numeral k) x = x # replicate (pred_numeral k) x"
  by (simp add: numeral_eq_Suc)


section \<open>Integers\<close>

definition usize_limit :: nat where "usize_limit = 2 ^ 64"
definition isize_max :: nat where "isize_max = 2 ^ 63 - 1"

lemma isize_max_less_limit: "isize_max < usize_limit"
  by (simp add: isize_max_def usize_limit_def)

text \<open>\<open>usize::checked_add\<close>, \<open>usize::checked_mul\<close> and the operators of the language.\<close>

definition checked_add :: "usize \<Rightarrow> usize \<Rightarrow> usize option" where
  "checked_add a b = (if a + b < usize_limit then Some (a + b) else None)"

definition checked_mul :: "usize \<Rightarrow> usize \<Rightarrow> usize option" where
  "checked_mul a b = (if a * b < usize_limit then Some (a * b) else None)"

definition usize_sub :: "profile \<Rightarrow> usize \<Rightarrow> usize \<Rightarrow> usize outcome" where
  "usize_sub pr a b =
     (if b \<le> a then Inr (a - b)
      else case pr of Checked \<Rightarrow> Inl ArithOverflow | Wrapping \<Rightarrow> Inr (usize_limit + a - b))"

definition usize_rem :: "usize \<Rightarrow> usize \<Rightarrow> usize outcome" where
  "usize_rem a b = (if b = 0 then Inl DivByZero else Inr (a mod b))"

definition u32_add :: "profile \<Rightarrow> u32 \<Rightarrow> u32 \<Rightarrow> u32 outcome" where
  "u32_add pr a b =
     (if unat a + unat b < 2 ^ 32 then Inr (a + b)
      else case pr of Checked \<Rightarrow> Inl ArithOverflow | Wrapping \<Rightarrow> Inr (a + b))"

lemma safe_arith [simp]: "safe (usize_sub pr a b)" "safe (usize_rem a b)" "safe (u32_add pr v w)"
  by (simp_all add: safe_def usize_sub_def usize_rem_def u32_add_def split: profile.split)

text \<open>Negation of an \<open>i32\<close>: only the least value has no negative.\<close>

definition i32_neg :: "profile \<Rightarrow> i32 \<Rightarrow> i32 outcome" where
  "i32_neg pr a =
     (if sint a = - (2 ^ 31)
      then case pr of Checked \<Rightarrow> Inl ArithOverflow | Wrapping \<Rightarrow> Inr (- a)
      else Inr (- a))"

lemma safe_i32_neg [simp]: "safe (i32_neg pr a)"
  by (simp add: safe_def i32_neg_def split: profile.split)

lemma u32_add_no_overflow:
  "unat a + unat b < 2 ^ 32 \<Longrightarrow> u32_add pr a b = Inr (a + b) \<and> unat (a + b) = unat a + unat b"
  by (simp add: u32_add_def unat_add_lem [THEN iffD1])

lemma u32_add_Checked_Inr:
  "u32_add Checked a b = Inr c \<longleftrightarrow> unat a + unat b < 2 ^ 32 \<and> c = a + b"
  by (auto simp: u32_add_def)

lemma usize_rem_Inr [outcome_simps]:
  "usize_rem a b = Inr c \<longleftrightarrow> b \<noteq> 0 \<and> c = a mod b"
  by (auto simp: usize_rem_def)

lemma u32_succ_unat: "unat (w :: u32) < 2 ^ 32 - 1 \<Longrightarrow> unat (w + 1) = Suc (unat w)"
  by (simp add: unat_add_lem [THEN iffD1])

lemma u32_unat_inject [simp]: "unat (a :: u32) = unat b \<longleftrightarrow> a = b"
  by (metis word_unat_eq_iff)

lemma u32_unat_less: "unat (w :: u32) < 2 ^ 32"
proof -
  have "unat w < 2 ^ LENGTH(32)" by (rule unsigned_less)
  then show ?thesis by simp
qed

lemma u32_unat_of_nat: "n < 2 ^ 32 \<Longrightarrow> unat (of_nat n :: u32) = n"
  by (simp add: unat_of_nat)

text \<open>The indices below \<open>n\<close>, as \<open>u32\<close> values.\<close>

lemma distinct_u32_upt:
  assumes "n < 2 ^ 32"
  shows "distinct (map of_nat [0..<n] :: u32 list)"
proof -
  have "inj_on (of_nat :: nat \<Rightarrow> u32) {0..<n}"
    using assms by (intro inj_on_inverseI [where g = unat]) (simp add: u32_unat_of_nat)
  then show ?thesis by (simp add: distinct_map)
qed

lemma set_u32_upt:
  assumes "n < 2 ^ 32"
  shows "set (map of_nat [0..<n] :: u32 list) = {w. unat w < n}"
proof (intro equalityI subsetI)
  fix w :: u32 assume "w \<in> {w. unat w < n}"
  then show "w \<in> set (map of_nat [0..<n])"
    by (auto intro: image_eqI [where x = "unat w"])
qed (use assms in \<open>auto simp: u32_unat_of_nat\<close>)

lemma u32_less_succ:
  assumes "unat (g :: u32) + 1 < 2 ^ 32"
  shows "w < g + 1 \<longleftrightarrow> w = g \<or> w < g"
proof -
  have "unat (g + 1) = unat g + 1"
    using assms by (simp add: unat_add_lem [THEN iffD1])
  then show ?thesis
    by (auto simp: word_less_nat_alt less_Suc_eq)
qed

text \<open>\<open>is_power_of_two\<close>.\<close>

definition is_power_of_two :: "usize \<Rightarrow> bool" where
  "is_power_of_two n \<longleftrightarrow> n \<noteq> 0 \<and> (of_nat n :: u64) AND (of_nat n - 1) = 0"

end
