(* ===== verification/Errors.thy ===== *)
theory Errors
  imports Prelude
begin

text \<open>
  The crate \<open>hoarder-common\<close> (\<open>hoarder-common/src/error.rs\<close>): the error type every fallible
  operation returns, its rendering, and the \<open>Errno\<close> newtype with its constants and conversions.
  The thread-local \<open>errno\<close> cell behind \<open>Errno::last\<close> and \<open>Errno::set\<close> is a value passed explicitly.
\<close>

datatype hoarder_error = PushError | MemAllocFail | BufferAllocFail | IoError i32

text \<open>Rust's \<open>Result<T, HoarderError>\<close>.\<close>

type_synonym 'a result = "hoarder_error + 'a"

datatype errno = Errno (errno_val: i32)

section \<open>Rendering\<close>

text \<open>The decimal rendering of integers by \<open>core::fmt\<close>.\<close>

fun show_nat :: "nat \<Rightarrow> string" where
  "show_nat n = (if n < 10 then [char_of (48 + n)] else show_nat (n div 10) @ [char_of (48 + n mod 10)])"

declare show_nat.simps [simp del]

definition show_i32 :: "i32 \<Rightarrow> string" where
  "show_i32 v =
     (if sint v < 0 then CHR ''-'' # show_nat (nat (- sint v)) else show_nat (nat (sint v)))"

fun hoarder_error_fmt :: "hoarder_error \<Rightarrow> string" where
  "hoarder_error_fmt PushError = ''failed to push entry to queue''"
| "hoarder_error_fmt MemAllocFail = ''failed to allocate memory''"
| "hoarder_error_fmt BufferAllocFail = ''failed to allocate buffer''"
| "hoarder_error_fmt (IoError e) = ''os error: '' @ show_i32 e"

section \<open>Conversions\<close>

definition hoarder_error_from_i32 :: "i32 \<Rightarrow> hoarder_error" where
  "hoarder_error_from_i32 v = IoError v"

definition hoarder_error_from_errno :: "errno \<Rightarrow> hoarder_error" where
  "hoarder_error_from_errno e = IoError (errno_val e)"

definition errno_from_i32 :: "i32 \<Rightarrow> errno" where
  "errno_from_i32 v = Errno v"

definition i32_from_errno :: "errno \<Rightarrow> i32" where
  "i32_from_errno e = errno_val e"

text \<open>\<open>Errno::last\<close> reads the thread's cell, \<open>Errno::set\<close> writes it.\<close>

definition errno_last :: "i32 \<Rightarrow> errno" where
  "errno_last loc = Errno loc"

definition errno_set :: "errno \<Rightarrow> i32 \<Rightarrow> i32" where
  "errno_set e loc = errno_val e"

definition from_raw_syscall_error :: "profile \<Rightarrow> i32 \<Rightarrow> errno outcome" where
  "from_raw_syscall_error pr val = andThen (i32_neg pr val) (\<lambda>n. Inr (Errno n))"

text \<open>The derived order on \<open>Errno\<close> is that of the signed value.\<close>

definition errno_le :: "errno \<Rightarrow> errno \<Rightarrow> bool" where
  "errno_le a b \<longleftrightarrow> sint (errno_val a) \<le> sint (errno_val b)"

definition errno_lt :: "errno \<Rightarrow> errno \<Rightarrow> bool" where
  "errno_lt a b \<longleftrightarrow> sint (errno_val a) < sint (errno_val b)"

instantiation errno :: linorder
begin

definition less_eq_errno :: "errno \<Rightarrow> errno \<Rightarrow> bool" where
  "less_eq_errno = errno_le"

definition less_errno :: "errno \<Rightarrow> errno \<Rightarrow> bool" where
  "less_errno = errno_lt"

instance
  by standard
    (auto simp: less_eq_errno_def less_errno_def errno_le_def errno_lt_def errno.expand
      dest: signed_word_eqI)

end

section \<open>The constants\<close>

definition errno_table :: "(string \<times> errno) list" where
  "errno_table = [
    (''EPERM'', Errno 1), (''ENOENT'', Errno 2), (''ESRCH'', Errno 3), (''EINTR'', Errno 4),
    (''EIO'', Errno 5), (''ENXIO'', Errno 6), (''E2BIG'', Errno 7), (''ENOEXEC'', Errno 8),
    (''EBADF'', Errno 9), (''ECHILD'', Errno 10), (''EAGAIN'', Errno 11),
    (''EWOULDBLOCK'', Errno 11), (''ENOMEM'', Errno 12), (''EACCES'', Errno 13),
    (''EFAULT'', Errno 14), (''ENOTBLK'', Errno 15), (''EBUSY'', Errno 16),
    (''EEXIST'', Errno 17), (''EXDEV'', Errno 18), (''ENODEV'', Errno 19),
    (''ENOTDIR'', Errno 20), (''EISDIR'', Errno 21), (''EINVAL'', Errno 22),
    (''ENFILE'', Errno 23), (''EMFILE'', Errno 24), (''ENOTTY'', Errno 25),
    (''ETXTBSY'', Errno 26), (''EFBIG'', Errno 27), (''ENOSPC'', Errno 28),
    (''ESPIPE'', Errno 29), (''EROFS'', Errno 30), (''EMLINK'', Errno 31), (''EPIPE'', Errno 32),
    (''EDOM'', Errno 33), (''ERANGE'', Errno 34), (''EDEADLK'', Errno 35),
    (''EDEADLOCK'', Errno 35), (''ENAMETOOLONG'', Errno 36), (''ENOLCK'', Errno 37),
    (''ENOSYS'', Errno 38), (''ENOTEMPTY'', Errno 39), (''ELOOP'', Errno 40),
    (''ENOMSG'', Errno 42), (''EIDRM'', Errno 43), (''ECHRNG'', Errno 44),
    (''EL2NSYNC'', Errno 45), (''EL3HLT'', Errno 46), (''EL3RST'', Errno 47),
    (''ELNRNG'', Errno 48), (''EUNATCH'', Errno 49), (''ENOCSI'', Errno 50),
    (''EL2HLT'', Errno 51), (''EBADE'', Errno 52), (''EBADR'', Errno 53), (''EXFULL'', Errno 54),
    (''ENOANO'', Errno 55), (''EBADRQC'', Errno 56), (''EBADSLT'', Errno 57),
    (''EBFONT'', Errno 59), (''ENOSTR'', Errno 60), (''ENODATA'', Errno 61),
    (''ETIME'', Errno 62), (''ENOSR'', Errno 63), (''ENONET'', Errno 64), (''ENOPKG'', Errno 65),
    (''EREMOTE'', Errno 66), (''ENOLINK'', Errno 67), (''EADV'', Errno 68),
    (''ESRMNT'', Errno 69), (''ECOMM'', Errno 70), (''EPROTO'', Errno 71),
    (''EMULTIHOP'', Errno 72), (''EDOTDOT'', Errno 73), (''EBADMSG'', Errno 74),
    (''EOVERFLOW'', Errno 75), (''ENOTUNIQ'', Errno 76), (''EBADFD'', Errno 77),
    (''EREMCHG'', Errno 78), (''ELIBACC'', Errno 79), (''ELIBBAD'', Errno 80),
    (''ELIBSCN'', Errno 81), (''ELIBMAX'', Errno 82), (''ELIBEXEC'', Errno 83),
    (''EILSEQ'', Errno 84), (''ERESTART'', Errno 85), (''ESTRPIPE'', Errno 86),
    (''EUSERS'', Errno 87), (''ENOTSOCK'', Errno 88), (''EDESTADDRREQ'', Errno 89),
    (''EMSGSIZE'', Errno 90), (''EPROTOTYPE'', Errno 91), (''ENOPROTOOPT'', Errno 92),
    (''EPROTONOSUPPORT'', Errno 93), (''ESOCKTNOSUPPORT'', Errno 94), (''EOPNOTSUPP'', Errno 95),
    (''EPFNOSUPPORT'', Errno 96), (''EAFNOSUPPORT'', Errno 97), (''EADDRINUSE'', Errno 98),
    (''EADDRNOTAVAIL'', Errno 99), (''ENETDOWN'', Errno 100), (''ENETUNREACH'', Errno 101),
    (''ENETRESET'', Errno 102), (''ECONNABORTED'', Errno 103), (''ECONNRESET'', Errno 104),
    (''ENOBUFS'', Errno 105), (''EISCONN'', Errno 106), (''ENOTCONN'', Errno 107),
    (''ESHUTDOWN'', Errno 108), (''ETOOMANYREFS'', Errno 109), (''ETIMEDOUT'', Errno 110),
    (''ECONNREFUSED'', Errno 111), (''EHOSTDOWN'', Errno 112), (''EHOSTUNREACH'', Errno 113),
    (''EALREADY'', Errno 114), (''EINPROGRESS'', Errno 115), (''ESTALE'', Errno 116),
    (''EUCLEAN'', Errno 117), (''ENOTNAM'', Errno 118), (''ENAVAIL'', Errno 119),
    (''EISNAM'', Errno 120), (''EREMOTEIO'', Errno 121), (''EDQUOT'', Errno 122),
    (''ENOMEDIUM'', Errno 123), (''EMEDIUMTYPE'', Errno 124), (''ECANCELED'', Errno 125),
    (''ENOKEY'', Errno 126), (''EKEYEXPIRED'', Errno 127), (''EKEYREVOKED'', Errno 128),
    (''EKEYREJECTED'', Errno 129), (''EOWNERDEAD'', Errno 130), (''ENOTRECOVERABLE'', Errno 131),
    (''ERFKILL'', Errno 132), (''EHWPOISON'', Errno 133)]"

text \<open>The constants the connection handler matches on, by name.\<close>

abbreviation EINTR :: errno where "EINTR \<equiv> Errno 4"
abbreviation EAGAIN :: errno where "EAGAIN \<equiv> Errno 11"
abbreviation ENOBUFS :: errno where "ENOBUFS \<equiv> Errno 105"
abbreviation ENOMEM :: errno where "ENOMEM \<equiv> Errno 12"
abbreviation ETIMEDOUT :: errno where "ETIMEDOUT \<equiv> Errno 110"
abbreviation EBADF :: errno where "EBADF \<equiv> Errno 9"
abbreviation EFAULT :: errno where "EFAULT \<equiv> Errno 14"
abbreviation EINVAL :: errno where "EINVAL \<equiv> Errno 22"
abbreviation ENOTSOCK :: errno where "ENOTSOCK \<equiv> Errno 88"
abbreviation EAFNOSUPPORT :: errno where "EAFNOSUPPORT \<equiv> Errno 97"
abbreviation EOPNOTSUPP :: errno where "EOPNOTSUPP \<equiv> Errno 95"
abbreviation EIO :: errno where "EIO \<equiv> Errno 5"
abbreviation ECONNRESET :: errno where "ECONNRESET \<equiv> Errno 104"
abbreviation ENOTCONN :: errno where "ENOTCONN \<equiv> Errno 107"
abbreviation ESHUTDOWN :: errno where "ESHUTDOWN \<equiv> Errno 108"
abbreviation ECONNABORTED :: errno where "ECONNABORTED \<equiv> Errno 103"
abbreviation ENETDOWN :: errno where "ENETDOWN \<equiv> Errno 100"
abbreviation ENETUNREACH :: errno where "ENETUNREACH \<equiv> Errno 101"
abbreviation ENETRESET :: errno where "ENETRESET \<equiv> Errno 102"

section \<open>Properties\<close>

lemma from_raw_syscall_error_value:
  assumes "- (2 ^ 31) < sint val"
  shows "from_raw_syscall_error pr val = Inr (Errno (- val))"
  using assms by (simp add: from_raw_syscall_error_def i32_neg_def)

lemma sint_uminus_i32:
  assumes "- (2 ^ 31) < sint (v :: i32)"
  shows "sint (- v) = - sint v"
proof -
  have "sint v < 2 ^ 31"
    using sint_lt [of v] by simp
  with assms show ?thesis
    by (simp add: sint_word_ariths signed_take_bit_int_eq_self_iff)
qed

end
