(* ===== verification/Memory.thy ===== *)
theory Memory
  imports Errors
begin

text \<open>
  What the project uses of Rust's memory interface: allocation layouts, the byte-addressed memory
  that raw pointers and slices denote, and typed storage reached through a raw pointer.

  The global allocator is not part of the repository. For typed storage its answer is a predicate
  \<open>oom\<close> on layouts (does the call return null?); where the address matters (\<open>AlignedBuffers\<close>) it is
  the returned address itself.
\<close>

section \<open>Layouts\<close>

text \<open>Size and alignment, of a type or of an allocation.\<close>

record layout =
  lay_size :: usize
  lay_align :: usize

text \<open>\<open>Layout::array\<close>: the rounded size must not exceed \<open>isize::MAX\<close>.\<close>

definition layout_array :: "layout \<Rightarrow> usize \<Rightarrow> layout option" where
  "layout_array ty n =
     (if lay_size ty * n \<le> isize_max - (lay_align ty - 1)
      then Some \<lparr>lay_size = lay_size ty * n, lay_align = lay_align ty\<rparr> else None)"

text \<open>
  The precondition of \<open>from_size_align_unchecked\<close>: a power of two, and a size that does not exceed
  \<open>isize::MAX\<close> when rounded up to the alignment.
\<close>

definition layout_valid :: "layout \<Rightarrow> bool" where
  "layout_valid l \<longleftrightarrow>
     is_power_of_two (lay_align l) \<and> lay_size l \<le> isize_max - (lay_align l - 1)"

definition from_size_align_unchecked :: "usize \<Rightarrow> usize \<Rightarrow> layout outcome" where
  "from_size_align_unchecked sz al =
     (let l = \<lparr>lay_size = sz, lay_align = al\<rparr>
      in if layout_valid l then Inr l else Inl UndefinedBehaviour)"

text \<open>
  \<open>alloc::alloc::alloc\<close>: undefined for a layout of size zero; otherwise what the allocator answers.
\<close>

definition raw_alloc :: "(layout \<Rightarrow> 'p option) \<Rightarrow> layout \<Rightarrow> 'p option outcome" where
  "raw_alloc answer l = (if lay_size l = 0 then Inl UndefinedBehaviour else Inr (answer l))"

text \<open>The block of \<open>alloc\<close>, null check and \<open>handle_alloc_error\<close> that typed storage starts with.\<close>

definition alloc_or_abort :: "(layout \<Rightarrow> bool) \<Rightarrow> layout \<Rightarrow> unit outcome" where
  "alloc_or_abort oom l =
     andThen (raw_alloc (\<lambda>l. if oom l then None else Some ()) l)
       (\<lambda>p. case p of None \<Rightarrow> Inl AllocAbort | Some _ \<Rightarrow> Inr ())"

abbreviation u32_layout :: layout where
  "u32_layout \<equiv> \<lparr>lay_size = 4, lay_align = 4\<rparr>"

lemma alloc_or_abort_Inr [outcome_simps]:
  "alloc_or_abort oom l = Inr u \<longleftrightarrow> lay_size l \<noteq> 0 \<and> \<not> oom l"
  by (auto simp: alloc_or_abort_def raw_alloc_def)

lemma layout_array_Some:
  "layout_array ty n = Some l \<Longrightarrow>
     lay_size l = lay_size ty * n \<and> lay_align l = lay_align ty \<and> lay_size l \<le> isize_max"
  by (auto simp: layout_array_def split: if_splits)


section \<open>Typed storage\<close>

text \<open>Reading and writing element \<open>i\<close> through a raw pointer to a block of cells.\<close>

definition ptr_read :: "'a list \<Rightarrow> usize \<Rightarrow> 'a outcome" where
  "ptr_read cells i = (if i < length cells then Inr (cells ! i) else Inl UndefinedBehaviour)"

definition ptr_write :: "'a list \<Rightarrow> usize \<Rightarrow> 'a \<Rightarrow> 'a list outcome" where
  "ptr_write cells i v =
     (if i < length cells then Inr (cells[i := v]) else Inl UndefinedBehaviour)"

lemma ptr_read_Inr [outcome_simps]:
  "ptr_read cells i = Inr v \<longleftrightarrow> i < length cells \<and> v = cells ! i"
  by (auto simp: ptr_read_def)

lemma ptr_write_Inr [outcome_simps]:
  "ptr_write cells i v = Inr cs \<longleftrightarrow> i < length cells \<and> cs = cells[i := v]"
  by (auto simp: ptr_write_def)


section \<open>Byte memory\<close>

type_synonym addr = nat
type_synonym memory = "addr \<Rightarrow> u8"

text \<open>A slice of bytes is an address and a length.\<close>

record slice =
  sl_ptr :: addr
  sl_len :: usize

definition slice_bytes :: "memory \<Rightarrow> slice \<Rightarrow> u8 list" where
  "slice_bytes m s = map m [sl_ptr s ..< sl_ptr s + sl_len s]"

definition slice_range :: "slice \<Rightarrow> addr set" where
  "slice_range s = {sl_ptr s ..< sl_ptr s + sl_len s}"

text \<open>The subslices \<open>&s[a..]\<close>, \<open>&s[..b]\<close>, and \<open>copy_from_slice\<close> into a slice.\<close>

definition slice_from :: "slice \<Rightarrow> usize \<Rightarrow> slice outcome" where
  "slice_from s a =
     (if a \<le> sl_len s then Inr \<lparr>sl_ptr = sl_ptr s + a, sl_len = sl_len s - a\<rparr>
      else Inl SliceBounds)"

definition slice_upto :: "slice \<Rightarrow> usize \<Rightarrow> slice outcome" where
  "slice_upto s b =
     (if b \<le> sl_len s then Inr \<lparr>sl_ptr = sl_ptr s, sl_len = b\<rparr> else Inl SliceBounds)"

definition store_bytes :: "memory \<Rightarrow> addr \<Rightarrow> u8 list \<Rightarrow> memory" where
  "store_bytes m a bs = (\<lambda>x. if a \<le> x \<and> x < a + length bs then bs ! (x - a) else m x)"

definition copy_from_slice :: "memory \<Rightarrow> slice \<Rightarrow> u8 list \<Rightarrow> memory outcome" where
  "copy_from_slice m s bs =
     (if sl_len s = length bs then Inr (store_bytes m (sl_ptr s) bs) else Inl ExplicitPanic)"

lemma length_slice_bytes [simp]: "length (slice_bytes m s) = sl_len s"
  by (simp add: slice_bytes_def)

lemma slice_bytes_nth [simp]: "i < sl_len s \<Longrightarrow> slice_bytes m s ! i = m (sl_ptr s + i)"
  by (simp add: slice_bytes_def)

lemma slice_bytes_split:
  "slice_bytes m \<lparr>sl_ptr = p, sl_len = a + b\<rparr>
     = slice_bytes m \<lparr>sl_ptr = p, sl_len = a\<rparr> @ slice_bytes m \<lparr>sl_ptr = p + a, sl_len = b\<rparr>"
proof -
  have "[p ..< p + (a + b)] = [p ..< p + a] @ [p + a ..< p + a + b]"
    using upt_add_eq_append [of p "p + a" b] by (simp add: add.assoc)
  then show ?thesis by (simp add: slice_bytes_def)
qed

lemma slice_bytes_take:
  "n \<le> sl_len s \<Longrightarrow> take n (slice_bytes m s) = slice_bytes m \<lparr>sl_ptr = sl_ptr s, sl_len = n\<rparr>"
  by (simp add: slice_bytes_def take_map take_upt)

lemma slice_bytes_store_same:
  "slice_bytes (store_bytes m a bs) \<lparr>sl_ptr = a, sl_len = length bs\<rparr> = bs"
  by (rule nth_equalityI) (auto simp: store_bytes_def)

lemma slice_bytes_store_disjoint:
  assumes "slice_range s \<inter> {a ..< a + length bs} = {}"
  shows "slice_bytes (store_bytes m a bs) s = slice_bytes m s"
proof (rule nth_equalityI)
  fix i assume "i < length (slice_bytes (store_bytes m a bs) s)"
  then have i: "i < sl_len s" by simp
  then have "sl_ptr s + i \<in> slice_range s" by (simp add: slice_range_def)
  with assms have "sl_ptr s + i \<notin> {a ..< a + length bs}" by blast
  with i show "slice_bytes (store_bytes m a bs) s ! i = slice_bytes m s ! i"
    by (auto simp: store_bytes_def)
qed simp

end
