(* ===== verification/Arrays.thy ===== *)
theory Arrays
  imports Memory
begin

text \<open>
  \<open>Array<T>\<close> of \<open>hoarder-collections/src/collections.rs\<close>: a fixed-size heap array. The record keeps
  the two fields of the struct; the pointer is the list of cells it points to. An iterator argument
  is the list of the items it yields. Dropping returns the layout handed to \<open>dealloc\<close> and the
  elements whose destructors ran.
\<close>

record 'a array =
  arr_cells :: "'a list"
  arr_size :: usize

definition array_new :: "(layout \<Rightarrow> bool) \<Rightarrow> layout \<Rightarrow> 'a \<Rightarrow> usize \<Rightarrow> 'a array outcome" where
  "array_new oom ty init n =
     andThen (rust_assert (0 < n \<and> n < isize_max)) (\<lambda>_.
     andThen (unwrap_option (layout_array ty n)) (\<lambda>l.
     andThen (alloc_or_abort oom l) (\<lambda>_.
     Inr \<lparr>arr_cells = replicate n init, arr_size = n\<rparr>)))"

text \<open>The closure \<open>init\<close> is called once per cell; here it is a constant function.\<close>

definition array_new_with_fn ::
  "(layout \<Rightarrow> bool) \<Rightarrow> layout \<Rightarrow> (unit \<Rightarrow> 'a) \<Rightarrow> usize \<Rightarrow> 'a array outcome" where
  "array_new_with_fn oom ty init n =
     andThen (rust_assert (0 < n \<and> n < isize_max)) (\<lambda>_.
     andThen (unwrap_option (layout_array ty n)) (\<lambda>l.
     andThen (alloc_or_abort oom l) (\<lambda>_.
     Inr \<lparr>arr_cells = map (\<lambda>_. init ()) [0..<n], arr_size = n\<rparr>)))"

text \<open>The initialisation loop of \<open>from_fixed_iter\<close>: \<open>iter.next().unwrap()\<close>, \<open>n\<close> times.\<close>

fun take_items :: "nat \<Rightarrow> 'a list \<Rightarrow> 'a list outcome" where
  "take_items 0 items = Inr []"
| "take_items (Suc n) [] = Inl UnwrapFailed"
| "take_items (Suc n) (x # items) = andThen (take_items n items) (\<lambda>xs. Inr (x # xs))"

definition array_from_fixed_iter ::
  "(layout \<Rightarrow> bool) \<Rightarrow> layout \<Rightarrow> usize \<Rightarrow> 'a list \<Rightarrow> 'a array outcome" where
  "array_from_fixed_iter oom ty n items =
     andThen (rust_assert (n < isize_max)) (\<lambda>_.
     andThen (unwrap_option (layout_array ty n)) (\<lambda>l.
     andThen (alloc_or_abort oom l) (\<lambda>_.
     andThen (take_items n items) (\<lambda>xs.
     Inr \<lparr>arr_cells = xs, arr_size = n\<rparr>))))"

definition array_len :: "'a array \<Rightarrow> usize" where
  "array_len a = arr_size a"

definition array_index :: "'a array \<Rightarrow> usize \<Rightarrow> 'a outcome" where
  "array_index a i =
     andThen (rust_assert (i < arr_size a)) (\<lambda>_. ptr_read (arr_cells a) i)"

text \<open>\<open>a[i] = v\<close> through \<open>index_mut\<close>.\<close>

definition array_index_mut :: "'a array \<Rightarrow> usize \<Rightarrow> 'a \<Rightarrow> 'a array outcome" where
  "array_index_mut a i v =
     andThen (rust_assert (i < arr_size a)) (\<lambda>_.
     andThen (ptr_write (arr_cells a) i v) (\<lambda>cs. Inr (a\<lparr>arr_cells := cs\<rparr>)))"

text \<open>\<open>slice::from_raw_parts(ptr, size)\<close>: every element must lie inside the block.\<close>

definition array_deref :: "'a array \<Rightarrow> 'a list outcome" where
  "array_deref a =
     (if arr_size a \<le> length (arr_cells a) then Inr (take (arr_size a) (arr_cells a))
      else Inl UndefinedBehaviour)"

definition array_drop :: "layout \<Rightarrow> 'a array \<Rightarrow> (layout \<times> 'a list) outcome" where
  "array_drop ty a =
     andThen (unwrap_option (layout_array ty (arr_size a))) (\<lambda>l. Inr (l, []))"

lemmas array_defs [run_defs] = array_new_def array_new_with_fn_def array_from_fixed_iter_def
  array_len_def array_index_def array_index_mut_def array_deref_def array_drop_def


section \<open>Well-formed arrays\<close>

definition array_ok :: "'a array \<Rightarrow> bool" where
  "array_ok a \<longleftrightarrow> length (arr_cells a) = arr_size a \<and> arr_size a < isize_max"

lemma take_items_Inr [outcome_simps]:
  "take_items n items = Inr xs \<longleftrightarrow> n \<le> length items \<and> xs = take n items"
  by (induction n items arbitrary: xs rule: take_items.induct) (auto simp: outcome_simps)

lemma array_new_ok:
  "array_new oom ty init n = Inr a \<Longrightarrow>
     array_ok a \<and> arr_size a = n \<and> arr_cells a = replicate n init \<and> 0 < n"
  by (auto simp: array_new_def array_ok_def outcome_simps)

lemma array_new_with_fn_ok:
  "array_new_with_fn oom ty init n = Inr a \<Longrightarrow>
     array_ok a \<and> arr_size a = n \<and> arr_cells a = replicate n (init ()) \<and> 0 < n"
  by (auto simp: array_new_with_fn_def array_ok_def outcome_simps map_replicate_const)

lemma array_from_fixed_iter_ok:
  "array_from_fixed_iter oom ty n items = Inr a \<Longrightarrow>
     array_ok a \<and> arr_size a = n \<and> arr_cells a = take n items \<and> 0 < n"
  by (auto simp: array_from_fixed_iter_def array_ok_def outcome_simps layout_array_def
      split: if_splits)

lemma array_index_in [simp]:
  "array_ok a \<Longrightarrow> i < arr_size a \<Longrightarrow> array_index a i = Inr (arr_cells a ! i)"
  by (simp add: array_ok_def array_index_def ptr_read_def)

lemma array_index_out:
  "arr_size a \<le> i \<Longrightarrow> array_index a i = Inl AssertFailed"
  by (simp add: array_index_def)

lemma array_index_mut_in [simp]:
  "array_ok a \<Longrightarrow> i < arr_size a \<Longrightarrow>
     array_index_mut a i v = Inr (a\<lparr>arr_cells := (arr_cells a)[i := v]\<rparr>)"
  by (simp add: array_ok_def array_index_mut_def ptr_write_def)

lemma array_index_mut_Inr:
  "array_index_mut a i v = Inr a' \<Longrightarrow>
     i < arr_size a \<and> a' = a\<lparr>arr_cells := (arr_cells a)[i := v]\<rparr>"
  by (auto simp: array_index_mut_def outcome_simps)

lemma array_ok_update [simp]:
  "array_ok a \<Longrightarrow> array_ok (a\<lparr>arr_cells := (arr_cells a)[i := v]\<rparr>)"
  by (simp add: array_ok_def)

end
