(* ===== verification/Queue_Interface.thy ===== *)
theory Queue_Interface
  imports Errors
begin

text \<open>
  The contract between a bounded queue and the code that uses one: the free list of the
  generational allocator and the two run queues of the executor. The operations are those the
  clients call; the laws say that the queue is a list of at most \<open>cap\<close> elements, added at the end
  and taken from the front, and that neither operation ever stops.

  The loops that the clients and the destructor run over such a queue are defined over its
  operations, and their lemmas are proved once, from the contract.
\<close>

text \<open>\<open>for _ in 0..n { push(iter.next().expect(..)).unwrap() }\<close>.\<close>

fun enq_items ::
  "('a \<Rightarrow> 'q \<Rightarrow> (unit result \<times> 'q) outcome) \<Rightarrow> nat \<Rightarrow> 'a list \<Rightarrow> 'q \<Rightarrow> 'q outcome" where
  "enq_items enq 0 items q = Inr q"
| "enq_items enq (Suc n) [] q = Inl UnwrapFailed"
| "enq_items enq (Suc n) (x # items) q =
     andThen (enq x q) (\<lambda>(r, q'). andThen (unwrap_result r) (\<lambda>_. enq_items enq n items q'))"

lemma enq_items_length:
  "enq_items enq n items q = Inr q' \<Longrightarrow> n \<le> length items"
  by (induction enq n items q rule: enq_items.induct) (auto simp: outcome_simps)

text \<open>\<open>while let Some(x) = pop() { .. }\<close>, with the items taken so far.\<close>

partial_function (option) deq_all ::
  "('q \<Rightarrow> ('a option \<times> 'q) outcome) \<Rightarrow> 'a list \<Rightarrow> 'q \<Rightarrow> ('a list \<times> 'q) outcome option" where
  "deq_all deq acc q =
     (case deq q of
        Inl f \<Rightarrow> Some (Inl f)
      | Inr (r, q') \<Rightarrow>
          (case r of None \<Rightarrow> Some (Inr (acc, q')) | Some x \<Rightarrow> deq_all deq (acc @ [x]) q'))"

text \<open>A run of single operations, with the items accepted and the items delivered.\<close>

datatype 'a queue_op = Enq 'a | Deq

fun queue_run ::
  "('a \<Rightarrow> 'q \<Rightarrow> (unit result \<times> 'q) outcome) \<Rightarrow> ('q \<Rightarrow> ('a option \<times> 'q) outcome) \<Rightarrow>
     'a queue_op list \<Rightarrow> 'q \<Rightarrow> ('a list \<times> 'a list \<times> 'q) outcome" where
  "queue_run enq deq [] q = Inr ([], [], q)"
| "queue_run enq deq (Enq x # ops) q =
     andThen (enq x q) (\<lambda>(r, q').
     andThen (queue_run enq deq ops q') (\<lambda>(ins, outs, q'').
     Inr (case r of Inl _ \<Rightarrow> ins | Inr _ \<Rightarrow> x # ins, outs, q'')))"
| "queue_run enq deq (Deq # ops) q =
     andThen (deq q) (\<lambda>(r, q').
     andThen (queue_run enq deq ops q') (\<lambda>(ins, outs, q'').
     Inr (ins, case r of None \<Rightarrow> outs | Some x \<Rightarrow> x # outs, q'')))"

text \<open>The reference: a list of at most \<open>n\<close> items.\<close>

definition list_enq :: "nat \<Rightarrow> 'a \<Rightarrow> 'a list \<Rightarrow> (unit result \<times> 'a list) outcome" where
  "list_enq n x xs = Inr (if length xs < n then (Inr (), xs @ [x]) else (Inl PushError, xs))"

definition list_deq :: "'a list \<Rightarrow> ('a option \<times> 'a list) outcome" where
  "list_deq xs = Inr (case xs of [] \<Rightarrow> (None, []) | x # xs \<Rightarrow> (Some x, xs))"

lemma list_queue_simps [simp]:
  "length xs < n \<Longrightarrow> list_enq n x xs = Inr (Inr (), xs @ [x])"
  "\<not> length xs < n \<Longrightarrow> list_enq n x xs = Inr (Inl PushError, xs)"
  "list_deq ([] :: 'a list) = Inr (None, [])" "list_deq (y # ys) = Inr (Some y, ys)"
  by (simp_all add: list_enq_def list_deq_def)

locale bounded_queue =
  fixes inv :: "'q \<Rightarrow> bool"
    and elems :: "'q \<Rightarrow> 'a list"
    and cap :: "'q \<Rightarrow> nat"
    and enq :: "'a \<Rightarrow> 'q \<Rightarrow> (unit result \<times> 'q) outcome"
    and deq :: "'q \<Rightarrow> ('a option \<times> 'q) outcome"
  assumes fits: "inv q \<Longrightarrow> length (elems q) \<le> cap q"
    and enq_room: "inv q \<Longrightarrow> length (elems q) < cap q \<Longrightarrow>
      \<exists>q'. enq x q = Inr (Inr (), q') \<and> inv q' \<and> elems q' = elems q @ [x] \<and> cap q' = cap q"
    and enq_full: "inv q \<Longrightarrow> length (elems q) = cap q \<Longrightarrow> enq x q = Inr (Inl PushError, q)"
    and deq_empty: "inv q \<Longrightarrow> elems q = [] \<Longrightarrow> deq q = Inr (None, q)"
    and deq_first: "inv q \<Longrightarrow> elems q = x # xs \<Longrightarrow>
      \<exists>q'. deq q = Inr (Some x, q') \<and> inv q' \<and> elems q' = xs \<and> cap q' = cap q"
begin

lemma enq_cases:
  assumes "inv q"
  obtains (accepted) q' where "enq x q = Inr (Inr (), q')" "inv q'" "elems q' = elems q @ [x]"
      "cap q' = cap q" "length (elems q) < cap q"
  | (rejected) "enq x q = Inr (Inl PushError, q)" "length (elems q) = cap q"
proof (cases "length (elems q) < cap q")
  case True
  with enq_room [OF assms True, of x] accepted show ?thesis by blast
next
  case False
  with fits [OF assms] have "length (elems q) = cap q" by simp
  with enq_full [OF assms this] rejected show ?thesis by blast
qed

lemma deq_cases:
  assumes "inv q"
  obtains (none) "deq q = Inr (None, q)" "elems q = []"
  | (some) x q' where "deq q = Inr (Some x, q')" "inv q'" "elems q = x # elems q'"
      "cap q' = cap q"
proof (cases "elems q")
  case Nil
  with deq_empty [OF assms] none show ?thesis by blast
next
  case (Cons x xs)
  with deq_first [OF assms Cons] some show ?thesis by auto
qed

lemma enq_Inr:
  assumes "inv q" and "enq x q = Inr (r, q')"
  shows "inv q' \<and> cap q' = cap q \<and> elems q' = (case r of Inl _ \<Rightarrow> elems q | Inr _ \<Rightarrow> elems q @ [x])"
  using assms(2) by (cases rule: enq_cases [OF assms(1), of x]) (use assms(1) in auto)

lemma deq_Inr:
  assumes "inv q" and "deq q = Inr (r, q')"
  shows "inv q' \<and> cap q' = cap q \<and>
    (case r of None \<Rightarrow> elems q = [] \<and> q' = q | Some x \<Rightarrow> elems q = x # elems q')"
  using assms by (cases rule: deq_cases [OF assms(1)]) auto

lemma enq_total:
  assumes "inv q"
  obtains r q' where "enq x q = Inr (r, q')"
  by (cases rule: enq_cases [OF assms, of x]) (use that in auto)

lemma deq_total:
  assumes "inv q"
  obtains r q' where "deq q = Inr (r, q')"
  by (cases rule: deq_cases [OF assms]) (use that in auto)

lemma enq_items_fit:
  "inv q \<Longrightarrow> n \<le> length items \<Longrightarrow> length (elems q) + n \<le> cap q \<Longrightarrow>
     \<exists>q'. enq_items enq n items q = Inr q' \<and> inv q' \<and> elems q' = elems q @ take n items
        \<and> cap q' = cap q"
proof (induction n arbitrary: items q)
  case 0
  then show ?case by simp
next
  case (Suc n)
  then obtain x xs where items: "items = x # xs" by (cases items) auto
  from Suc.prems have "length (elems q) < cap q" by simp
  then obtain q' where q': "enq x q = Inr (Inr (), q')" "inv q'" "elems q' = elems q @ [x]"
      "cap q' = cap q"
    using enq_room [OF Suc.prems(1)] by blast
  with Suc.prems items have "\<exists>q''. enq_items enq n xs q' = Inr q'' \<and> inv q'' \<and>
      elems q'' = elems q' @ take n xs \<and> cap q'' = cap q'"
    by (intro Suc.IH) auto
  with q' items show ?case by auto
qed

lemma deq_all_total:
  "inv q \<Longrightarrow> \<exists>q'. deq_all deq acc q = Some (Inr (acc @ elems q, q')) \<and> inv q' \<and> elems q' = [] \<and>
     cap q' = cap q"
proof (induction "length (elems q)" arbitrary: q acc)
  case 0
  then have "elems q = []" by simp
  with 0 deq_empty [of q] show ?case by (subst deq_all.simps) simp
next
  case (Suc n)
  then obtain x xs where q: "elems q = x # xs" by (cases "elems q") auto
  then obtain q' where q': "deq q = Inr (Some x, q')" "inv q'" "elems q' = xs" "cap q' = cap q"
    using deq_first [OF Suc.prems q] by blast
  with Suc.hyps(2) q have "n = length (elems q')" by simp
  from Suc.hyps(1) [OF this q'(2), of "acc @ [x]"] q q' show ?case
    by (subst deq_all.simps) simp
qed

text \<open>
  No operation sequence stops, and every operation answers what the reference answers.
\<close>

lemma queue_run_list:
  "inv q \<Longrightarrow> \<exists>ins outs q'. queue_run enq deq ops q = Inr (ins, outs, q') \<and> inv q' \<and> cap q' = cap q \<and>
     queue_run (list_enq (cap q)) list_deq ops (elems q) = Inr (ins, outs, elems q')"
proof (induction ops arbitrary: q)
  case (Cons op ops)
  show ?case
  proof (cases op)
    case (Enq x)
    show ?thesis
    proof (cases rule: enq_cases [OF Cons.prems, of x, case_names accepted rejected])
      case (accepted q')
      with Cons.IH [of q'] Enq show ?thesis by auto
    next
      case rejected
      with Cons.IH [OF Cons.prems] Enq show ?thesis by auto
    qed
  next
    case Deq
    show ?thesis
    proof (cases rule: deq_cases [OF Cons.prems, case_names none some])
      case none
      with Cons.IH [OF Cons.prems] Deq show ?thesis by auto
    next
      case (some x q')
      with Cons.IH [of q'] Deq show ?thesis by auto
    qed
  qed
qed simp

end

text \<open>
  The reference is a bounded queue itself, and loses, duplicates or reorders nothing: what was there
  and what was accepted is what was delivered and what remains, in this order.
\<close>

lemma list_queue_fifo:
  "queue_run (list_enq n) list_deq ops xs = Inr (ins, outs, ys) \<Longrightarrow> xs @ ins = outs @ ys"
proof (induction ops arbitrary: xs ins outs)
  case (Cons op ops)
  show ?case
  proof (cases op)
    case (Enq x)
    with Cons.prems obtain ins' where
      "queue_run (list_enq n) list_deq ops (if length xs < n then xs @ [x] else xs) = Inr (ins', outs, ys)"
      "ins = (if length xs < n then x # ins' else ins')"
      by (cases "length xs < n") (auto simp: andThen_eq_Inr)
    with Cons.IH [of "if length xs < n then xs @ [x] else xs" ins' outs] show ?thesis by (auto split: if_splits)
  next
    case Deq
    show ?thesis
    proof (cases xs)
      case Nil
      with Deq Cons.prems Cons.IH [of "[]" ins outs] show ?thesis by (auto simp: andThen_eq_Inr)
    next
      case xs: (Cons y zs)
      with Deq Cons.prems obtain outs' where "queue_run (list_enq n) list_deq ops zs = Inr (ins, outs', ys)"
        "outs = y # outs'" by (auto simp: andThen_eq_Inr)
      with Cons.IH [of zs ins outs'] xs show ?thesis by simp
    qed
  qed
qed simp

end
