(* ===== verification/Ring_Buffer.thy ===== *)
theory Ring_Buffer
  imports Arrays Queue_Interface
begin

text \<open>
  \<open>RingBuffer<T>\<close> of \<open>hoarder-collections/src/collections.rs\<close>. The record keeps the fields of the
  struct; the pointer is the list of the cells it points to, \<open>None\<close> for a cell never written
  (\<open>MaybeUninit\<close>). Reading such a cell is undefined behaviour. A popped cell keeps its bits, as in
  the code. The invariant \<open>rb_ok\<close> and the abstraction \<open>rb_list\<close> (the items, oldest first) give the
  contract of \<open>Queue_Interface\<close>.
\<close>

record 'a ring_buffer =
  rb_slots :: "'a option list"
  rb_write_idx :: usize
  rb_read_idx :: usize
  rb_size :: usize
  rb_len :: usize

definition rb_is_full :: "'a ring_buffer \<Rightarrow> bool" where
  "rb_is_full rb \<longleftrightarrow> rb_len rb = rb_size rb"

definition rb_is_empty :: "'a ring_buffer \<Rightarrow> bool" where
  "rb_is_empty rb \<longleftrightarrow> rb_len rb = 0"

definition rb_capacity :: "'a ring_buffer \<Rightarrow> usize" where
  "rb_capacity rb = rb_size rb"

definition rb_new :: "(layout \<Rightarrow> bool) \<Rightarrow> layout \<Rightarrow> usize \<Rightarrow> 'a ring_buffer outcome" where
  "rb_new oom ty n =
     andThen (rust_assert (0 < n \<and> n < isize_max)) (\<lambda>_.
     andThen (unwrap_option (layout_array ty n)) (\<lambda>l.
     andThen (alloc_or_abort oom l) (\<lambda>_.
     Inr \<lparr>rb_slots = replicate n None, rb_write_idx = 0, rb_read_idx = 0, rb_size = n, rb_len = 0\<rparr>)))"

definition rb_push :: "'a \<Rightarrow> 'a ring_buffer \<Rightarrow> (unit result \<times> 'a ring_buffer) outcome" where
  "rb_push data rb =
     (if \<not> rb_is_full rb then
        andThen (ptr_write (rb_slots rb) (rb_write_idx rb) (Some data)) (\<lambda>slots.
        andThen (usize_rem (rb_write_idx rb + 1) (rb_size rb)) (\<lambda>w.
        Inr (Inr (), rb\<lparr>rb_slots := slots, rb_write_idx := w, rb_len := rb_len rb + 1\<rparr>)))
      else Inr (Inl PushError, rb))"

definition rb_pop :: "'a ring_buffer \<Rightarrow> ('a option \<times> 'a ring_buffer) outcome" where
  "rb_pop rb =
     (if \<not> rb_is_empty rb then
        andThen (ptr_read (rb_slots rb) (rb_read_idx rb)) (\<lambda>a.
        andThen (usize_rem (rb_read_idx rb + 1) (rb_size rb)) (\<lambda>r.
        andThen (unwrap_unchecked a) (\<lambda>x.
        Inr (Some x, rb\<lparr>rb_read_idx := r, rb_len := rb_len rb - 1\<rparr>))))
      else Inr (None, rb))"

definition rb_from_fixed_iter ::
  "(layout \<Rightarrow> bool) \<Rightarrow> layout \<Rightarrow> usize \<Rightarrow> 'a list \<Rightarrow> 'a ring_buffer outcome" where
  "rb_from_fixed_iter oom ty n items =
     andThen (rb_new oom ty n) (\<lambda>buffer. enq_items rb_push n items buffer)"

text \<open>The destructor: the items popped (and so dropped), then the layout given back.\<close>

definition rb_drop :: "layout \<Rightarrow> 'a ring_buffer \<Rightarrow> ('a list \<times> layout) outcome option" where
  "rb_drop ty rb =
     (case deq_all rb_pop [] rb of
        None \<Rightarrow> None
      | Some (Inl f) \<Rightarrow> Some (Inl f)
      | Some (Inr (xs, rb')) \<Rightarrow>
          Some (andThen (unwrap_option (layout_array ty (rb_size rb'))) (\<lambda>l. Inr (xs, l))))"

lemmas rb_defs [run_defs] = rb_new_def rb_push_def rb_pop_def rb_is_full_def rb_is_empty_def
  rb_capacity_def rb_from_fixed_iter_def rb_drop_def


section \<open>Invariant and abstraction\<close>

definition rb_slot :: "'a ring_buffer \<Rightarrow> nat \<Rightarrow> 'a option" where
  "rb_slot rb k = rb_slots rb ! ((rb_read_idx rb + k) mod rb_size rb)"

definition rb_list :: "'a ring_buffer \<Rightarrow> 'a list" where
  "rb_list rb = map (\<lambda>k. the (rb_slot rb k)) [0..<rb_len rb]"

definition rb_ok :: "'a ring_buffer \<Rightarrow> bool" where
  "rb_ok rb \<longleftrightarrow>
     0 < rb_size rb \<and> rb_size rb < isize_max \<and> length (rb_slots rb) = rb_size rb \<and>
     rb_len rb \<le> rb_size rb \<and> rb_read_idx rb < rb_size rb \<and>
     rb_write_idx rb = (rb_read_idx rb + rb_len rb) mod rb_size rb \<and>
     (\<forall>k < rb_len rb. rb_slot rb k \<noteq> None)"

lemma length_rb_list [simp]: "length (rb_list rb) = rb_len rb"
  by (simp add: rb_list_def)

lemma mod_offset_neq:
  assumes "k < l" and "l < (n::nat)"
  shows "(r + k) mod n \<noteq> (r + l) mod n"
proof
  assume "(r + k) mod n = (r + l) mod n"
  then have "n dvd l - k"
    using mod_eq_dvd_iff_nat [of "r + k" "r + l" n] assms by auto
  with assms show False by (auto dest: dvd_imp_le)
qed

lemma rb_new_ok:
  "rb_new oom ty n = Inr rb \<Longrightarrow> rb_ok rb \<and> rb_list rb = [] \<and> rb_size rb = n"
  by (auto simp: rb_new_def rb_ok_def rb_list_def outcome_simps)

lemma rb_push_room:
  assumes ok: "rb_ok rb" and room: "rb_len rb < rb_size rb"
  shows "\<exists>rb'. rb_push x rb = Inr (Inr (), rb') \<and> rb_ok rb' \<and> rb_list rb' = rb_list rb @ [x] \<and>
    rb_size rb' = rb_size rb"
proof -
  let ?n = "rb_size rb" and ?w = "rb_write_idx rb"
  let ?rb' = "rb\<lparr>rb_slots := (rb_slots rb)[?w := Some x], rb_write_idx := (?w + 1) mod ?n,
    rb_len := rb_len rb + 1\<rparr>"
  have w: "?w < length (rb_slots rb)" and n: "?n \<noteq> 0"
    and w_eq: "?w = (rb_read_idx rb + rb_len rb) mod ?n"
    using ok by (auto simp: rb_ok_def)
  have old: "rb_slot ?rb' k = rb_slot rb k" if "k < rb_len rb" for k
    using mod_offset_neq [OF that room, of "rb_read_idx rb"]
    by (simp add: rb_slot_def w_eq)
  have new: "rb_slot ?rb' (rb_len rb) = Some x"
    using w by (simp add: rb_slot_def w_eq [symmetric])
  have "rb_list ?rb' = rb_list rb @ [x]"
    using old new by (auto simp: rb_list_def)
  moreover have "rb_ok ?rb'"
    using ok room old new
    by (auto simp: rb_ok_def w_eq mod_Suc_eq less_Suc_eq)
  moreover have "rb_push x rb = Inr (Inr (), ?rb')"
    using room w n by (simp add: rb_push_def rb_is_full_def ptr_write_def usize_rem_def)
  ultimately show ?thesis by auto
qed

lemma rb_pop_first:
  assumes ok: "rb_ok rb" and items: "rb_list rb = x # xs"
  shows "\<exists>rb'. rb_pop rb = Inr (Some x, rb') \<and> rb_ok rb' \<and> rb_list rb' = xs \<and>
    rb_size rb' = rb_size rb"
proof -
  let ?n = "rb_size rb" and ?r = "rb_read_idx rb"
  obtain m where m: "rb_len rb = Suc m"
    using items by (metis length_rb_list length_Cons)
  let ?rb' = "rb\<lparr>rb_read_idx := Suc ?r mod ?n, rb_len := m\<rparr>"
  have r: "?r < length (rb_slots rb)" "?n \<noteq> 0"
    using ok by (auto simp: rb_ok_def)
  have next_slot: "rb_slot ?rb' k = rb_slot rb (Suc k)" for k
    by (simp add: rb_slot_def mod_simps)
  have "rb_slot rb 0 \<noteq> None"
    using ok m by (simp add: rb_ok_def)
  moreover have "the (rb_slot rb 0) = x" and xs: "map (\<lambda>k. the (rb_slot rb (Suc k))) [0..<m] = xs"
    using items by (auto simp: rb_list_def m upt_conv_Cons map_Suc_upt [symmetric]
        simp del: upt_Suc map_Suc_upt)
  ultimately have "rb_slots rb ! ?r = Some x"
    using ok by (auto simp: rb_slot_def rb_ok_def)
  then have "rb_pop rb = Inr (Some x, ?rb')"
    using r m by (simp add: rb_pop_def rb_is_empty_def ptr_read_def usize_rem_def)
  moreover have "rb_list ?rb' = xs"
    using xs by (simp add: rb_list_def next_slot)
  moreover have "rb_ok ?rb'"
    using ok m next_slot by (auto simp: rb_ok_def mod_simps)
  ultimately show ?thesis by auto
qed

interpretation rb: bounded_queue rb_ok rb_list rb_size rb_push rb_pop
proof unfold_locales
  show "rb_ok q \<Longrightarrow> length (rb_list q) \<le> rb_size q" for q :: "'a ring_buffer"
    by (simp add: rb_ok_def)
  show "rb_ok q \<Longrightarrow> length (rb_list q) < rb_size q \<Longrightarrow>
      \<exists>q'. rb_push x q = Inr (Inr (), q') \<and> rb_ok q' \<and> rb_list q' = rb_list q @ [x] \<and>
        rb_size q' = rb_size q" for q :: "'a ring_buffer" and x
    by (simp add: rb_push_room)
  show "rb_ok q \<Longrightarrow> length (rb_list q) = rb_size q \<Longrightarrow> rb_push x q = Inr (Inl PushError, q)"
    for q :: "'a ring_buffer" and x
    by (simp add: rb_push_def rb_is_full_def)
  show "rb_ok q \<Longrightarrow> rb_list q = [] \<Longrightarrow> rb_pop q = Inr (None, q)" for q :: "'a ring_buffer"
    by (simp add: rb_pop_def rb_is_empty_def rb_list_def)
  show "rb_ok q \<Longrightarrow> rb_list q = x # xs \<Longrightarrow>
      \<exists>q'. rb_pop q = Inr (Some x, q') \<and> rb_ok q' \<and> rb_list q' = xs \<and> rb_size q' = rb_size q"
    for q :: "'a ring_buffer" and x xs
    by (rule rb_pop_first)
qed

lemma rb_from_fixed_iter_ok:
  assumes "rb_from_fixed_iter oom ty n items = Inr rb"
  shows "rb_ok rb \<and> rb_size rb = n \<and> rb_list rb = take n items \<and> n \<le> length items \<and> 0 < n"
proof -
  from assms obtain b where b: "rb_new oom ty n = Inr b" "enq_items rb_push n items b = Inr rb"
    by (auto simp: rb_from_fixed_iter_def outcome_simps)
  note new = rb_new_ok [OF b(1)]
  have "n \<le> length items"
    using b(2) by (rule enq_items_length)
  with rb.enq_items_fit [of b n items] new b show ?thesis
    by (auto simp: rb_new_def outcome_simps)
qed

text \<open>
  The additions of \<open>push\<close> and \<open>pop\<close> are on \<open>nat\<close>: under the invariant no intermediate value
  leaves the range of \<open>usize\<close>, so they are those of the machine.
\<close>

lemma rb_no_usize_overflow:
  assumes "rb_ok rb"
  shows "rb_write_idx rb + 1 < usize_limit \<and> rb_read_idx rb + 1 < usize_limit \<and>
    rb_len rb + 1 < usize_limit"
proof -
  have "rb_write_idx rb < rb_size rb" "rb_read_idx rb < rb_size rb" "rb_len rb \<le> rb_size rb"
    "rb_size rb < isize_max"
    using assms by (simp_all add: rb_ok_def)
  with isize_max_less_limit show ?thesis
    by linarith
qed

end
