(* ===== verification/Handle_Interface.thy ===== *)
theory Handle_Interface
  imports Errors
begin

text \<open>
  The contract shared by everything that hands out generational handles: the allocator itself, the
  buffer pool over it and the object pool over it. A state has live handles and dead ones (released
  earlier); every handle names a slot, two live handles never the same one. Releasing may stop with
  an arithmetic overflow (the generation counter is full); nothing else does.

  From the contract: whatever a client does with the handles it was given, releasing them in any
  order and any number of times, no handle is issued twice and a released handle is refused for
  ever.
\<close>

text \<open>What a client does: acquire, or release the \<open>k\<close>-th handle it was given so far.\<close>

datatype 'o table_op = Acquire 'o | Release nat

fun table_run ::
  "('o \<Rightarrow> 's \<Rightarrow> ('h option \<times> 's) outcome) \<Rightarrow> ('h \<Rightarrow> 's \<Rightarrow> (bool \<times> 's) outcome) \<Rightarrow>
     'o table_op list \<Rightarrow> 'h list \<Rightarrow> 's \<Rightarrow> ('h list \<times> 's) outcome" where
  "table_run acquire release [] hs s = Inr (hs, s)"
| "table_run acquire release (Acquire x # ops) hs s =
     andThen (acquire x s) (\<lambda>(r, s').
       table_run acquire release ops (case r of None \<Rightarrow> hs | Some h \<Rightarrow> hs @ [h]) s')"
| "table_run acquire release (Release k # ops) hs s =
     (if k < length hs
      then andThen (release (hs ! k) s) (\<lambda>(_, s'). table_run acquire release ops hs s')
      else table_run acquire release ops hs s)"

locale handle_table =
  fixes inv :: "'s \<Rightarrow> bool"
    and live :: "'s \<Rightarrow> 'h set"
    and dead :: "'s \<Rightarrow> 'h set"
    and slot :: "'h \<Rightarrow> nat"
    and cap :: "'s \<Rightarrow> nat"
    and acquire :: "'o \<Rightarrow> 's \<Rightarrow> ('h option \<times> 's) outcome"
    and release :: "'h \<Rightarrow> 's \<Rightarrow> (bool \<times> 's) outcome"
    and valid :: "'s \<Rightarrow> 'h \<Rightarrow> bool outcome"
  assumes live_slot: "inv s \<Longrightarrow> h \<in> live s \<Longrightarrow> slot h < cap s"
    and slot_inj: "inv s \<Longrightarrow> h \<in> live s \<Longrightarrow> h' \<in> live s \<Longrightarrow> slot h = slot h' \<Longrightarrow> h = h'"
    and live_dead: "inv s \<Longrightarrow> live s \<inter> dead s = {}"
    and valid_live: "inv s \<Longrightarrow> h \<in> live s \<Longrightarrow> valid s h = Inr True"
    and valid_dead: "inv s \<Longrightarrow> h \<in> dead s \<Longrightarrow> valid s h = Inr False"
    and acquire_full: "inv s \<Longrightarrow> card (live s) = cap s \<Longrightarrow> acquire x s = Inr (None, s)"
    and acquire_room: "inv s \<Longrightarrow> card (live s) < cap s \<Longrightarrow>
      \<exists>h s'. acquire x s = Inr (Some h, s') \<and> inv s' \<and> h \<notin> live s \<and>
        live s' = insert h (live s) \<and> dead s' = dead s \<and> cap s' = cap s"
    and release_live: "inv s \<Longrightarrow> h \<in> live s \<Longrightarrow> release h s = Inl ArithOverflow \<or>
      (\<exists>s'. release h s = Inr (True, s') \<and> inv s' \<and> live s' = live s - {h} \<and>
        dead s' = insert h (dead s) \<and> cap s' = cap s)"
    and release_dead: "inv s \<Longrightarrow> h \<in> dead s \<Longrightarrow> release h s = Inr (False, s)"
begin

lemma slots_inj_on: "inv s \<Longrightarrow> inj_on slot (live s)"
  by (auto intro: inj_onI slot_inj)

lemma slots_in_range: "inv s \<Longrightarrow> slot ` live s \<subseteq> {..<cap s}"
  by (auto dest: live_slot)

lemma finite_live: "inv s \<Longrightarrow> finite (live s)"
  using slots_inj_on slots_in_range by (metis finite_imageD finite_lessThan finite_subset)

lemma card_live_le: "inv s \<Longrightarrow> card (live s) \<le> cap s"
  using card_inj_on_le [OF slots_inj_on slots_in_range] by simp

text \<open>Acquiring fails exactly when every slot is taken, and changes nothing then.\<close>

lemma acquire_cases:
  assumes "inv s"
  obtains (full) "acquire x s = Inr (None, s)" "card (live s) = cap s"
  | (fresh) h s' where "acquire x s = Inr (Some h, s')" "inv s'" "h \<notin> live s" "h \<notin> dead s"
      "live s' = insert h (live s)" "dead s' = dead s" "cap s' = cap s" "card (live s) < cap s"
proof (cases "card (live s) = cap s")
  case True
  with acquire_full [OF assms True] full show ?thesis by blast
next
  case False
  with card_live_le [OF assms] have room: "card (live s) < cap s" by simp
  from acquire_room [OF assms room, of x] obtain h s' where
    h: "acquire x s = Inr (Some h, s')" "inv s'" "h \<notin> live s" "live s' = insert h (live s)"
      "dead s' = dead s" "cap s' = cap s" by blast
  with live_dead [OF h(2)] have "h \<notin> dead s" by auto
  with fresh h room show ?thesis by blast
qed

lemma acquire_None_iff:
  assumes "inv s"
  shows "(\<exists>s'. acquire x s = Inr (None, s')) \<longleftrightarrow> card (live s) = cap s"
  by (cases rule: acquire_cases [OF assms, of x]) auto

lemma release_known:
  assumes "inv s" and "h \<in> live s \<union> dead s" and "release h s = Inr (b, s')"
  shows "inv s' \<and> (b \<longleftrightarrow> h \<in> live s) \<and> live s' = live s - {h} \<and> dead s' = insert h (dead s) \<and>
    cap s' = cap s"
proof (cases "h \<in> live s")
  case True
  with release_live [OF assms(1) True] assms(3) show ?thesis by auto
next
  case False
  with assms(2) have "h \<in> dead s" by simp
  with release_dead [OF assms(1) this] assms False show ?thesis by (auto simp: insert_absorb)
qed

lemma release_known_total:
  assumes "inv s" and "h \<in> live s \<union> dead s"
  obtains (overflow) "release h s = Inl ArithOverflow" | (returned) b s' where "release h s = Inr (b, s')"
  using assms release_live [OF assms(1)] release_dead [OF assms(1)] by blast

lemma double_release:
  assumes "inv s" and "h \<in> live s" and "release h s = Inr (b, s')"
  shows "b \<and> valid s' h = Inr False \<and> release h s' = Inr (False, s')"
  using release_known [OF assms(1) _ assms(3)] assms(2) valid_dead [of s' h] release_dead [of s' h]
  by auto

text \<open>
  A client that only releases handles it was given: the run ends (or a generation counter
  overflowed), no handle was issued twice, the released ones are dead and stay so.
\<close>

lemma table_run_safe:
  "inv s \<Longrightarrow> set hs \<subseteq> live s \<union> dead s \<Longrightarrow> distinct hs \<Longrightarrow>
     table_run acquire release ops hs s = Inl ArithOverflow \<or>
     (\<exists>hs' s'. table_run acquire release ops hs s = Inr (hs @ hs', s') \<and> inv s' \<and>
        distinct (hs @ hs') \<and> set (hs @ hs') \<subseteq> live s' \<union> dead s' \<and> dead s \<subseteq> dead s' \<and>
        live s' \<subseteq> live s \<union> set hs' \<and> cap s' = cap s)"
proof (induction ops arbitrary: hs s)
  case Nil
  then show ?case by auto
next
  case (Cons op ops)
  show ?case
  proof (cases op)
    case (Acquire x)
    show ?thesis
    proof (cases rule: acquire_cases [OF Cons.prems(1), of x, case_names full fresh])
      case full
      with Cons.IH [OF Cons.prems] Acquire show ?thesis by simp
    next
      case (fresh h s')
      have known: "set (hs @ [h]) \<subseteq> live s' \<union> dead s'" and "distinct (hs @ [h])"
        using Cons.prems fresh by auto
      have step: "table_run acquire release (op # ops) hs s =
          table_run acquire release ops (hs @ [h]) s'"
        using Acquire fresh by simp
      from Cons.IH [OF fresh(2) known \<open>distinct (hs @ [h])\<close>] show ?thesis
      proof (elim disjE exE)
        fix hs' s'' assume "table_run acquire release ops (hs @ [h]) s' =
            Inr ((hs @ [h]) @ hs', s'') \<and> inv s'' \<and> distinct ((hs @ [h]) @ hs') \<and>
            set ((hs @ [h]) @ hs') \<subseteq> live s'' \<union> dead s'' \<and> dead s' \<subseteq> dead s'' \<and>
            live s'' \<subseteq> live s' \<union> set hs' \<and> cap s'' = cap s'"
        with step fresh show ?thesis
          by (intro disjI2 exI [of _ "h # hs'"] exI [of _ s'']) auto
      qed (simp add: step)
    qed
  next
    case (Release k)
    show ?thesis
    proof (cases "k < length hs")
      case False
      with Cons.IH [OF Cons.prems] Release show ?thesis by simp
    next
      case True
      then have known: "hs ! k \<in> live s \<union> dead s" using Cons.prems(2) nth_mem by blast
      show ?thesis
      proof (cases rule: release_known_total [OF Cons.prems(1) known, case_names overflow returned])
        case overflow
        with True Release show ?thesis by simp
      next
        case (returned b s')
        note rel = release_known [OF Cons.prems(1) known returned]
        with Cons.prems have "set hs \<subseteq> live s' \<union> dead s'" by auto
        from Cons.IH [OF _ this Cons.prems(3)] rel True Release returned show ?thesis by auto
      qed
    qed
  qed
qed

end

end
