(* ===== verification/Gen_Alloc.thy ===== *)
theory Gen_Alloc
  imports Ring_Buffer Handle_Interface
begin

text \<open>
  \<open>GenId\<close> and \<open>GenAlloc\<close> of \<open>hoarder-collections/src/alloc.rs\<close>: a generational index allocator,
  an array of generation counters and a ring buffer of free indices. The profile argument says
  whether \<open>generation += 1\<close> is overflow checked; with the check on, the allocator meets the
  contract of \<open>Handle_Interface\<close>.
\<close>

record gen_id =
  gid_index :: u32
  gid_generation :: u32

record gen_alloc =
  ga_generation :: "u32 array"
  ga_free_list :: "u32 ring_buffer"

definition gen_alloc_new :: "(layout \<Rightarrow> bool) \<Rightarrow> u32 \<Rightarrow> u32 \<Rightarrow> gen_alloc outcome" where
  "gen_alloc_new oom capacity msk =
     (let msk = (if msk = 0 then - 1 else msk);
          capacity = capacity AND msk
      in andThen (array_new oom u32_layout 0 (unat capacity)) (\<lambda>generation.
         andThen (rb_from_fixed_iter oom u32_layout (unat capacity)
                    (rev (map of_nat [0..<unat capacity]))) (\<lambda>free_list.
         Inr \<lparr>ga_generation = generation, ga_free_list = free_list\<rparr>)))"

definition gen_alloc_alloc :: "gen_alloc \<Rightarrow> (gen_id option \<times> gen_alloc) outcome" where
  "gen_alloc_alloc ga =
     andThen (rb_pop (ga_free_list ga)) (\<lambda>(r, free_list).
     (case r of
        None \<Rightarrow> Inr (None, ga\<lparr>ga_free_list := free_list\<rparr>)
      | Some idx \<Rightarrow>
          andThen (array_index (ga_generation ga) (unat idx)) (\<lambda>generation.
          Inr (Some \<lparr>gid_index = idx, gid_generation = generation\<rparr>,
               ga\<lparr>ga_free_list := free_list\<rparr>))))"

definition gen_alloc_is_valid :: "gen_alloc \<Rightarrow> gen_id \<Rightarrow> bool outcome" where
  "gen_alloc_is_valid ga gid =
     (if unat (gid_index gid) < array_len (ga_generation ga)
      then andThen (array_index (ga_generation ga) (unat (gid_index gid))) (\<lambda>g.
           Inr (gid_generation gid = g))
      else Inr False)"

definition gen_alloc_free :: "profile \<Rightarrow> gen_id \<Rightarrow> gen_alloc \<Rightarrow> (bool \<times> gen_alloc) outcome" where
  "gen_alloc_free pr gid ga =
     andThen (gen_alloc_is_valid ga gid) (\<lambda>v.
     if v then
       andThen (array_index (ga_generation ga) (unat (gid_index gid))) (\<lambda>g.
       andThen (u32_add pr g 1) (\<lambda>g'.
       andThen (array_index_mut (ga_generation ga) (unat (gid_index gid)) g') (\<lambda>generation.
       andThen (rb_push (gid_index gid) (ga_free_list ga)) (\<lambda>(r, free_list).
       andThen (unwrap_result r) (\<lambda>_.
       Inr (True, ga\<lparr>ga_generation := generation, ga_free_list := free_list\<rparr>))))))
     else Inr (False, ga))"

lemmas gen_alloc_defs [run_defs] = gen_alloc_new_def gen_alloc_alloc_def gen_alloc_is_valid_def
  gen_alloc_free_def


section \<open>Invariant, live and dead handles\<close>

definition ga_cap :: "gen_alloc \<Rightarrow> nat" where
  "ga_cap ga = arr_size (ga_generation ga)"

definition ga_free :: "gen_alloc \<Rightarrow> u32 list" where
  "ga_free ga = rb_list (ga_free_list ga)"

definition ga_gen :: "gen_alloc \<Rightarrow> u32 \<Rightarrow> u32" where
  "ga_gen ga idx = arr_cells (ga_generation ga) ! unat idx"

definition ga_ok :: "gen_alloc \<Rightarrow> bool" where
  "ga_ok ga \<longleftrightarrow>
     array_ok (ga_generation ga) \<and> rb_ok (ga_free_list ga) \<and>
     rb_size (ga_free_list ga) = ga_cap ga \<and> ga_cap ga < 2 ^ 32 \<and>
     distinct (ga_free ga) \<and> (\<forall>idx \<in> set (ga_free ga). unat idx < ga_cap ga)"

text \<open>Live: the index is handed out, at its current generation. Dead: an older generation.\<close>

definition ga_live :: "gen_alloc \<Rightarrow> gen_id set" where
  "ga_live ga = {gid. unat (gid_index gid) < ga_cap ga \<and> gid_index gid \<notin> set (ga_free ga) \<and>
     gid_generation gid = ga_gen ga (gid_index gid)}"

definition ga_dead :: "gen_alloc \<Rightarrow> gen_id set" where
  "ga_dead ga = {gid. unat (gid_index gid) < ga_cap ga \<and>
     gid_generation gid < ga_gen ga (gid_index gid)}"

definition ga_slot :: "gen_id \<Rightarrow> nat" where
  "ga_slot gid = unat (gid_index gid)"

lemma ga_slot_inj:
  assumes "gid \<in> ga_live ga" and "gid' \<in> ga_live ga" and "ga_slot gid = ga_slot gid'"
  shows "gid = gid'"
  using assms by (cases gid, cases gid') (simp add: ga_live_def ga_slot_def)

lemma ga_slots:
  assumes "ga_ok ga"
  shows "ga_slot ` ga_live ga = {..<ga_cap ga} - unat ` set (ga_free ga)"
proof (intro equalityI subsetI)
  fix i assume i: "i \<in> {..<ga_cap ga} - unat ` set (ga_free ga)"
  with assms have w: "unat (of_nat i :: u32) = i"
    by (simp add: ga_ok_def u32_unat_of_nat)
  with i have "of_nat i \<notin> set (ga_free ga)" by (metis DiffD2 imageI)
  with i w show "i \<in> ga_slot ` ga_live ga"
    by (intro image_eqI [where x = "\<lparr>gid_index = of_nat i, gid_generation = ga_gen ga (of_nat i)\<rparr>"])
      (auto simp: ga_slot_def ga_live_def)
qed (auto simp: ga_slot_def ga_live_def)

text \<open>Every slot is either free or holds exactly one live handle.\<close>

lemma ga_card_live:
  assumes "ga_ok ga"
  shows "card (ga_live ga) + length (ga_free ga) = ga_cap ga"
proof -
  have "inj_on ga_slot (ga_live ga)"
    by (auto intro: inj_onI ga_slot_inj)
  then have "card (ga_live ga) = card ({..<ga_cap ga} - unat ` set (ga_free ga))"
    by (simp add: ga_slots [OF assms, symmetric] card_image)
  also have "\<dots> = ga_cap ga - card (unat ` set (ga_free ga))"
    using assms by (subst card_Diff_subset) (auto simp: ga_ok_def)
  also have "card (unat ` set (ga_free ga)) = length (ga_free ga)"
    using assms by (simp add: ga_ok_def card_image inj_on_def distinct_card del: length_rb_list)
  finally show ?thesis
    using assms by (simp add: ga_ok_def ga_free_def rb_ok_def)
qed

lemma gen_alloc_new_ok:
  assumes "gen_alloc_new oom capacity msk = Inr ga"
  shows "ga_ok ga \<and> ga_live ga = {} \<and> ga_dead ga = {} \<and>
    ga_cap ga = unat (capacity AND (if msk = 0 then - 1 else msk)) \<and>
    ga_free ga = rev (map of_nat [0..<ga_cap ga]) \<and> set (ga_free ga) = {w. unat w < ga_cap ga}"
proof -
  let ?n = "unat (capacity AND (if msk = 0 then - 1 else msk))"
  from assms obtain g f where g: "array_new oom u32_layout 0 ?n = Inr g"
    and f: "rb_from_fixed_iter oom u32_layout ?n (rev (map of_nat [0..<?n])) = Inr f"
    and ga: "ga = \<lparr>ga_generation = g, ga_free_list = f\<rparr>"
    by (auto simp: gen_alloc_new_def Let_def outcome_simps)
  note g = array_new_ok [OF g] and f = rb_from_fixed_iter_ok [OF f]
  have n: "?n < 2 ^ 32" by (rule u32_unat_less)
  have free: "ga_free ga = rev (map of_nat [0..<?n])" and cap: "ga_cap ga = ?n"
    using ga f g by (auto simp: ga_free_def ga_cap_def)
  have "distinct (ga_free ga)" and "set (ga_free ga) = {w. unat w < ?n}"
    using distinct_u32_upt [OF n] set_u32_upt [OF n] by (simp_all only: free distinct_rev set_rev)
  moreover have "ga_gen ga w = 0" if "unat w < ?n" for w
    using that g ga by (simp add: ga_gen_def)
  ultimately show ?thesis
    using g f n free cap ga by (auto simp: ga_ok_def ga_live_def ga_dead_def simp del: set_map)
qed


section \<open>The operations\<close>

lemma gen_alloc_is_valid_eq:
  assumes "ga_ok ga"
  shows "gen_alloc_is_valid ga gid =
    Inr (unat (gid_index gid) < ga_cap ga \<and> gid_generation gid = ga_gen ga (gid_index gid))"
  using assms by (simp add: gen_alloc_is_valid_def ga_ok_def ga_cap_def ga_gen_def array_len_def)

lemma gen_alloc_alloc_full:
  assumes "ga_ok ga" and "ga_free ga = []"
  shows "gen_alloc_alloc ga = Inr (None, ga)"
  using assms rb.deq_empty [of "ga_free_list ga"]
  by (simp add: gen_alloc_alloc_def ga_ok_def ga_free_def)

lemma gen_alloc_alloc_first:
  assumes ok: "ga_ok ga" and free: "ga_free ga = idx # rest"
  shows "\<exists>ga'. gen_alloc_alloc ga =
      Inr (Some \<lparr>gid_index = idx, gid_generation = ga_gen ga idx\<rparr>, ga') \<and> ga_ok ga' \<and>
    ga_free ga' = rest \<and> ga_generation ga' = ga_generation ga"
proof -
  from rb.deq_first [of "ga_free_list ga" idx rest] assms obtain f where
    f: "rb_pop (ga_free_list ga) = Inr (Some idx, f)" "rb_ok f" "rb_list f = rest"
      "rb_size f = rb_size (ga_free_list ga)"
    by (auto simp: ga_ok_def ga_free_def)
  have "array_index (ga_generation ga) (unat idx) = Inr (ga_gen ga idx)"
    using assms by (simp add: ga_ok_def ga_gen_def ga_cap_def)
  with f assms show ?thesis
    by (auto simp: gen_alloc_alloc_def ga_ok_def ga_free_def ga_cap_def)
qed

lemma gen_alloc_free_live:
  assumes ok: "ga_ok ga" and live: "gid \<in> ga_live ga"
    and g: "u32_add pr (gid_generation gid) 1 = Inr g'"
  shows "\<exists>ga'. gen_alloc_free pr gid ga = Inr (True, ga') \<and> ga_ok ga' \<and>
    ga_free ga' = ga_free ga @ [gid_index gid] \<and> ga_cap ga' = ga_cap ga \<and>
    ga_generation ga' = ga_generation ga\<lparr>arr_cells :=
      (arr_cells (ga_generation ga))[unat (gid_index gid) := g']\<rparr>"
proof -
  let ?i = "gid_index gid"
  have i: "unat ?i < ga_cap ga" "?i \<notin> set (ga_free ga)" "gid_generation gid = ga_gen ga ?i"
    using live by (auto simp: ga_live_def)
  have "finite (ga_live ga)"
    by (rule finite_imageD [of ga_slot])
      (auto simp: ga_slots [OF ok] intro: inj_onI ga_slot_inj)
  with live have "card (ga_live ga) \<noteq> 0" by auto
  with ga_card_live [OF ok] have "length (ga_free ga) < ga_cap ga" by simp
  with rb.enq_room [of "ga_free_list ga" ?i] ok obtain f where
    f: "rb_push ?i (ga_free_list ga) = Inr (Inr (), f)" "rb_ok f"
      "rb_list f = ga_free ga @ [?i]" "rb_size f = ga_cap ga"
    by (auto simp: ga_ok_def ga_free_def)
  have "array_index (ga_generation ga) (unat ?i) = Inr (gid_generation gid)"
    using ok i by (simp add: ga_ok_def ga_cap_def ga_gen_def)
  with f ok i g show ?thesis
    by (auto simp: gen_alloc_free_def gen_alloc_is_valid_eq ga_ok_def ga_cap_def ga_free_def)
qed

lemma gen_alloc_free_overflow:
  assumes ok: "ga_ok ga" and live: "gid \<in> ga_live ga"
    and g: "u32_add pr (gid_generation gid) 1 = Inl e"
  shows "gen_alloc_free pr gid ga = Inl e"
proof -
  have "array_index (ga_generation ga) (unat (gid_index gid)) = Inr (gid_generation gid)"
    using ok live by (simp add: ga_ok_def ga_live_def ga_cap_def ga_gen_def)
  with g live show ?thesis
    by (simp add: gen_alloc_free_def gen_alloc_is_valid_eq [OF ok] ga_live_def)
qed

lemma gen_alloc_free_invalid:
  assumes "ga_ok ga"
    and "\<not> (unat (gid_index gid) < ga_cap ga \<and> gid_generation gid = ga_gen ga (gid_index gid))"
  shows "gen_alloc_free pr gid ga = Inr (False, ga)"
  using assms(2) by (auto simp: gen_alloc_free_def gen_alloc_is_valid_eq [OF assms(1)])

text \<open>What a checked release does to the live and the dead handles.\<close>

lemma ga_gen_update:
  assumes "ga_ok ga" and "unat i < ga_cap ga"
    and "ga_generation ga' = ga_generation ga\<lparr>arr_cells := (arr_cells (ga_generation ga))[unat i := g]\<rparr>"
  shows "ga_gen ga' j = (if j = i then g else ga_gen ga j)"
  using assms by (auto simp: ga_gen_def ga_ok_def array_ok_def ga_cap_def nth_list_update)

lemma ga_release_sets:
  assumes ok: "ga_ok ga" and live: "gid \<in> ga_live ga"
    and g: "u32_add Checked (gid_generation gid) 1 = Inr g'"
    and ga': "ga_free ga' = ga_free ga @ [gid_index gid]" "ga_cap ga' = ga_cap ga"
      "ga_generation ga' = ga_generation ga\<lparr>arr_cells :=
        (arr_cells (ga_generation ga))[unat (gid_index gid) := g']\<rparr>"
  shows "ga_live ga' = ga_live ga - {gid}" and "ga_dead ga' = insert gid (ga_dead ga)"
proof -
  have gid: "unat (gid_index gid) < ga_cap ga" "gid_generation gid = ga_gen ga (gid_index gid)"
    using live by (auto simp: ga_live_def)
  have succ: "unat (gid_generation gid) + 1 < 2 ^ 32" "g' = gid_generation gid + 1"
    using g by (auto simp: u32_add_Checked_Inr)
  note gen = ga_gen_update [OF ok gid(1) ga'(3)]
  have "h \<in> ga_live ga' \<longleftrightarrow> h \<in> ga_live ga - {gid}" for h
    using gid ga' by (cases h, cases gid) (auto simp: ga_live_def gen)
  then show "ga_live ga' = ga_live ga - {gid}" by blast
  have "h \<in> ga_dead ga' \<longleftrightarrow> h \<in> insert gid (ga_dead ga)" for h
    using gid ga' succ
    by (cases h, cases gid) (auto simp: ga_dead_def gen u32_less_succ split: if_splits)
  then show "ga_dead ga' = insert gid (ga_dead ga)" by blast
qed

interpretation ga: handle_table ga_ok ga_live ga_dead ga_slot ga_cap
  "\<lambda>_::unit. gen_alloc_alloc" "gen_alloc_free Checked" gen_alloc_is_valid
proof unfold_locales
  fix s :: gen_alloc assume ok: "ga_ok s"
  show "h \<in> ga_live s \<Longrightarrow> ga_slot h < ga_cap s" for h
    by (simp add: ga_live_def ga_slot_def)
  show "h \<in> ga_live s \<Longrightarrow> h' \<in> ga_live s \<Longrightarrow> ga_slot h = ga_slot h' \<Longrightarrow> h = h'" for h h'
    by (rule ga_slot_inj)
  show "ga_live s \<inter> ga_dead s = {}"
    by (auto simp: ga_live_def ga_dead_def)
  show "h \<in> ga_live s \<Longrightarrow> gen_alloc_is_valid s h = Inr True" for h
    by (simp add: gen_alloc_is_valid_eq [OF ok] ga_live_def)
  show "h \<in> ga_dead s \<Longrightarrow> gen_alloc_is_valid s h = Inr False" for h
    by (auto simp: gen_alloc_is_valid_eq [OF ok] ga_dead_def)
  show "card (ga_live s) = ga_cap s \<Longrightarrow> gen_alloc_alloc s = Inr (None, s)"
    using ga_card_live [OF ok] by (simp add: gen_alloc_alloc_full [OF ok])
  show "card (ga_live s) < ga_cap s \<Longrightarrow> \<exists>h s'. gen_alloc_alloc s = Inr (Some h, s') \<and> ga_ok s' \<and>
      h \<notin> ga_live s \<and> ga_live s' = insert h (ga_live s) \<and> ga_dead s' = ga_dead s \<and>
      ga_cap s' = ga_cap s"
  proof -
    assume "card (ga_live s) < ga_cap s"
    with ga_card_live [OF ok] obtain idx rest where free: "ga_free s = idx # rest"
      by (cases "ga_free s") auto
    from gen_alloc_alloc_first [OF ok free] obtain s' where
      s': "gen_alloc_alloc s = Inr (Some \<lparr>gid_index = idx, gid_generation = ga_gen s idx\<rparr>, s')"
        "ga_ok s'" "ga_free s' = rest" "ga_generation s' = ga_generation s" by blast
    have "distinct (idx # rest)" "unat idx < ga_cap s"
      using ok free by (auto simp: ga_ok_def)
    with s' free show ?thesis
      by (intro exI [of _ "\<lparr>gid_index = idx, gid_generation = ga_gen s idx\<rparr>"] exI [of _ s'])
        (auto simp: ga_live_def ga_dead_def ga_cap_def ga_gen_def intro: gen_id.equality)
  qed
  show "gen_alloc_free Checked h s = Inl ArithOverflow \<or> (\<exists>s'. gen_alloc_free Checked h s = Inr (True, s') \<and>
      ga_ok s' \<and> ga_live s' = ga_live s - {h} \<and> ga_dead s' = insert h (ga_dead s) \<and>
      ga_cap s' = ga_cap s)" if live: "h \<in> ga_live s" for h
  proof (cases "u32_add Checked (gid_generation h) 1")
    case (Inl e)
    then have "e = ArithOverflow" by (auto simp: u32_add_def split: if_splits)
    with gen_alloc_free_overflow [OF ok live Inl] show ?thesis by simp
  next
    case (Inr g')
    from gen_alloc_free_live [OF ok live Inr] ga_release_sets [OF ok live Inr] show ?thesis
      by blast
  qed
  show "h \<in> ga_dead s \<Longrightarrow> gen_alloc_free Checked h s = Inr (False, s)" for h
    by (rule gen_alloc_free_invalid [OF ok]) (auto simp: ga_dead_def)
qed

end
