(* ===== verification/Object_Pool.thy ===== *)
theory Object_Pool
  imports Gen_Alloc
begin

text \<open>
  \<open>ObjectHandle\<close> and \<open>ObjectPool\<close> of \<open>hoarder-collections/src/alloc.rs\<close>: a slab of objects behind
  64-bit handles that pack the pool's identifier, the slot and its generation. The const generic
  \<open>ID\<close> is an argument of \<open>spawn\<close>, the only operation that uses it. The reference \<open>get_mut\<close> returns
  is the object it points to together with \<open>object_pool_store\<close>, the write through it.
\<close>

section \<open>Handles\<close>

datatype object_handle = ObjectHandle (handle_bits: u64)

abbreviation POOL_MASK :: u32 where "POOL_MASK \<equiv> 0x00FFFFFF"

definition handle_new :: "u8 \<Rightarrow> gen_id \<Rightarrow> object_handle" where
  "handle_new pool_id gid = ObjectHandle
     (push_bit 56 (ucast pool_id) OR push_bit 32 (ucast (gid_index gid)) OR ucast (gid_generation gid))"

definition handle_pool_id :: "object_handle \<Rightarrow> u8" where
  "handle_pool_id h = ucast (drop_bit 56 (handle_bits h))"

definition handle_index :: "object_handle \<Rightarrow> u32" where
  "handle_index h = ucast (drop_bit 32 (handle_bits h)) AND POOL_MASK"

definition handle_generation :: "object_handle \<Rightarrow> u32" where
  "handle_generation h = ucast (handle_bits h)"

text \<open>The conversions from and to \<open>u64\<close> carry a handle through a queue entry's user data.\<close>

definition handle_from_u64 :: "u64 \<Rightarrow> object_handle" where
  "handle_from_u64 value = ObjectHandle value"

definition handle_into_u64 :: "object_handle \<Rightarrow> u64" where
  "handle_into_u64 h = handle_bits h"

definition handle_gid :: "object_handle \<Rightarrow> gen_id" where
  "handle_gid h = \<lparr>gid_index = handle_index h, gid_generation = handle_generation h\<rparr>"

lemmas handle_defs [run_defs] = handle_new_def handle_pool_id_def handle_index_def
  handle_generation_def handle_from_u64_def handle_into_u64_def handle_gid_def

lemma POOL_MASK_eq: "POOL_MASK = mask 24"
  by (simp add: mask_numeral)

lemma handle_index_less: "unat (handle_index h) < 2 ^ 24"
proof -
  have "handle_index h = take_bit 24 (ucast (drop_bit 32 (handle_bits h)))"
    by (simp only: handle_index_def POOL_MASK_eq take_bit_eq_mask)
  then have "unat (handle_index h) = take_bit 24 (unat (ucast (drop_bit 32 (handle_bits h)) :: u32))"
    by (simp only: unsigned_take_bit_eq)
  then show ?thesis by (simp add: take_bit_eq_mod)
qed

lemma u32_small_bits:
  assumes "unat (w :: u32) < 2 ^ 24"
  shows "take_bit 24 w = w"
proof -
  have "unat (take_bit 24 w) = unat w"
    using assms by (simp only: unsigned_take_bit_eq take_bit_nat_eq_self)
  then show ?thesis by (simp only: word_unat_eq_iff)
qed

lemma handle_pack_index:
  assumes "unat (gid_index gid) < 2 ^ 24"
  shows "handle_index (handle_new pool_id gid) = gid_index gid"
proof -
  have "handle_index (handle_new pool_id gid) = take_bit 24 (gid_index gid)"
    unfolding handle_index_def handle_new_def object_handle.sel POOL_MASK_eq
      take_bit_eq_mask [symmetric]
    by (rule bit_word_eqI) (auto simp: bit_simps dest: bit_imp_le_length)
  with u32_small_bits [OF assms] show ?thesis by simp
qed

lemma handle_pack_generation: "handle_generation (handle_new pool_id gid) = gid_generation gid"
  unfolding handle_generation_def handle_new_def object_handle.sel
  by (rule bit_word_eqI) (auto simp: bit_simps)

lemma handle_pack_pool_id:
  assumes "unat (gid_index gid) < 2 ^ 24"
  shows "handle_pool_id (handle_new pool_id gid) = pool_id"
proof -
  have "\<not> bit (gid_index gid) n" if "24 \<le> n" for n
    using u32_small_bits [OF assms] that by (metis bit_take_bit_iff not_less)
  then show ?thesis
    unfolding handle_pool_id_def handle_new_def object_handle.sel
    by (intro bit_word_eqI) (auto simp: bit_simps dest: bit_imp_le_length)
qed

lemma handle_gid_pack [simp]:
  "unat (gid_index gid) < 2 ^ 24 \<Longrightarrow> handle_gid (handle_new pool_id gid) = gid"
  by (simp add: handle_gid_def handle_pack_index handle_pack_generation)

lemma handle_unpack: "handle_new (handle_pool_id h) (handle_gid h) = h"
proof -
  have "push_bit 56 (ucast (handle_pool_id h)) OR push_bit 32 (ucast (handle_index h)) OR
      ucast (handle_generation h) = handle_bits h"
    unfolding handle_pool_id_def handle_index_def handle_generation_def POOL_MASK_eq
      take_bit_eq_mask [symmetric]
  proof (rule bit_word_eqI)
    fix n assume "n < LENGTH(64)"
    then show "bit (push_bit 56 (ucast (ucast (drop_bit 56 (handle_bits h)) :: u8)) OR
        push_bit 32 (ucast (take_bit 24 (ucast (drop_bit 32 (handle_bits h))) :: u32)) OR
        ucast (ucast (handle_bits h) :: u32) :: u64) n = bit (handle_bits h) n"
      by (cases "56 \<le> n") (auto simp: bit_simps)
  qed
  then show ?thesis by (simp add: handle_new_def handle_gid_def)
qed

lemma handle_eqI:
  "handle_pool_id h = handle_pool_id h' \<Longrightarrow> handle_gid h = handle_gid h' \<Longrightarrow> h = h'"
  by (metis handle_unpack)


section \<open>The pool\<close>

record 'a object_pool =
  op_data :: "'a option array"
  op_alloc :: gen_alloc

definition object_pool_new ::
  "(layout \<Rightarrow> bool) \<Rightarrow> layout \<Rightarrow> u32 \<Rightarrow> 'a object_pool outcome" where
  "object_pool_new oom ty capacity =
     andThen (array_new_with_fn oom ty (\<lambda>_. None) (unat capacity)) (\<lambda>data.
     andThen (gen_alloc_new oom capacity POOL_MASK) (\<lambda>alloc.
     Inr \<lparr>op_data = data, op_alloc = alloc\<rparr>))"

definition object_pool_capacity :: "'a object_pool \<Rightarrow> u32" where
  "object_pool_capacity op = of_nat (array_len (op_data op))"

definition object_pool_spawn ::
  "u8 \<Rightarrow> 'a \<Rightarrow> 'a object_pool \<Rightarrow> (object_handle option \<times> 'a object_pool) outcome" where
  "object_pool_spawn ID obj op =
     andThen (gen_alloc_alloc (op_alloc op)) (\<lambda>(r, alloc).
     (case r of
        None \<Rightarrow> Inr (None, op\<lparr>op_alloc := alloc\<rparr>)
      | Some gid \<Rightarrow>
          andThen (array_index (op_data op) (unat (gid_index gid))) (\<lambda>old.
          andThen (rust_assert (old = None)) (\<lambda>_.
          andThen (array_index_mut (op_data op) (unat (gid_index gid)) (Some obj)) (\<lambda>data.
          Inr (Some (handle_new ID gid), op\<lparr>op_data := data, op_alloc := alloc\<rparr>))))))"

definition object_pool_get :: "'a object_pool \<Rightarrow> object_handle \<Rightarrow> 'a option outcome" where
  "object_pool_get op h =
     andThen (gen_alloc_is_valid (op_alloc op) (handle_gid h)) (\<lambda>v.
     if v then array_index (op_data op) (unat (handle_index h)) else Inr None)"

definition object_pool_get_mut :: "'a object_pool \<Rightarrow> object_handle \<Rightarrow> 'a option outcome" where
  "object_pool_get_mut op h =
     andThen (gen_alloc_is_valid (op_alloc op) (handle_gid h)) (\<lambda>v.
     if v then array_index (op_data op) (unat (handle_index h)) else Inr None)"

text \<open>Writing through the reference \<open>get_mut\<close> returned for this handle.\<close>

definition object_pool_store ::
  "object_handle \<Rightarrow> 'a \<Rightarrow> 'a object_pool \<Rightarrow> 'a object_pool outcome" where
  "object_pool_store h obj op =
     andThen (array_index_mut (op_data op) (unat (handle_index h)) (Some obj)) (\<lambda>data.
     Inr (op\<lparr>op_data := data\<rparr>))"

definition object_pool_despawn ::
  "profile \<Rightarrow> object_handle \<Rightarrow> 'a object_pool \<Rightarrow> (bool \<times> 'a object_pool) outcome" where
  "object_pool_despawn pr h op =
     andThen (gen_alloc_free pr (handle_gid h) (op_alloc op)) (\<lambda>(freed, alloc).
     if freed then
       andThen (array_index_mut (op_data op) (unat (handle_index h)) None) (\<lambda>data.
       Inr (True, op\<lparr>op_data := data, op_alloc := alloc\<rparr>))
     else Inr (False, op\<lparr>op_alloc := alloc\<rparr>))"

lemmas object_pool_defs [run_defs] = object_pool_new_def object_pool_capacity_def
  object_pool_spawn_def object_pool_get_def object_pool_get_mut_def object_pool_store_def
  object_pool_despawn_def


section \<open>Invariant and abstraction\<close>

definition op_cap :: "'a object_pool \<Rightarrow> nat" where
  "op_cap op = ga_cap (op_alloc op)"

definition op_cell :: "'a object_pool \<Rightarrow> u32 \<Rightarrow> 'a option" where
  "op_cell op idx = arr_cells (op_data op) ! unat idx"

definition op_ok :: "'a object_pool \<Rightarrow> bool" where
  "op_ok op \<longleftrightarrow>
     ga_ok (op_alloc op) \<and> array_ok (op_data op) \<and> op_cap op \<le> arr_size (op_data op) \<and>
     op_cap op < 2 ^ 24 \<and>
     (\<forall>idx. unat idx < op_cap op \<longrightarrow> (op_cell op idx = None \<longleftrightarrow> idx \<in> set (ga_free (op_alloc op))))"

text \<open>The pool as a finite map from the live identifiers to the objects.\<close>

definition op_map :: "'a object_pool \<Rightarrow> gen_id \<rightharpoonup> 'a" where
  "op_map op gid = (if gid \<in> ga_live (op_alloc op) then op_cell op (gid_index gid) else None)"

definition op_live :: "u8 \<Rightarrow> 'a object_pool \<Rightarrow> object_handle set" where
  "op_live ID op = {h. handle_pool_id h = ID \<and> handle_gid h \<in> ga_live (op_alloc op)}"

definition op_dead :: "u8 \<Rightarrow> 'a object_pool \<Rightarrow> object_handle set" where
  "op_dead ID op = {h. handle_pool_id h = ID \<and> handle_gid h \<in> ga_dead (op_alloc op)}"

definition op_slot :: "object_handle \<Rightarrow> nat" where
  "op_slot h = unat (handle_index h)"

definition op_valid :: "'a object_pool \<Rightarrow> object_handle \<Rightarrow> bool outcome" where
  "op_valid op h = gen_alloc_is_valid (op_alloc op) (handle_gid h)"

lemma op_live_in_dom:
  "op_ok op \<Longrightarrow> dom (op_map op) = ga_live (op_alloc op)"
  by (auto simp: op_map_def op_ok_def op_cap_def ga_live_def split: if_splits)

lemma op_live_index:
  assumes "op_ok op" and "gid \<in> ga_live (op_alloc op)"
  shows "unat (gid_index gid) < op_cap op" "unat (gid_index gid) < arr_size (op_data op)"
    "unat (gid_index gid) < 2 ^ 24"
  using assms by (auto simp: op_ok_def op_cap_def ga_live_def)

lemma handle_gid_index [simp]: "gid_index (handle_gid h) = handle_index h"
  by (simp add: handle_gid_def)

lemma op_cell_update:
  assumes "array_ok (op_data op)" and "unat i < arr_size (op_data op)"
    and "op_data op' = op_data op\<lparr>arr_cells := (arr_cells (op_data op))[unat i := v]\<rparr>"
  shows "op_cell op' j = (if j = i then v else op_cell op j)"
  using assms by (auto simp: op_cell_def array_ok_def nth_list_update)

lemma object_pool_new_ok:
  assumes "object_pool_new oom ty capacity = Inr op"
  shows "op_ok op \<and> op_map op = Map.empty \<and> op_cap op = unat (capacity AND POOL_MASK) \<and>
    arr_size (op_data op) = unat capacity"
proof -
  from assms obtain data alloc where
    data: "array_new_with_fn oom ty (\<lambda>_. None) (unat capacity) = Inr data"
    and alloc: "gen_alloc_new oom capacity POOL_MASK = Inr alloc"
    and op: "op = \<lparr>op_data = data, op_alloc = alloc\<rparr>"
    by (auto simp: object_pool_new_def outcome_simps)
  note data = array_new_with_fn_ok [OF data] and alloc = gen_alloc_new_ok [OF alloc]
  have le: "capacity AND POOL_MASK \<le> capacity" "capacity AND POOL_MASK \<le> POOL_MASK"
    by (rule word_and_le2, rule word_and_le1)
  then have cap: "ga_cap alloc \<le> unat capacity" "ga_cap alloc < 2 ^ 24"
    using alloc by (simp_all add: word_le_nat_alt)
  have "set (ga_free alloc) = {w. unat w < ga_cap alloc}"
    using alloc by blast
  then have "idx \<in> set (ga_free alloc)" if "unat idx < ga_cap alloc" for idx
    using that by blast
  with op data alloc cap show ?thesis
    by (auto simp: op_ok_def op_cap_def op_cell_def op_map_def)
qed

text \<open>\<open>get\<close> is lookup in the map, whatever the handle: forged and stale ones find nothing.\<close>

lemma object_pool_get_eq:
  assumes "op_ok op"
  shows "object_pool_get op h = Inr (op_map op (handle_gid h)) \<and>
    object_pool_get_mut op h = Inr (op_map op (handle_gid h))"
proof (cases "unat (handle_index h) < op_cap op \<and>
    handle_generation h = ga_gen (op_alloc op) (handle_index h)")
  case True
  with assms show ?thesis
    by (auto simp: object_pool_get_def object_pool_get_mut_def op_ok_def gen_alloc_is_valid_eq
        op_cap_def op_map_def op_cell_def ga_live_def handle_gid_def)
next
  case False
  with assms show ?thesis
    by (auto simp: object_pool_get_def object_pool_get_mut_def op_ok_def gen_alloc_is_valid_eq
        op_cap_def op_map_def ga_live_def handle_gid_def)
qed

lemma object_pool_store_ok:
  assumes ok: "op_ok op" and live: "handle_gid h \<in> ga_live (op_alloc op)"
  shows "\<exists>op'. object_pool_store h obj op = Inr op' \<and> op_ok op' \<and>
    op_map op' = (op_map op)(handle_gid h \<mapsto> obj) \<and> op_alloc op' = op_alloc op"
proof -
  note index = op_live_index [OF ok live]
  let ?data = "op_data op\<lparr>arr_cells := (arr_cells (op_data op))[unat (handle_index h) := Some obj]\<rparr>"
  have arr: "array_ok (op_data op)" using ok by (simp add: op_ok_def)
  have cell: "op_cell (op\<lparr>op_data := ?data\<rparr>) j =
      (if j = handle_index h then Some obj else op_cell op j)" for j
    using op_cell_update [OF arr, of "handle_index h" "op\<lparr>op_data := ?data\<rparr>"] index by simp
  have "object_pool_store h obj op = Inr (op\<lparr>op_data := ?data\<rparr>)"
    using arr index by (simp add: object_pool_store_def)
  moreover have "op_ok (op\<lparr>op_data := ?data\<rparr>)"
    using ok live by (auto simp: op_ok_def op_cap_def cell ga_live_def)
  moreover have "op_map (op\<lparr>op_data := ?data\<rparr>) = (op_map op)(handle_gid h \<mapsto> obj)"
    using live by (auto simp: op_map_def cell fun_eq_iff ga_live_def handle_gid_def)
  ultimately show ?thesis by auto
qed

lemma object_pool_spawn_full:
  assumes "op_ok op" and "ga_free (op_alloc op) = []"
  shows "object_pool_spawn ID obj op = Inr (None, op)"
  using assms gen_alloc_alloc_full [of "op_alloc op"] by (simp add: object_pool_spawn_def op_ok_def)

lemma object_pool_spawn_room:
  assumes ok: "op_ok op" and free: "ga_free (op_alloc op) = idx # rest"
  shows "\<exists>gid op'. object_pool_spawn ID obj op = Inr (Some (handle_new ID gid), op') \<and> op_ok op' \<and>
    unat (gid_index gid) < 2 ^ 24 \<and> gid \<notin> ga_live (op_alloc op) \<and>
    ga_live (op_alloc op') = insert gid (ga_live (op_alloc op)) \<and>
    ga_dead (op_alloc op') = ga_dead (op_alloc op) \<and> op_cap op' = op_cap op \<and>
    op_map op' = (op_map op)(gid \<mapsto> obj)"
proof -
  let ?gid = "\<lparr>gid_index = idx, gid_generation = ga_gen (op_alloc op) idx\<rparr>"
  let ?data = "op_data op\<lparr>arr_cells := (arr_cells (op_data op))[unat idx := Some obj]\<rparr>"
  have ga: "ga_ok (op_alloc op)" and arr: "array_ok (op_data op)" using ok by (simp_all add: op_ok_def)
  from gen_alloc_alloc_first [OF ga free] obtain a where
    a: "gen_alloc_alloc (op_alloc op) = Inr (Some ?gid, a)" "ga_ok a" "ga_free a = rest"
      "ga_generation a = ga_generation (op_alloc op)" by blast
  have idx: "unat idx < op_cap op" "idx \<notin> set rest" and empty: "op_cell op idx = None"
    using ok free by (auto simp: op_ok_def ga_ok_def op_cap_def)
  with ok have range: "unat idx < arr_size (op_data op)" by (simp add: op_ok_def)
  have gen: "ga_gen a = ga_gen (op_alloc op)" "ga_cap a = op_cap op"
    using a by (simp_all add: ga_gen_def fun_eq_iff ga_cap_def op_cap_def)
  let ?op' = "op\<lparr>op_data := ?data, op_alloc := a\<rparr>"
  have cell: "op_cell ?op' j = (if j = idx then Some obj else op_cell op j)" for j
    using op_cell_update [OF arr range, of ?op'] by simp
  have live: "ga_live a = insert ?gid (ga_live (op_alloc op))"
    using idx free gen a by (auto simp: ga_live_def op_cap_def intro: gen_id.equality)
  have "object_pool_spawn ID obj op = Inr (Some (handle_new ID ?gid), ?op')"
    using a arr range empty by (simp add: object_pool_spawn_def op_cell_def)
  moreover have "op_ok ?op'"
    using ok a idx free gen by (auto simp: op_ok_def cell op_cap_def)
  moreover have "op_map ?op' = (op_map op)(?gid \<mapsto> obj)"
    using live idx free by (auto simp: op_map_def cell fun_eq_iff ga_live_def intro: gen_id.equality)
  ultimately show ?thesis
    using live idx ok free gen
    by (intro exI [of _ ?gid] exI [of _ ?op'])
      (auto simp: op_ok_def ga_live_def ga_dead_def op_cap_def)
qed

lemma object_pool_despawn_live:
  assumes ok: "op_ok op" and live: "handle_gid h \<in> ga_live (op_alloc op)"
  shows "object_pool_despawn Checked h op = Inl ArithOverflow \<or>
    (\<exists>op'. object_pool_despawn Checked h op = Inr (True, op') \<and> op_ok op' \<and>
      ga_live (op_alloc op') = ga_live (op_alloc op) - {handle_gid h} \<and>
      ga_dead (op_alloc op') = insert (handle_gid h) (ga_dead (op_alloc op)) \<and>
      op_cap op' = op_cap op \<and> op_map op' = (op_map op)(handle_gid h := None))"
proof -
  have ga: "ga_ok (op_alloc op)" and arr: "array_ok (op_data op)" using ok by (simp_all add: op_ok_def)
  note index = op_live_index [OF ok live]
  let ?data = "op_data op\<lparr>arr_cells := (arr_cells (op_data op))[unat (handle_index h) := None]\<rparr>"
  show ?thesis
  proof (cases "u32_add Checked (gid_generation (handle_gid h)) 1")
    case (Inl e)
    then have "e = ArithOverflow" by (auto simp: u32_add_def split: if_splits)
    with gen_alloc_free_overflow [OF ga live Inl] show ?thesis
      by (simp add: object_pool_despawn_def)
  next
    case (Inr g')
    from gen_alloc_free_live [OF ga live Inr] obtain a where
      a: "gen_alloc_free Checked (handle_gid h) (op_alloc op) = Inr (True, a)" "ga_ok a"
        "ga_free a = ga_free (op_alloc op) @ [handle_index h]" "ga_cap a = ga_cap (op_alloc op)"
        "ga_generation a = ga_generation (op_alloc op)\<lparr>arr_cells :=
          (arr_cells (ga_generation (op_alloc op)))[unat (gid_index (handle_gid h)) := g']\<rparr>"
      by auto
    then have sets: "ga_live a = ga_live (op_alloc op) - {handle_gid h}"
      "ga_dead a = insert (handle_gid h) (ga_dead (op_alloc op))"
      using ga_release_sets [OF ga live Inr] by simp_all
    let ?op' = "op\<lparr>op_data := ?data, op_alloc := a\<rparr>"
    have cell: "op_cell ?op' j = (if j = handle_index h then None else op_cell op j)" for j
      using op_cell_update [OF arr, of "handle_index h" ?op'] index by simp
    have "object_pool_despawn Checked h op = Inr (True, ?op')"
      using a arr index by (simp add: object_pool_despawn_def)
    moreover have "op_ok ?op'"
      using ok a by (auto simp: op_ok_def cell op_cap_def)
    moreover have "op_map ?op' = (op_map op)(handle_gid h := None)"
    proof
      fix g
      have "gid_index g \<noteq> handle_index h" if "g \<in> ga_live (op_alloc op)" "g \<noteq> handle_gid h"
        using ga_slot_inj [OF that(1) live] that(2) by (auto simp: ga_slot_def)
      with sets show "op_map ?op' g = ((op_map op)(handle_gid h := None)) g"
        by (simp add: op_map_def cell)
    qed
    ultimately show ?thesis
      using sets a by (auto simp: op_cap_def)
  qed
qed

lemma object_pool_despawn_dead:
  assumes "op_ok op" and "handle_gid h \<in> ga_dead (op_alloc op)"
  shows "object_pool_despawn Checked h op = Inr (False, op)"
  using assms ga.release_dead [of "op_alloc op" "handle_gid h"]
  by (simp add: object_pool_despawn_def op_ok_def)


section \<open>The handle contract\<close>

lemma op_live_image:
  assumes "op_ok op"
  shows "op_live ID op = handle_new ID ` ga_live (op_alloc op)"
proof (intro equalityI subsetI)
  fix h assume "h \<in> op_live ID op"
  then show "h \<in> handle_new ID ` ga_live (op_alloc op)"
    using handle_unpack [of h] by (auto simp: op_live_def image_iff) metis
next
  fix h assume "h \<in> handle_new ID ` ga_live (op_alloc op)"
  then show "h \<in> op_live ID op"
    using op_live_index(3) [OF assms] by (auto simp: op_live_def handle_pack_pool_id)
qed

lemma card_op_live:
  assumes "op_ok op"
  shows "card (op_live ID op) = card (ga_live (op_alloc op))"
proof -
  have "inj_on (handle_new ID) (ga_live (op_alloc op))"
    using op_live_index(3) [OF assms] by (intro inj_on_inverseI [where g = handle_gid]) simp
  then show ?thesis
    by (simp add: op_live_image [OF assms] card_image)
qed

interpretation op: handle_table op_ok "op_live ID" "op_dead ID" op_slot op_cap
  "object_pool_spawn ID" "object_pool_despawn Checked" op_valid for ID
proof unfold_locales
  fix s :: "'a object_pool" assume ok: "op_ok s"
  then have ga: "ga_ok (op_alloc s)" by (simp add: op_ok_def)
  show "h \<in> op_live ID s \<Longrightarrow> op_slot h < op_cap s" for h
    using op_live_index(1) [OF ok, of "handle_gid h"] by (simp add: op_live_def op_slot_def)
  show "h \<in> op_live ID s \<Longrightarrow> h' \<in> op_live ID s \<Longrightarrow> op_slot h = op_slot h' \<Longrightarrow> h = h'" for h h'
    using ga_slot_inj [of "handle_gid h" "op_alloc s" "handle_gid h'"]
    by (auto simp: op_live_def op_slot_def ga_slot_def intro: handle_eqI)
  show "op_live ID s \<inter> op_dead ID s = {}"
    using ga.live_dead [OF ga] by (auto simp: op_live_def op_dead_def)
  show "h \<in> op_live ID s \<Longrightarrow> op_valid s h = Inr True" for h
    using ga.valid_live [OF ga] by (simp add: op_live_def op_valid_def)
  show "h \<in> op_dead ID s \<Longrightarrow> op_valid s h = Inr False" for h
    using ga.valid_dead [OF ga] by (simp add: op_dead_def op_valid_def)
  show "card (op_live ID s) = op_cap s \<Longrightarrow> object_pool_spawn ID x s = Inr (None, s)" for x
    using ga_card_live [OF ga] by (intro object_pool_spawn_full ok) (simp add: card_op_live ok op_cap_def)
  show "card (op_live ID s) < op_cap s \<Longrightarrow> \<exists>h s'. object_pool_spawn ID x s = Inr (Some h, s') \<and>
      op_ok s' \<and> h \<notin> op_live ID s \<and> op_live ID s' = insert h (op_live ID s) \<and>
      op_dead ID s' = op_dead ID s \<and> op_cap s' = op_cap s" for x
  proof -
    assume "card (op_live ID s) < op_cap s"
    with ga_card_live [OF ga] obtain idx rest where "ga_free (op_alloc s) = idx # rest"
      by (cases "ga_free (op_alloc s)") (auto simp: card_op_live ok op_cap_def)
    from object_pool_spawn_room [OF ok this, of ID x] obtain gid s' where
      spawn: "object_pool_spawn ID x s = Inr (Some (handle_new ID gid), s')" "op_ok s'"
        "unat (gid_index gid) < 2 ^ 24" "gid \<notin> ga_live (op_alloc s)"
        "ga_live (op_alloc s') = insert gid (ga_live (op_alloc s))"
        "ga_dead (op_alloc s') = ga_dead (op_alloc s)" "op_cap s' = op_cap s"
      by blast
    then have "op_live ID s' = insert (handle_new ID gid) (op_live ID s)"
      by (simp add: op_live_image ok)
    with spawn show ?thesis
      by (intro exI [of _ "handle_new ID gid"] exI [of _ s']) (auto simp: op_live_def op_dead_def)
  qed
  show "object_pool_despawn Checked h s = Inl ArithOverflow \<or>
      (\<exists>s'. object_pool_despawn Checked h s = Inr (True, s') \<and> op_ok s' \<and>
        op_live ID s' = op_live ID s - {h} \<and> op_dead ID s' = insert h (op_dead ID s) \<and>
        op_cap s' = op_cap s)" if live: "h \<in> op_live ID s" for h
  proof -
    have gid: "handle_gid h \<in> ga_live (op_alloc s)" and id: "handle_pool_id h = ID"
      using live by (simp_all add: op_live_def)
    from object_pool_despawn_live [OF ok gid] show ?thesis
    proof (elim disjE exE)
      fix s' assume s': "object_pool_despawn Checked h s = Inr (True, s') \<and> op_ok s' \<and>
        ga_live (op_alloc s') = ga_live (op_alloc s) - {handle_gid h} \<and>
        ga_dead (op_alloc s') = insert (handle_gid h) (ga_dead (op_alloc s)) \<and>
        op_cap s' = op_cap s \<and> op_map s' = (op_map s)(handle_gid h := None)"
      moreover from this id have "op_live ID s' = op_live ID s - {h}"
        "op_dead ID s' = insert h (op_dead ID s)"
        by (auto simp: op_live_def op_dead_def intro: handle_eqI)
      ultimately show ?thesis by auto
    qed simp
  qed
  show "h \<in> op_dead ID s \<Longrightarrow> object_pool_despawn Checked h s = Inr (False, s)" for h
    by (rule object_pool_despawn_dead [OF ok]) (simp add: op_dead_def)
qed

end
