(* ===== verification/Aligned_Buffers.thy ===== *)
theory Aligned_Buffers
  imports Memory
begin

text \<open>
  \<open>AlignedBuffers\<close> of \<open>hoarder-collections/src/alloc.rs\<close>: \<open>count\<close> buffers of \<open>buf_size\<close> bytes in one
  aligned allocation. The argument \<open>raw\<close> of \<open>aligned_new\<close> is the address the global allocator
  returns, \<open>0\<close> for null; \<open>alloc_contract\<close> is what its documentation promises about it.
\<close>

record aligned_buffers =
  ab_ptr :: addr
  ab_buf_size :: usize
  ab_count :: usize
  ab_alignment :: usize
  ab_total_size :: usize

definition aligned_new :: "addr \<Rightarrow> usize \<Rightarrow> usize \<Rightarrow> usize \<Rightarrow> aligned_buffers result outcome" where
  "aligned_new raw count buf_size alignment =
     (let total = checked_mul count buf_size in
      andThen (rust_assert (total \<noteq> None)) (\<lambda>_.
      andThen (rust_assert (is_power_of_two alignment)) (\<lambda>_.
      andThen (usize_rem buf_size alignment) (\<lambda>r.
      andThen (rust_assert (r = 0)) (\<lambda>_.
      andThen (unwrap_unchecked total) (\<lambda>total.
      andThen (from_size_align_unchecked total alignment) (\<lambda>l.
      andThen (raw_alloc (\<lambda>_. if raw = 0 then None else Some raw) l) (\<lambda>p.
      Inr (case p of
             None \<Rightarrow> Inl MemAllocFail
           | Some ptr \<Rightarrow> Inr \<lparr>ab_ptr = ptr, ab_buf_size = buf_size, ab_count = count,
               ab_alignment = alignment, ab_total_size = total\<rparr>)))))))))"

text \<open>\<open>ptr.add(off)\<close>: the offset must stay inside the allocation (or one past its end).\<close>

definition ptr_add :: "aligned_buffers \<Rightarrow> usize \<Rightarrow> addr outcome" where
  "ptr_add ab off =
     (if off \<le> ab_total_size ab then Inr (ab_ptr ab + off) else Inl UndefinedBehaviour)"

definition buf_ptr :: "aligned_buffers \<Rightarrow> usize \<Rightarrow> addr outcome" where
  "buf_ptr ab index =
     andThen (rust_assert (index < ab_count ab)) (\<lambda>_. ptr_add ab (index * ab_buf_size ab))"

definition buf_ptr_mut :: "aligned_buffers \<Rightarrow> usize \<Rightarrow> addr outcome" where
  "buf_ptr_mut ab index =
     andThen (rust_assert (index < ab_count ab)) (\<lambda>_. ptr_add ab (index * ab_buf_size ab))"

text \<open>\<open>slice::from_raw_parts\<close>: the whole range must lie in the allocation.\<close>

definition slice_from_raw :: "aligned_buffers \<Rightarrow> addr \<Rightarrow> usize \<Rightarrow> slice outcome" where
  "slice_from_raw ab p len =
     (if ab_ptr ab \<le> p \<and> p + len \<le> ab_ptr ab + ab_total_size ab
      then Inr \<lparr>sl_ptr = p, sl_len = len\<rparr> else Inl UndefinedBehaviour)"

text \<open>The layout the destructor hands to \<open>dealloc\<close>.\<close>

definition aligned_drop :: "aligned_buffers \<Rightarrow> (addr \<times> layout) outcome" where
  "aligned_drop ab =
     andThen (from_size_align_unchecked (ab_total_size ab) (ab_alignment ab)) (\<lambda>l.
     Inr (ab_ptr ab, l))"

lemmas aligned_defs [run_defs] = aligned_new_def ptr_add_def buf_ptr_def buf_ptr_mut_def
  slice_from_raw_def aligned_drop_def


section \<open>Well-formed buffers\<close>

text \<open>The contract of \<open>GlobalAlloc::alloc\<close> for the address it returned.\<close>

definition alloc_contract :: "addr \<Rightarrow> layout \<Rightarrow> bool" where
  "alloc_contract raw l \<longleftrightarrow>
     raw \<noteq> 0 \<longrightarrow> lay_align l dvd raw \<and> raw + lay_size l \<le> usize_limit"

definition aligned_ok :: "aligned_buffers \<Rightarrow> bool" where
  "aligned_ok ab \<longleftrightarrow>
     ab_total_size ab = ab_count ab * ab_buf_size ab \<and> 0 < ab_total_size ab \<and>
     layout_valid \<lparr>lay_size = ab_total_size ab, lay_align = ab_alignment ab\<rparr> \<and>
     ab_alignment ab dvd ab_buf_size ab \<and> ab_alignment ab dvd ab_ptr ab \<and> ab_ptr ab \<noteq> 0 \<and>
     ab_ptr ab + ab_total_size ab \<le> usize_limit"

lemma aligned_new_ok:
  assumes new: "aligned_new raw count buf_size alignment = Inr (Inr ab)"
    and contract: "alloc_contract raw \<lparr>lay_size = count * buf_size, lay_align = alignment\<rparr>"
  shows "aligned_ok ab \<and> ab_ptr ab = raw \<and> ab_count ab = count \<and> ab_buf_size ab = buf_size"
  using assms
  by (auto simp: aligned_new_def Let_def outcome_simps checked_mul_def raw_alloc_def
      from_size_align_unchecked_def aligned_ok_def alloc_contract_def mod_eq_0_iff_dvd
      split: if_splits option.splits)

text \<open>The range of buffer \<open>i\<close>.\<close>

definition buf_slice :: "aligned_buffers \<Rightarrow> usize \<Rightarrow> slice" where
  "buf_slice ab i = \<lparr>sl_ptr = ab_ptr ab + i * ab_buf_size ab, sl_len = ab_buf_size ab\<rparr>"

lemma buf_end_le_total:
  assumes "aligned_ok ab" and "i < ab_count ab"
  shows "i * ab_buf_size ab + ab_buf_size ab \<le> ab_total_size ab"
proof -
  have "Suc i * ab_buf_size ab \<le> ab_count ab * ab_buf_size ab"
    using assms(2) by (intro mult_le_mono1) simp
  with assms(1) show ?thesis by (simp add: aligned_ok_def)
qed

lemma buf_ptr_in:
  assumes "aligned_ok ab" and "i < ab_count ab"
  shows "buf_ptr ab i = Inr (sl_ptr (buf_slice ab i)) \<and>
    buf_ptr_mut ab i = Inr (sl_ptr (buf_slice ab i))"
  using buf_end_le_total [OF assms] assms(2)
  by (simp add: buf_ptr_def buf_ptr_mut_def ptr_add_def buf_slice_def)

lemma slice_from_raw_in:
  assumes "aligned_ok ab" and "i < ab_count ab"
  shows "slice_from_raw ab (sl_ptr (buf_slice ab i)) (ab_buf_size ab) = Inr (buf_slice ab i)"
  using buf_end_le_total [OF assms] by (simp add: slice_from_raw_def buf_slice_def)

lemma buf_slice_aligned:
  "aligned_ok ab \<Longrightarrow> ab_alignment ab dvd sl_ptr (buf_slice ab i)"
  by (simp add: aligned_ok_def buf_slice_def)

lemma buf_slice_inside:
  assumes "aligned_ok ab" and "i < ab_count ab"
  shows "slice_range (buf_slice ab i) \<subseteq> {ab_ptr ab ..< ab_ptr ab + ab_total_size ab}"
  using buf_end_le_total [OF assms] by (auto simp: slice_range_def buf_slice_def)

lemma buf_slice_disjoint:
  assumes "i \<noteq> j"
  shows "slice_range (buf_slice ab i) \<inter> slice_range (buf_slice ab j) = {}"
proof -
  have apart: "slice_range (buf_slice ab k) \<inter> slice_range (buf_slice ab l) = {}" if "k < l" for k l
  proof -
    have "Suc k * ab_buf_size ab \<le> l * ab_buf_size ab"
      using that by (intro mult_le_mono1) simp
    then show ?thesis by (auto simp: slice_range_def buf_slice_def)
  qed
  show ?thesis
    using assms apart [of i j] apart [of j i] by (cases "i < j") auto
qed

end
