(* ===== verification/Buffer_Pool.thy ===== *)
theory Buffer_Pool
  imports Aligned_Buffers Gen_Alloc
begin

text \<open>
  \<open>BufferHandle\<close> and \<open>BufferPool\<close> of \<open>hoarder-collections/src/alloc.rs\<close>: fixed-size byte buffers
  behind generational handles. The const generics \<open>BUF_SIZE\<close> and \<open>ALIGN\<close> are arguments of the
  operations that use them. The references \<open>get\<close> and \<open>get_mut\<close> return are slices of the byte memory.
\<close>

datatype buffer_handle = BufferHandle (bh_gid: gen_id)

record buffer_pool =
  bp_pool :: aligned_buffers
  bp_alloc :: gen_alloc

definition buffer_pool_new ::
  "(layout \<Rightarrow> bool) \<Rightarrow> addr \<Rightarrow> usize \<Rightarrow> usize \<Rightarrow> u32 \<Rightarrow> buffer_pool outcome" where
  "buffer_pool_new oom raw BUF_SIZE ALIGN count =
     andThen (aligned_new raw (unat count) BUF_SIZE ALIGN) (\<lambda>r.
     andThen (unwrap_result r) (\<lambda>pool.
     andThen (gen_alloc_new oom count 0) (\<lambda>alloc.
     Inr \<lparr>bp_pool = pool, bp_alloc = alloc\<rparr>)))"

definition buffer_pool_alloc :: "buffer_pool \<Rightarrow> (buffer_handle option \<times> buffer_pool) outcome" where
  "buffer_pool_alloc bp =
     andThen (gen_alloc_alloc (bp_alloc bp)) (\<lambda>(r, alloc).
     Inr (map_option BufferHandle r, bp\<lparr>bp_alloc := alloc\<rparr>))"

definition buffer_pool_get ::
  "usize \<Rightarrow> buffer_pool \<Rightarrow> buffer_handle \<Rightarrow> slice option outcome" where
  "buffer_pool_get BUF_SIZE bp h =
     andThen (gen_alloc_is_valid (bp_alloc bp) (bh_gid h)) (\<lambda>v.
     if v then
       andThen (buf_ptr (bp_pool bp) (unat (gid_index (bh_gid h)))) (\<lambda>p.
       andThen (slice_from_raw (bp_pool bp) p BUF_SIZE) (\<lambda>s. Inr (Some s)))
     else Inr None)"

definition buffer_pool_get_mut ::
  "usize \<Rightarrow> buffer_pool \<Rightarrow> buffer_handle \<Rightarrow> slice option outcome" where
  "buffer_pool_get_mut BUF_SIZE bp h =
     andThen (gen_alloc_is_valid (bp_alloc bp) (bh_gid h)) (\<lambda>v.
     if v then
       andThen (buf_ptr_mut (bp_pool bp) (unat (gid_index (bh_gid h)))) (\<lambda>p.
       andThen (slice_from_raw (bp_pool bp) p BUF_SIZE) (\<lambda>s. Inr (Some s)))
     else Inr None)"

definition buffer_pool_free ::
  "profile \<Rightarrow> buffer_handle \<Rightarrow> buffer_pool \<Rightarrow> (bool \<times> buffer_pool) outcome" where
  "buffer_pool_free pr h bp =
     andThen (gen_alloc_free pr (bh_gid h) (bp_alloc bp)) (\<lambda>(b, alloc).
     Inr (b, bp\<lparr>bp_alloc := alloc\<rparr>))"

lemmas buffer_pool_defs [run_defs] = buffer_pool_new_def buffer_pool_alloc_def buffer_pool_get_def
  buffer_pool_get_mut_def buffer_pool_free_def


section \<open>Invariant and handles\<close>

definition bp_ok :: "usize \<Rightarrow> buffer_pool \<Rightarrow> bool" where
  "bp_ok BUF_SIZE bp \<longleftrightarrow>
     aligned_ok (bp_pool bp) \<and> ab_buf_size (bp_pool bp) = BUF_SIZE \<and> ga_ok (bp_alloc bp) \<and>
     ab_count (bp_pool bp) = ga_cap (bp_alloc bp)"

definition bp_live :: "buffer_pool \<Rightarrow> buffer_handle set" where
  "bp_live bp = BufferHandle ` ga_live (bp_alloc bp)"

definition bp_dead :: "buffer_pool \<Rightarrow> buffer_handle set" where
  "bp_dead bp = BufferHandle ` ga_dead (bp_alloc bp)"

definition bp_slot :: "buffer_handle \<Rightarrow> nat" where
  "bp_slot h = ga_slot (bh_gid h)"

definition bp_cap :: "buffer_pool \<Rightarrow> nat" where
  "bp_cap bp = ga_cap (bp_alloc bp)"

definition bp_valid :: "buffer_pool \<Rightarrow> buffer_handle \<Rightarrow> bool outcome" where
  "bp_valid bp h = gen_alloc_is_valid (bp_alloc bp) (bh_gid h)"

lemmas bp_abs_defs = bp_ok_def bp_live_def bp_dead_def bp_slot_def bp_cap_def bp_valid_def

lemma bp_live_iff: "h \<in> bp_live bp \<longleftrightarrow> bh_gid h \<in> ga_live (bp_alloc bp)"
  by (cases h) (auto simp: bp_live_def)

lemma bp_dead_iff: "h \<in> bp_dead bp \<longleftrightarrow> bh_gid h \<in> ga_dead (bp_alloc bp)"
  by (cases h) (auto simp: bp_dead_def)

lemma card_bp_live: "card (bp_live bp) = card (ga_live (bp_alloc bp))"
  by (simp add: bp_live_def card_image inj_on_def)

lemma buffer_pool_new_ok:
  assumes "buffer_pool_new oom raw BUF_SIZE ALIGN count = Inr bp"
    and "alloc_contract raw \<lparr>lay_size = unat count * BUF_SIZE, lay_align = ALIGN\<rparr>"
  shows "bp_ok BUF_SIZE bp \<and> bp_live bp = {} \<and> bp_dead bp = {} \<and> bp_cap bp = unat count"
proof -
  from assms(1) obtain pool alloc where
    pool: "aligned_new raw (unat count) BUF_SIZE ALIGN = Inr (Inr pool)"
    and alloc: "gen_alloc_new oom count 0 = Inr alloc"
    and bp: "bp = \<lparr>bp_pool = pool, bp_alloc = alloc\<rparr>"
    by (auto simp: buffer_pool_new_def outcome_simps)
  from aligned_new_ok [OF pool assms(2)] gen_alloc_new_ok [OF alloc] show ?thesis
    by (simp add: bp bp_abs_defs)
qed

interpretation bp: handle_table "bp_ok BUF_SIZE" bp_live bp_dead bp_slot bp_cap
  "\<lambda>_::unit. buffer_pool_alloc" "buffer_pool_free Checked" bp_valid for BUF_SIZE
proof unfold_locales
  fix s assume "bp_ok BUF_SIZE s"
  then have ok: "ga_ok (bp_alloc s)" and bp: "bp_ok BUF_SIZE s" by (simp_all add: bp_ok_def)
  note lifted = bp_live_iff bp_dead_iff card_bp_live bp_slot_def bp_cap_def bp_valid_def
  show "h \<in> bp_live s \<Longrightarrow> bp_slot h < bp_cap s" for h
    using ga.live_slot [OF ok] by (simp add: lifted)
  show "h \<in> bp_live s \<Longrightarrow> h' \<in> bp_live s \<Longrightarrow> bp_slot h = bp_slot h' \<Longrightarrow> h = h'" for h h'
    using ga.slot_inj [OF ok] by (simp add: lifted) (metis buffer_handle.expand)
  show "bp_live s \<inter> bp_dead s = {}"
    using ga.live_dead [OF ok] by (auto simp: lifted)
  show "h \<in> bp_live s \<Longrightarrow> bp_valid s h = Inr True" for h
    using ga.valid_live [OF ok] by (simp add: lifted)
  show "h \<in> bp_dead s \<Longrightarrow> bp_valid s h = Inr False" for h
    using ga.valid_dead [OF ok] by (simp add: lifted)
  show "card (bp_live s) = bp_cap s \<Longrightarrow> buffer_pool_alloc s = Inr (None, s)"
    using ga.acquire_full [OF ok] by (simp add: lifted buffer_pool_alloc_def)
  show "card (bp_live s) < bp_cap s \<Longrightarrow> \<exists>h s'. buffer_pool_alloc s = Inr (Some h, s') \<and>
      bp_ok BUF_SIZE s' \<and> h \<notin> bp_live s \<and> bp_live s' = insert h (bp_live s) \<and>
      bp_dead s' = bp_dead s \<and> bp_cap s' = bp_cap s"
  proof -
    assume "card (bp_live s) < bp_cap s"
    with ga.acquire_room [OF ok] obtain g a where
      "gen_alloc_alloc (bp_alloc s) = Inr (Some g, a)" "ga_ok a" "g \<notin> ga_live (bp_alloc s)"
      "ga_live a = insert g (ga_live (bp_alloc s))" "ga_dead a = ga_dead (bp_alloc s)"
      "ga_cap a = ga_cap (bp_alloc s)"
      by (auto simp: lifted)
    with bp show ?thesis
      by (intro exI [of _ "BufferHandle g"] exI [of _ "s\<lparr>bp_alloc := a\<rparr>"])
        (auto simp: buffer_pool_alloc_def bp_abs_defs)
  qed
  show "buffer_pool_free Checked h s = Inl ArithOverflow \<or>
      (\<exists>s'. buffer_pool_free Checked h s = Inr (True, s') \<and> bp_ok BUF_SIZE s' \<and>
        bp_live s' = bp_live s - {h} \<and> bp_dead s' = insert h (bp_dead s) \<and> bp_cap s' = bp_cap s)"
    if live: "h \<in> bp_live s" for h
  proof -
    have g: "bh_gid h \<in> ga_live (bp_alloc s)" using live by (simp add: lifted)
    from ga.release_live [OF ok g] show ?thesis
    proof (elim disjE exE)
      fix a assume "gen_alloc_free Checked (bh_gid h) (bp_alloc s) = Inr (True, a) \<and> ga_ok a \<and>
        ga_live a = ga_live (bp_alloc s) - {bh_gid h} \<and>
        ga_dead a = insert (bh_gid h) (ga_dead (bp_alloc s)) \<and> ga_cap a = ga_cap (bp_alloc s)"
      with bp show ?thesis
        by (intro disjI2 exI [of _ "s\<lparr>bp_alloc := a\<rparr>"])
          (auto simp: buffer_pool_free_def bp_abs_defs)
    qed (simp add: buffer_pool_free_def)
  qed
  show "h \<in> bp_dead s \<Longrightarrow> buffer_pool_free Checked h s = Inr (False, s)" for h
    using ga.release_dead [OF ok] by (simp add: lifted buffer_pool_free_def)
qed


section \<open>The slices\<close>

text \<open>The bytes a live handle stands for.\<close>

definition bp_slice :: "buffer_pool \<Rightarrow> buffer_handle \<Rightarrow> slice" where
  "bp_slice bp h = buf_slice (bp_pool bp) (unat (gid_index (bh_gid h)))"

lemma buffer_pool_get_valid:
  assumes ok: "bp_ok BUF_SIZE bp" and valid: "bp_valid bp h = Inr True"
  shows "buffer_pool_get BUF_SIZE bp h = Inr (Some (bp_slice bp h)) \<and>
    buffer_pool_get_mut BUF_SIZE bp h = Inr (Some (bp_slice bp h))"
proof -
  let ?i = "unat (gid_index (bh_gid h))"
  have i: "?i < ab_count (bp_pool bp)"
    using assms by (simp add: bp_ok_def bp_valid_def gen_alloc_is_valid_eq)
  have ab: "aligned_ok (bp_pool bp)" and size: "ab_buf_size (bp_pool bp) = BUF_SIZE"
    using ok by (simp_all add: bp_ok_def)
  show ?thesis
    using valid buf_ptr_in [OF ab i] slice_from_raw_in [OF ab i]
    by (simp add: buffer_pool_get_def buffer_pool_get_mut_def bp_valid_def bp_slice_def size)
qed

lemma buffer_pool_get_invalid:
  "bp_valid bp h = Inr False \<Longrightarrow>
     buffer_pool_get BUF_SIZE bp h = Inr None \<and> buffer_pool_get_mut BUF_SIZE bp h = Inr None"
  by (simp add: buffer_pool_get_def buffer_pool_get_mut_def bp_valid_def)

lemma bp_slice_len:
  "bp_ok BUF_SIZE bp \<Longrightarrow> sl_len (bp_slice bp h) = BUF_SIZE"
  by (simp add: bp_slice_def buf_slice_def bp_ok_def)

lemma bp_slices_disjoint:
  assumes "bp_ok BUF_SIZE bp" and "h \<in> bp_live bp" and "h' \<in> bp_live bp" and "h \<noteq> h'"
  shows "slice_range (bp_slice bp h) \<inter> slice_range (bp_slice bp h') = {}"
  using bp.slot_inj [OF assms(1-3)] assms(4)
  by (auto simp: bp_slice_def bp_slot_def ga_slot_def intro!: buf_slice_disjoint)

lemma bp_slice_inside:
  assumes "bp_ok BUF_SIZE bp" and "h \<in> bp_live bp"
  shows "slice_range (bp_slice bp h) \<subseteq>
    {ab_ptr (bp_pool bp) ..< ab_ptr (bp_pool bp) + ab_total_size (bp_pool bp)}"
  using bp.live_slot [OF assms] assms(1)
  by (auto simp: bp_slice_def bp_slot_def ga_slot_def bp_cap_def bp_ok_def
      dest: buf_slice_inside [THEN subsetD])

text \<open>The pool's memory never moves: the operations keep every slice.\<close>

lemma bp_slice_alloc: "buffer_pool_alloc bp = Inr (r, bp') \<Longrightarrow> bp_pool bp' = bp_pool bp"
  by (auto simp: buffer_pool_alloc_def outcome_simps)

lemma bp_slice_free: "buffer_pool_free pr h bp = Inr (r, bp') \<Longrightarrow> bp_pool bp' = bp_pool bp"
  by (auto simp: buffer_pool_free_def outcome_simps)

end
