(* ===== verification/Protocol.thy ===== *)
theory Protocol
  imports Buffer_Pool
begin

text \<open>
  The protocols of \<open>hoarder-blob/src/protocol/mod.rs\<close>: the events the executor sends to a state
  machine, the intents a machine hands back, the context it hands them back in, and the message
  headers of the network protocol with their packed, little-endian byte layout.
\<close>

section \<open>Executor protocol\<close>

text \<open>The descriptor newtypes of \<open>io_uring::types\<close>.\<close>

datatype fixed = Fixed u32
datatype fd = Fd i32

datatype machine_event = Spawn | IoCompleted i32 u32

datatype machine_intent =
    Retry
  | Terminate
  | CloseFixed fixed
  | SpawnConnHandler fixed
  | SubmitMultishotAccept fd
  | SubmitRecv fixed buffer_handle u16

text \<open>The default const generics of \<open>BufferPool\<close>, which the executor uses.\<close>

abbreviation POOL_BUF_SIZE :: usize where "POOL_BUF_SIZE \<equiv> 0x1000"
abbreviation POOL_ALIGN :: usize where "POOL_ALIGN \<equiv> 0x1000"

record exec_ctx =
  ctx_intents :: "machine_intent option list"
  ctx_len :: usize
  ctx_buffers :: buffer_pool

definition submit_intent :: "machine_intent \<Rightarrow> exec_ctx \<Rightarrow> exec_ctx outcome" where
  "submit_intent intent ctx =
     andThen (rust_assert (ctx_len ctx < length (ctx_intents ctx))) (\<lambda>_.
     Inr (ctx\<lparr>ctx_intents := (ctx_intents ctx)[ctx_len ctx := Some intent],
              ctx_len := ctx_len ctx + 1\<rparr>))"

text \<open>The intents handed back so far, oldest first.\<close>

definition ctx_submitted :: "exec_ctx \<Rightarrow> machine_intent option list" where
  "ctx_submitted ctx = take (ctx_len ctx) (ctx_intents ctx)"

lemma submit_intent_Inr [outcome_simps]:
  "submit_intent i ctx = Inr ctx' \<longleftrightarrow>
     ctx_len ctx < length (ctx_intents ctx) \<and>
     ctx' = ctx\<lparr>ctx_intents := (ctx_intents ctx)[ctx_len ctx := Some i], ctx_len := ctx_len ctx + 1\<rparr>"
  by (auto simp: submit_intent_def outcome_simps)

lemma submit_intent_room:
  "ctx_len ctx < length (ctx_intents ctx) \<Longrightarrow>
     \<exists>ctx'. submit_intent i ctx = Inr ctx' \<and> ctx_submitted ctx' = ctx_submitted ctx @ [Some i] \<and>
       length (ctx_intents ctx') = length (ctx_intents ctx) \<and> ctx_len ctx' = ctx_len ctx + 1 \<and>
       ctx_buffers ctx' = ctx_buffers ctx"
  by (auto simp: submit_intent_def ctx_submitted_def take_Suc_conv_app_nth)


section \<open>Network protocol\<close>

record msg_header =
  mh_magic :: u32
  mh_cmd :: u8

record msg_header_long =
  mhl_header :: msg_header
  mhl_key :: "128 word"
  mhl_crc :: u32
  mhl_len :: u32

abbreviation MSG_HEADER_SIZE :: usize where "MSG_HEADER_SIZE \<equiv> 5"

text \<open>
  \<open>as_bytes\<close> and \<open>read_from_bytes\<close> of the packed struct: four bytes of \<open>magic\<close>, least significant
  first, then \<open>cmd\<close>. Reading fails unless the input has exactly the size of the struct.
\<close>

definition msg_header_bytes :: "msg_header \<Rightarrow> u8 list" where
  "msg_header_bytes h =
     [ucast (mh_magic h), ucast (drop_bit 8 (mh_magic h)), ucast (drop_bit 16 (mh_magic h)),
      ucast (drop_bit 24 (mh_magic h)), mh_cmd h]"

fun msg_header_read :: "u8 list \<Rightarrow> msg_header option" where
  "msg_header_read [b0, b1, b2, b3, c] =
     Some \<lparr>mh_magic = ucast b0 OR push_bit 8 (ucast b1) OR push_bit 16 (ucast b2) OR
             push_bit 24 (ucast b3), mh_cmd = c\<rparr>"
| "msg_header_read _ = None"

lemma msg_header_read_iff: "msg_header_read bs \<noteq> None \<longleftrightarrow> length bs = MSG_HEADER_SIZE"
  by (cases bs rule: msg_header_read.cases) auto

lemma magic_join_split:
  fixes m :: u32
  shows "ucast (ucast m :: u8) OR push_bit 8 (ucast (ucast (drop_bit 8 m) :: u8)) OR
    push_bit 16 (ucast (ucast (drop_bit 16 m) :: u8)) OR
    push_bit 24 (ucast (ucast (drop_bit 24 m) :: u8)) = m"
proof (rule bit_word_eqI)
  fix n assume "n < LENGTH(32)"
  then consider "n < 8" | "8 \<le> n" "n < 16" | "16 \<le> n" "n < 24" | "24 \<le> n" "n < 32"
    by fastforce
  then show "bit (ucast (ucast m :: u8) OR push_bit 8 (ucast (ucast (drop_bit 8 m) :: u8)) OR
      push_bit 16 (ucast (ucast (drop_bit 16 m) :: u8)) OR
      push_bit 24 (ucast (ucast (drop_bit 24 m) :: u8)) :: u32) n = bit m n"
    by cases (auto simp: bit_simps)
qed

lemma byte_of_join:
  fixes b0 b1 b2 b3 :: u8
  defines "m \<equiv> (ucast b0 OR push_bit 8 (ucast b1) OR push_bit 16 (ucast b2) OR
    push_bit 24 (ucast b3) :: u32)"
  shows "ucast m = b0" "ucast (drop_bit 8 m) = b1" "ucast (drop_bit 16 m) = b2"
    "ucast (drop_bit 24 m) = b3"
  unfolding m_def
  by (rule bit_word_eqI; auto simp: bit_simps dest: bit_imp_le_length)+

lemma msg_header_bytes_read:
  assumes "msg_header_read bs = Some h"
  shows "msg_header_bytes h = bs"
proof -
  from assms obtain b0 b1 b2 b3 c where bs: "bs = [b0, b1, b2, b3, c]"
    by (cases bs rule: msg_header_read.cases) auto
  from assms have h: "h = \<lparr>mh_magic = ucast b0 OR push_bit 8 (ucast b1) OR push_bit 16 (ucast b2) OR
      push_bit 24 (ucast b3), mh_cmd = c\<rparr>"
    by (simp add: bs)
  show ?thesis
    unfolding bs h msg_header_bytes_def by (simp only: msg_header.simps byte_of_join)
qed

end
