(* ===== verification/Machine_Interface.thy ===== *)
theory Machine_Interface
  imports Protocol
begin

text \<open>
  The contract between the executor and the state machines it drives. A machine owns some of the
  pool's live buffers; processing an event hands back at most two intents, keeps the pool and the
  machine well formed, and touches no buffer another machine owns. From the contract: a population
  of machines, each in its own slot, always shares out the live buffers with no overlap and no leak.
\<close>

section \<open>Intents handed back\<close>

text \<open>\<open>emits new ctx ctx'\<close>: from \<open>ctx\<close> to \<open>ctx'\<close> exactly the intents \<open>new\<close> were added.\<close>

definition emits :: "machine_intent list \<Rightarrow> exec_ctx \<Rightarrow> exec_ctx \<Rightarrow> bool" where
  "emits new ctx ctx' \<longleftrightarrow>
     ctx_submitted ctx' = ctx_submitted ctx @ map Some new \<and>
     length (ctx_intents ctx') = length (ctx_intents ctx) \<and>
     ctx_len ctx' = ctx_len ctx + length new"

lemma emits_Nil [simp]: "emits [] ctx ctx"
  by (simp add: emits_def)

lemma emits_trans: "emits xs a b \<Longrightarrow> emits ys b c \<Longrightarrow> emits (xs @ ys) a c"
  by (simp add: emits_def)

lemma emits_unique: "emits xs a b \<Longrightarrow> emits ys a b \<Longrightarrow> xs = ys"
  by (simp add: emits_def inj_map_eq_map)

lemma emits_buffers_left [simp]: "emits xs (a\<lparr>ctx_buffers := b\<rparr>) c \<longleftrightarrow> emits xs a c"
  by (simp add: emits_def ctx_submitted_def)

lemma emits_buffers_right [simp]: "emits xs a (c\<lparr>ctx_buffers := b\<rparr>) \<longleftrightarrow> emits xs a c"
  by (simp add: emits_def ctx_submitted_def)

lemma submit_emits:
  "submit_intent i ctx = Inr ctx' \<Longrightarrow> emits [i] ctx ctx' \<and> ctx_buffers ctx' = ctx_buffers ctx"
  by (auto simp: submit_intent_Inr emits_def ctx_submitted_def take_Suc_conv_app_nth)

lemma submit_room_emits:
  assumes "ctx_len ctx < length (ctx_intents ctx)"
  obtains ctx' where "submit_intent i ctx = Inr ctx'" "emits [i] ctx ctx'"
    "ctx_buffers ctx' = ctx_buffers ctx" "ctx_len ctx' = ctx_len ctx + 1"
    "length (ctx_intents ctx') = length (ctx_intents ctx)"
  using submit_intent_room [OF assms, of i] that by (auto simp: emits_def)


section \<open>The contract\<close>

locale event_machine =
  fixes step :: "'m \<Rightarrow> exec_ctx \<Rightarrow> 'm \<Rightarrow> exec_ctx \<Rightarrow> bool"
    and ok :: "buffer_pool \<Rightarrow> 'm \<Rightarrow> bool"
    and owned :: "'m \<Rightarrow> buffer_handle set"
  assumes owned_live: "ok b m \<Longrightarrow> owned m \<subseteq> bp_live b"
    and ok_frame: "ok b m \<Longrightarrow> owned m \<subseteq> bp_live b' \<Longrightarrow> bp_dead b \<subseteq> bp_dead b' \<Longrightarrow> ok b' m"
    and step_emits: "step m ctx m' ctx' \<Longrightarrow> \<exists>new. emits new ctx ctx' \<and> length new \<le> 2"
    and step_pool: "bp_ok POOL_BUF_SIZE (ctx_buffers ctx) \<Longrightarrow> ok (ctx_buffers ctx) m \<Longrightarrow>
      step m ctx m' ctx' \<Longrightarrow> bp_ok POOL_BUF_SIZE (ctx_buffers ctx') \<and> ok (ctx_buffers ctx') m' \<and>
        bp_live (ctx_buffers ctx') = (bp_live (ctx_buffers ctx) - owned m) \<union> owned m' \<and>
        owned m' \<inter> (bp_live (ctx_buffers ctx) - owned m) = {} \<and>
        bp_dead (ctx_buffers ctx) \<subseteq> bp_dead (ctx_buffers ctx') \<and>
        bp_pool (ctx_buffers ctx') = bp_pool (ctx_buffers ctx)"
begin

text \<open>
  The machines \<open>M\<close>, with the buffers \<open>F\<close> held outside of them, share out the live buffers of the
  pool.
\<close>

definition shares :: "buffer_handle set \<Rightarrow> buffer_pool \<Rightarrow> ('k \<rightharpoonup> 'm) \<Rightarrow> bool" where
  "shares F b M \<longleftrightarrow>
     bp_ok POOL_BUF_SIZE b \<and> (\<forall>k m. M k = Some m \<longrightarrow> ok b m) \<and>
     (\<forall>k l m n. M k = Some m \<longrightarrow> M l = Some n \<longrightarrow> k \<noteq> l \<longrightarrow> owned m \<inter> owned n = {}) \<and>
     (\<forall>k m. M k = Some m \<longrightarrow> F \<inter> owned m = {}) \<and>
     bp_live b = F \<union> \<Union> (owned ` ran M)"

lemma shares_apart:
  assumes "shares F b M" and "M k = Some m" and "M l = Some n" and "k \<noteq> l"
  shows "owned m \<inter> owned n = {}"
  using assms(1) unfolding shares_def using assms(2-4) by metis

lemma ran_upd_Some:
  "\<Union> (owned ` ran (M(k \<mapsto> m'))) = owned m' \<union> \<Union> (owned ` ran (M(k := None)))"
  by (auto simp: ran_def split: if_splits)

lemma shares_step:
  assumes sh: "shares F (ctx_buffers ctx) M" and k: "M k = Some m" and st: "step m ctx m' ctx'"
  shows "shares F (ctx_buffers ctx') (M(k \<mapsto> m'))"
proof -
  let ?b = "ctx_buffers ctx" and ?b' = "ctx_buffers ctx'"
  let ?rest = "F \<union> \<Union> (owned ` ran (M(k := None)))"
  have apart: "M l = Some n \<Longrightarrow> l \<noteq> k \<Longrightarrow> owned n \<inter> owned m = {}" for l n
    using sh k by (auto simp: shares_def)
  have live: "bp_live ?b = ?rest \<union> owned m"
    using sh ran_upd_Some [of M k m] k by (simp add: shares_def map_upd_triv Un_ac)
  have rest: "?rest \<inter> owned m = {}"
  proof -
    have "F \<inter> owned m = {}" using sh k unfolding shares_def by blast
    moreover have "owned n \<inter> owned m = {}" if "n \<in> ran (M(k := None))" for n
    proof -
      from that obtain l where "M l = Some n" "l \<noteq> k" by (auto simp: ran_def split: if_splits)
      then show ?thesis by (rule apart)
    qed
    ultimately show ?thesis by blast
  qed
  have pool: "bp_ok POOL_BUF_SIZE ?b" "ok ?b m"
    using sh k by (auto simp: shares_def)
  note post = step_pool [OF pool st]
  then have live': "bp_live ?b' = ?rest \<union> owned m'" and fresh: "owned m' \<inter> ?rest = {}"
    using live rest by blast+
  have others: "ok ?b' n \<and> owned n \<inter> owned m' = {}" if "M l = Some n" "l \<noteq> k" for l n
  proof
    have sub: "owned n \<subseteq> ?rest" using that by (auto simp: ran_def)
    have "ok ?b n" using sh that by (auto simp: shares_def)
    then show "ok ?b' n"
      by (rule ok_frame) (use sub live' post in auto)
    show "owned n \<inter> owned m' = {}" using sub fresh by blast
  qed
  show ?thesis
    unfolding shares_def
  proof (intro conjI allI impI)
    fix l n assume "(M(k \<mapsto> m')) l = Some n"
    then show "ok ?b' n" using post others by (auto split: if_splits)
  next
    fix l j n p assume "(M(k \<mapsto> m')) l = Some n" "(M(k \<mapsto> m')) j = Some p" "l \<noteq> j"
    then show "owned n \<inter> owned p = {}"
      using others sh by (auto simp: shares_def split: if_splits)
  next
    fix l n assume "(M(k \<mapsto> m')) l = Some n"
    then show "F \<inter> owned n = {}"
      using fresh sh by (auto simp: shares_def split: if_splits)
  next
    show "bp_live ?b' = F \<union> \<Union> (owned ` ran (M(k \<mapsto> m')))"
      unfolding ran_upd_Some using live' by blast
  qed (use post in blast)
qed

lemma shares_spawn:
  assumes "shares F b M" and "M k = None" and "ok b m" and "owned m = {}"
  shows "shares F b (M(k \<mapsto> m))"
proof -
  have "\<Union> (owned ` ran (M(k \<mapsto> m))) = \<Union> (owned ` ran M)"
    using assms(2,4) by simp
  with assms show ?thesis by (auto simp: shares_def split: if_splits)
qed

lemma shares_remove:
  assumes "shares F b M" and "M k = Some m" and "owned m = {}"
  shows "shares F b (M(k := None))"
proof -
  have "\<Union> (owned ` ran (M(k := None))) = \<Union> (owned ` ran M)"
    using assms(2,3) by (auto simp: ran_def split: if_splits) (metis empty_iff option.inject)
  with assms(1) show ?thesis by (auto simp: shares_def split: if_splits)
qed

text \<open>An intent array with two free places is enough for any event.\<close>

lemma step_fits:
  assumes "step m ctx m' ctx'" and "ctx_len ctx = 0"
  shows "ctx_len ctx' \<le> 2 \<and> length (ctx_intents ctx') = length (ctx_intents ctx)"
  using step_emits [OF assms(1)] assms(2) by (auto simp: emits_def)

end

end
