(* ===== verification/Tcp_Server.thy ===== *)
theory Tcp_Server
  imports Machine_Interface Decimal
begin

text \<open>
  The listening machine, \<open>hoarder-blob/src/state_machine/tcp_server.rs\<close>. The socket calls of
  \<open>rustix::net\<close> are the operations of a record over the outside world \<open>'w\<close>; each answers an errno or
  a value. The standard library's parser of IPv4 socket addresses is modelled, since the server's
  address is one; the IPv6 half of that parser is a field of the record. An \<open>OwnedFd\<close> that goes out
  of scope is closed.
\<close>

section \<open>Socket addresses\<close>

datatype socket_addr = V4 "u8 list" u16 | V6 "u16 list" u16

text \<open>
  \<open>read_number\<close> of the standard library's parser, radix 10: the digits read, in order; \<open>None\<close> when
  there is none, too many, a leading zero that is not allowed, or a value above \<open>limit\<close>.
\<close>

definition read_number :: "nat option \<Rightarrow> bool \<Rightarrow> nat \<Rightarrow> string \<Rightarrow> (nat \<times> string) option" where
  "read_number max_digits allow_zero_prefix limit s =
     (let ds = takeWhile is_digit s; rest = dropWhile is_digit s in
      if ds = [] then None
      else if (case max_digits of None \<Rightarrow> False | Some n \<Rightarrow> n < length ds) then None
      else if \<not> allow_zero_prefix \<and> hd ds = CHR ''0'' \<and> 1 < length ds then None
      else if limit < digits_value ds then None
      else Some (digits_value ds, rest))"

fun read_char :: "char \<Rightarrow> string \<Rightarrow> string option" where
  "read_char c [] = None"
| "read_char c (x # s) = (if x = c then Some s else None)"

text \<open>Four octets separated by dots, a colon and the port, and nothing after it.\<close>

fun read_octets :: "nat \<Rightarrow> string \<Rightarrow> (u8 list \<times> string) option" where
  "read_octets 0 s = Some ([], s)"
| "read_octets (Suc n) s =
     Option.bind (read_number (Some 3) False 255 s) (\<lambda>(v, s).
     Option.bind (if n = 0 then Some s else read_char (CHR ''.'') s) (\<lambda>s.
     Option.bind (read_octets n s) (\<lambda>(vs, s). Some (of_nat v # vs, s))))"

definition socket_addr_v4 :: "string \<Rightarrow> socket_addr option" where
  "socket_addr_v4 s =
     Option.bind (read_octets 4 s) (\<lambda>(os, s).
     Option.bind (read_char (CHR '':'') s) (\<lambda>s.
     Option.bind (read_number None True 65535 s) (\<lambda>(p, s).
     if s = [] then Some (V4 os (of_nat p)) else None)))"

definition socket_addr_from_str :: "(string \<Rightarrow> socket_addr option) \<Rightarrow> string \<Rightarrow> socket_addr option" where
  "socket_addr_from_str parse_v6 s =
     (case socket_addr_v4 s of Some a \<Rightarrow> Some a | None \<Rightarrow> parse_v6 s)"


text \<open>The address the server listens on.\<close>

lemma server_address_numbers:
  "read_number (Some 3) False 255 ''0.0.0.0:3000'' = Some (0, ''.0.0.0:3000'')"
  "read_number (Some 3) False 255 ''0.0.0:3000'' = Some (0, ''.0.0:3000'')"
  "read_number (Some 3) False 255 ''0.0:3000'' = Some (0, ''.0:3000'')"
  "read_number (Some 3) False 255 ''0:3000'' = Some (0, '':3000'')"
  "read_number None True 65535 ''3000'' = Some (3000, [])"
  by (simp_all add: read_number_def is_digit_def digits_value_def)

lemma four: "4 = Suc (Suc (Suc (Suc 0)))"
  by simp

lemma server_address: "socket_addr_v4 ''0.0.0.0:3000'' = Some (V4 [0, 0, 0, 0] 3000)"
  unfolding socket_addr_v4_def four by (simp add: server_address_numbers)


section \<open>The machine\<close>

datatype address_family = INET | INET6

record 'w net_ops =
  net_parse_v6 :: "string \<Rightarrow> socket_addr option"
  net_socket :: "address_family \<Rightarrow> 'w \<Rightarrow> (i32 + i32) \<times> 'w"
  net_set_reuseaddr :: "i32 \<Rightarrow> bool \<Rightarrow> 'w \<Rightarrow> (i32 + unit) \<times> 'w"
  net_bind :: "i32 \<Rightarrow> socket_addr \<Rightarrow> 'w \<Rightarrow> (i32 + unit) \<times> 'w"
  net_listen :: "i32 \<Rightarrow> i32 \<Rightarrow> 'w \<Rightarrow> (i32 + unit) \<times> 'w"
  net_close :: "i32 \<Rightarrow> 'w \<Rightarrow> 'w"

datatype tcp_server_state = TcpInit | TcpAccepting | TcpError hoarder_error

record tcp_server =
  ts_state :: tcp_server_state
  ts_addr :: string
  ts_backlog :: u16
  ts_listener_fd :: i32

definition tcp_server_new :: "string \<Rightarrow> u16 \<Rightarrow> tcp_server" where
  "tcp_server_new addr backlog =
     \<lparr>ts_state = TcpInit, ts_addr = addr, ts_backlog = backlog, ts_listener_fd = - 1\<rparr>"

definition tcp_multishot_accept :: "tcp_server \<Rightarrow> exec_ctx \<Rightarrow> exec_ctx outcome" where
  "tcp_multishot_accept ts ctx = submit_intent (SubmitMultishotAccept (Fd (ts_listener_fd ts))) ctx"

text \<open>Every early return after \<open>socket\<close> drops the descriptor.\<close>

definition tcp_listen ::
  "'w net_ops \<Rightarrow> tcp_server \<Rightarrow> 'w \<Rightarrow> (unit result \<times> tcp_server \<times> 'w) outcome" where
  "tcp_listen net ts w =
     andThen (unwrap_option (socket_addr_from_str (net_parse_v6 net) (ts_addr ts))) (\<lambda>parsed_addr.
     let domain = (case parsed_addr of V4 _ _ \<Rightarrow> INET | V6 _ _ \<Rightarrow> INET6) in
     Inr (case net_socket net domain w of
       (Inl e, w) \<Rightarrow> (Inl (IoError e), ts, w)
     | (Inr fd, w) \<Rightarrow>
       (case net_set_reuseaddr net fd True w of
         (Inl e, w) \<Rightarrow> (Inl (IoError e), ts, net_close net fd w)
       | (Inr _, w) \<Rightarrow>
         (case net_bind net fd parsed_addr w of
           (Inl e, w) \<Rightarrow> (Inl (IoError e), ts, net_close net fd w)
         | (Inr _, w) \<Rightarrow>
           (case net_listen net fd (ucast (ts_backlog ts)) w of
             (Inl e, w) \<Rightarrow> (Inl (IoError e), ts, net_close net fd w)
           | (Inr _, w) \<Rightarrow> (Inr (), ts\<lparr>ts_listener_fd := fd\<rparr>, w))))))"

text \<open>\<open>more_io\<close> is \<open>io_uring::cqueue::more\<close>, which reads the flags of a completion.\<close>

definition tcp_process_event ::
  "'w net_ops \<Rightarrow> (u32 \<Rightarrow> bool) \<Rightarrow> tcp_server \<Rightarrow> exec_ctx \<Rightarrow> machine_event \<Rightarrow> 'w \<Rightarrow>
     (tcp_server \<times> exec_ctx \<times> 'w) outcome" where
  "tcp_process_event net more_io ts ctx event w =
     (case event of
        Spawn \<Rightarrow>
          (case ts_state ts of
             TcpInit \<Rightarrow>
               andThen (tcp_listen net ts w) (\<lambda>(r, ts, w).
               (case r of
                  Inr _ \<Rightarrow> andThen (tcp_multishot_accept ts ctx) (\<lambda>ctx.
                    Inr (ts\<lparr>ts_state := TcpAccepting\<rparr>, ctx, w))
                | Inl e \<Rightarrow> Inr (ts\<lparr>ts_state := TcpError e\<rparr>, ctx, w)))
           | _ \<Rightarrow> Inl Unreachable)
      | IoCompleted res flags \<Rightarrow>
          (case ts_state ts of
             TcpAccepting \<Rightarrow>
               if sint res < 0 then Inr (ts\<lparr>ts_state := TcpError (hoarder_error_from_i32 res)\<rparr>, ctx, w)
               else andThen (submit_intent (SpawnConnHandler (Fixed res)) ctx) (\<lambda>ctx.
                    if \<not> more_io flags
                    then andThen (tcp_multishot_accept ts ctx) (\<lambda>ctx. Inr (ts, ctx, w))
                    else Inr (ts, ctx, w))
           | TcpError _ \<Rightarrow> Inr (ts, ctx, w)
           | TcpInit \<Rightarrow> Inl Unreachable))"

lemmas tcp_defs [run_defs] = tcp_server_new_def tcp_multishot_accept_def tcp_listen_def
  tcp_process_event_def



section \<open>The machine contract\<close>

text \<open>The listener owns no buffer and never touches the pool.\<close>

definition tcp_step ::
  "'w net_ops \<Rightarrow> (u32 \<Rightarrow> bool) \<Rightarrow> tcp_server \<Rightarrow> exec_ctx \<Rightarrow> tcp_server \<Rightarrow> exec_ctx \<Rightarrow> bool" where
  "tcp_step net more_io ts ctx ts' ctx' \<longleftrightarrow>
     (\<exists>event w w'. tcp_process_event net more_io ts ctx event w = Inr (ts', ctx', w'))"

lemma tcp_process_event_emits:
  assumes "tcp_process_event net more_io ts ctx event w = Inr (ts', ctx', w')"
  shows "\<exists>new. emits new ctx ctx' \<and> length new \<le> 2 \<and> ctx_buffers ctx' = ctx_buffers ctx \<and>
    set new \<subseteq> {SubmitMultishotAccept (Fd (ts_listener_fd ts'))} \<union>
      {SpawnConnHandler (Fixed res) | res flags. event = IoCompleted res flags \<and> 0 \<le> sint res} \<and>
    length (filter (\<lambda>i. \<exists>f. i = SpawnConnHandler f) new) \<le> 1"
proof (cases event)
  case Spawn
  with assms have init: "ts_state ts = TcpInit"
    by (simp add: tcp_process_event_def split: tcp_server_state.splits)
  with assms Spawn obtain r ts1 w1 where listen: "tcp_listen net ts w = Inr (r, ts1, w1)"
    unfolding tcp_process_event_def by (cases "tcp_listen net ts w") auto
  consider (listening) "tcp_multishot_accept ts1 ctx = Inr ctx'"
      "ts' = ts1\<lparr>ts_state := TcpAccepting\<rparr>" | (failed) "ctx' = ctx"
    using assms Spawn init listen
    by (cases r) (auto simp: tcp_process_event_def andThen_eq_Inr)
  then show ?thesis
  proof cases
    case listening
    then show ?thesis
      by (intro exI [of _ "[SubmitMultishotAccept (Fd (ts_listener_fd ts'))]"])
        (auto simp: tcp_multishot_accept_def dest!: submit_emits)
  qed (auto intro: exI [of _ "[]"])
next
  case (IoCompleted res flags)
  consider (idle) "ctx' = ctx"
    | (one) "submit_intent (SpawnConnHandler (Fixed res)) ctx = Inr ctx'" "0 \<le> sint res"
    | (two) c where "submit_intent (SpawnConnHandler (Fixed res)) ctx = Inr c" "0 \<le> sint res"
        "tcp_multishot_accept ts c = Inr ctx'" "ts' = ts"
  proof (cases "ts_state ts = TcpAccepting \<and> 0 \<le> sint res")
    case False
    with assms IoCompleted have "ctx' = ctx"
      by (simp add: tcp_process_event_def split: tcp_server_state.splits if_splits)
    then show ?thesis by (rule idle)
  next
    case True
    then have pos: "\<not> sint res < 0" by simp
    with assms IoCompleted True obtain c where
      c: "submit_intent (SpawnConnHandler (Fixed res)) ctx = Inr c"
      by (cases "submit_intent (SpawnConnHandler (Fixed res)) ctx") (simp_all add: tcp_process_event_def)
    show ?thesis
    proof (cases "more_io flags")
      case more: True
      with assms IoCompleted True pos c have "ctx' = c" by (simp add: tcp_process_event_def)
      with c True show ?thesis using one by simp
    next
      case False
      with assms IoCompleted True pos c obtain d where "tcp_multishot_accept ts c = Inr d"
        by (cases "tcp_multishot_accept ts c") (simp_all add: tcp_process_event_def)
      moreover from this assms IoCompleted True pos c False have "d = ctx'" "ts' = ts"
        by (simp_all add: tcp_process_event_def)
      ultimately show ?thesis using two [OF c] True by simp
    qed
  qed
  then show ?thesis
  proof cases
    case one
    with IoCompleted show ?thesis
      by (intro exI [of _ "[SpawnConnHandler (Fixed res)]"]) (auto dest!: submit_emits)
  next
    case two
    from submit_emits [OF two(1)] submit_emits [OF two(3) [unfolded tcp_multishot_accept_def]]
    have "emits ([SpawnConnHandler (Fixed res)] @ [SubmitMultishotAccept (Fd (ts_listener_fd ts))])
        ctx ctx'" "ctx_buffers ctx' = ctx_buffers ctx"
      by (blast intro: emits_trans, simp)
    with IoCompleted two show ?thesis
      by (intro exI [of _ "[SpawnConnHandler (Fixed res), SubmitMultishotAccept (Fd (ts_listener_fd ts))]"])
        auto
  qed (auto intro: exI [of _ "[]"])
qed

interpretation tcp: event_machine "tcp_step net more_io" "\<lambda>_ _. True" "\<lambda>_. {}" for net more_io
proof unfold_locales
  show "\<exists>new. emits new ctx ctx' \<and> length new \<le> 2" if "tcp_step net more_io ts ctx ts' ctx'"
    for ts ctx ts' ctx'
    using that unfolding tcp_step_def by (blast dest: tcp_process_event_emits)
  fix ctx ts ts' ctx'
  assume "bp_ok POOL_BUF_SIZE (ctx_buffers ctx)" "tcp_step net more_io ts ctx ts' ctx'"
  moreover from this(2) have "ctx_buffers ctx' = ctx_buffers ctx"
    unfolding tcp_step_def by (blast dest: tcp_process_event_emits)
  ultimately show "bp_ok POOL_BUF_SIZE (ctx_buffers ctx') \<and> True \<and>
      bp_live (ctx_buffers ctx') = bp_live (ctx_buffers ctx) - {} \<union> {} \<and>
      {} \<inter> (bp_live (ctx_buffers ctx) - {}) = {} \<and>
      bp_dead (ctx_buffers ctx) \<subseteq> bp_dead (ctx_buffers ctx') \<and>
      bp_pool (ctx_buffers ctx') = bp_pool (ctx_buffers ctx)"
    by simp
qed auto

lemma tcp_process_event_safe: "safe (tcp_process_event net more_io ts ctx event w)"
proof -
  have submit: "safe (submit_intent i c)" for i c
    by (simp add: submit_intent_def safe_def rust_assert_def)
  have listen: "safe (tcp_listen net ts w)"
    unfolding tcp_listen_def Let_def by (rule safe_andThen) simp_all
  show ?thesis
    unfolding tcp_process_event_def tcp_multishot_accept_def
    by (cases event; cases "ts_state ts")
      (auto intro!: safe_andThen listen submit split: sum.splits)
qed

end
