(* ===== verification/Conn_Handler.thy ===== *)
theory Conn_Handler
  imports Machine_Interface
begin

text \<open>
  The connection machine, \<open>hoarder-blob/src/state_machine/conn_handler.rs\<close>: allocate a buffer,
  receive into it, parse the header, close. The methods take and return the machine and the
  context; \<open>m\<close> is the byte memory at the time of the event, read to parse the header. The lines
  the code logs have no effect on this state; \<open>Conn_Logged\<close> has the handlers with them.
\<close>

datatype recv_phase = ReceivingHeader | ReceivingBody msg_header | Processing

datatype conn_state = ConnInit | Recv recv_phase | Closing | Closed

record conn_handler =
  ch_state :: conn_state
  ch_socket :: fixed
  ch_buf_handle :: "buffer_handle option"
  ch_offset :: u32

definition conn_new :: "u32 \<Rightarrow> conn_handler" where
  "conn_new socket_direct_descriptor =
     \<lparr>ch_state = ConnInit, ch_socket = Fixed socket_direct_descriptor, ch_buf_handle = None,
      ch_offset = 0\<rparr>"

definition conn_buf_handle :: "conn_handler \<Rightarrow> buffer_handle outcome" where
  "conn_buf_handle ch = unwrap_unchecked (ch_buf_handle ch)"

definition conn_recv :: "conn_handler \<Rightarrow> exec_ctx \<Rightarrow> exec_ctx outcome" where
  "conn_recv ch ctx =
     andThen (conn_buf_handle ch) (\<lambda>h.
     submit_intent (SubmitRecv (ch_socket ch) h (ucast (ch_offset ch))) ctx)"

definition conn_close :: "profile \<Rightarrow> conn_handler \<Rightarrow> exec_ctx \<Rightarrow> (conn_handler \<times> exec_ctx) outcome" where
  "conn_close pr ch ctx =
     andThen (case ch_buf_handle ch of
                None \<Rightarrow> Inr (ctx_buffers ctx)
              | Some h \<Rightarrow> andThen (buffer_pool_free pr h (ctx_buffers ctx)) (\<lambda>(_, b). Inr b)) (\<lambda>b.
     andThen (submit_intent (CloseFixed (ch_socket ch)) (ctx\<lparr>ctx_buffers := b\<rparr>)) (\<lambda>ctx.
     Inr (ch\<lparr>ch_offset := 0\<rparr>, ctx)))"

definition conn_on_init ::
  "conn_handler \<Rightarrow> exec_ctx \<Rightarrow> (conn_state \<times> conn_handler \<times> exec_ctx) outcome" where
  "conn_on_init ch ctx =
     andThen (buffer_pool_alloc (ctx_buffers ctx)) (\<lambda>(r, b).
     let ctx = ctx\<lparr>ctx_buffers := b\<rparr> in
     (case r of
        Some handle \<Rightarrow>
          let ch = ch\<lparr>ch_buf_handle := Some handle\<rparr> in
          andThen (conn_recv ch ctx) (\<lambda>ctx. Inr (Recv ReceivingHeader, ch, ctx))
      | None \<Rightarrow> andThen (submit_intent Retry ctx) (\<lambda>ctx. Inr (ConnInit, ch, ctx))))"

text \<open>The error codes of \<open>handle_io_error\<close>, by the arm they fall in.\<close>

definition errno_retry :: "errno list" where
  "errno_retry = [EINTR, EAGAIN, ENOBUFS, ENOMEM, ETIMEDOUT]"

definition errno_logic :: "errno list" where
  "errno_logic = [EBADF, EFAULT, EINVAL, ENOTSOCK, EAFNOSUPPORT, EOPNOTSUPP]"

definition errno_close :: "errno list" where
  "errno_close = [EIO, ECONNRESET, ENOTCONN, ESHUTDOWN, ECONNABORTED, ENETDOWN, ENETUNREACH, ENETRESET]"

definition conn_handle_io_error ::
  "profile \<Rightarrow> conn_handler \<Rightarrow> i32 \<Rightarrow> exec_ctx \<Rightarrow> (conn_state \<times> conn_handler \<times> exec_ctx) outcome" where
  "conn_handle_io_error pr ch err ctx =
     andThen (from_raw_syscall_error pr err) (\<lambda>e.
     if e \<in> set errno_retry then
       andThen (conn_recv ch ctx) (\<lambda>ctx. Inr (ch_state ch, ch, ctx))
     else if e \<in> set errno_logic then Inl ExplicitPanic
     else if e \<in> set errno_close then
       andThen (conn_close pr ch ctx) (\<lambda>(ch, ctx). Inr (Closing, ch, ctx))
     else Inr (ch_state ch, ch, ctx))"

text \<open>\<open>MsgHeader::read_from_bytes(&get(buf).unwrap()[..hdr_size]).unwrap()\<close>.\<close>

definition conn_read_header :: "memory \<Rightarrow> conn_handler \<Rightarrow> exec_ctx \<Rightarrow> msg_header outcome" where
  "conn_read_header m ch ctx =
     andThen (conn_buf_handle ch) (\<lambda>h.
     andThen (buffer_pool_get POOL_BUF_SIZE (ctx_buffers ctx) h) (\<lambda>r.
     andThen (unwrap_option r) (\<lambda>s.
     andThen (slice_upto s MSG_HEADER_SIZE) (\<lambda>s.
     unwrap_option (msg_header_read (slice_bytes m s))))))"

definition conn_on_recv ::
  "profile \<Rightarrow> memory \<Rightarrow> conn_handler \<Rightarrow> exec_ctx \<Rightarrow> i32 \<Rightarrow>
     (conn_state \<times> conn_handler \<times> exec_ctx) outcome" where
  "conn_on_recv pr m ch ctx res =
     (if res = 0 then
        andThen (conn_close pr ch ctx) (\<lambda>(ch, ctx). Inr (Closing, ch, ctx))
      else
        andThen
          (if sint res < 0 then conn_handle_io_error pr ch res ctx
           else
             andThen (u32_add pr (ch_offset ch) res) (\<lambda>offset.
             let ch = ch\<lparr>ch_offset := offset\<rparr> in
             if MSG_HEADER_SIZE \<le> unat offset then
               andThen (conn_read_header m ch ctx) (\<lambda>hdr. Inr (Recv (ReceivingBody hdr), ch, ctx))
             else Inr (Recv ReceivingHeader, ch, ctx)))
          (\<lambda>(state, ch, ctx).
           andThen (conn_recv ch ctx) (\<lambda>ctx. Inr (state, ch, ctx))))"

definition conn_on_closing ::
  "profile \<Rightarrow> conn_handler \<Rightarrow> exec_ctx \<Rightarrow> i32 \<Rightarrow> (conn_state \<times> conn_handler \<times> exec_ctx) outcome" where
  "conn_on_closing pr ch ctx res =
     (if res = 0 then andThen (submit_intent Terminate ctx) (\<lambda>ctx. Inr (Closed, ch, ctx))
      else andThen (conn_close pr ch ctx) (\<lambda>(ch, ctx). Inr (Closing, ch, ctx)))"

definition conn_process_event ::
  "profile \<Rightarrow> memory \<Rightarrow> conn_handler \<Rightarrow> exec_ctx \<Rightarrow> machine_event \<Rightarrow>
     (conn_handler \<times> exec_ctx) outcome" where
  "conn_process_event pr m ch ctx event =
     andThen
       (case (event, ch_state ch) of
          (Spawn, ConnInit) \<Rightarrow> conn_on_init ch ctx
        | (IoCompleted res _, Recv _) \<Rightarrow> conn_on_recv pr m ch ctx res
        | (IoCompleted res _, Closing) \<Rightarrow> conn_on_closing pr ch ctx res
        | (_, Closed) \<Rightarrow> Inr (Closed, ch, ctx)
        | (_, _) \<Rightarrow> Inl Unreachable)
       (\<lambda>(state, ch, ctx). Inr (ch\<lparr>ch_state := state\<rparr>, ctx))"

lemmas conn_defs [run_defs] = conn_new_def conn_buf_handle_def conn_recv_def conn_close_def
  conn_on_init_def conn_handle_io_error_def conn_read_header_def conn_on_recv_def
  conn_on_closing_def conn_process_event_def


section \<open>Invariant and ownership\<close>

text \<open>
  A machine that has not started holds no buffer; one that receives holds a live buffer; one that
  is closing or closed keeps a handle it has released.
\<close>

definition conn_ok :: "buffer_pool \<Rightarrow> conn_handler \<Rightarrow> bool" where
  "conn_ok b ch \<longleftrightarrow>
     (case ch_state ch of
        ConnInit \<Rightarrow> ch_buf_handle ch = None \<and> ch_offset ch = 0
      | Recv _ \<Rightarrow> (\<exists>h \<in> bp_live b. ch_buf_handle ch = Some h)
      | Closing \<Rightarrow> (\<exists>h \<in> bp_dead b. ch_buf_handle ch = Some h)
      | Closed \<Rightarrow> (\<exists>h \<in> bp_dead b. ch_buf_handle ch = Some h))"

definition conn_owned :: "conn_handler \<Rightarrow> buffer_handle set" where
  "conn_owned ch = (case ch_state ch of Recv _ \<Rightarrow> set_option (ch_buf_handle ch) | _ \<Rightarrow> {})"

definition conn_step :: "conn_handler \<Rightarrow> exec_ctx \<Rightarrow> conn_handler \<Rightarrow> exec_ctx \<Rightarrow> bool" where
  "conn_step ch ctx ch' ctx' \<longleftrightarrow>
     (\<exists>m event. conn_process_event Checked m ch ctx event = Inr (ch', ctx'))"

lemma conn_recv_Inr:
  assumes "conn_recv ch ctx = Inr ctx'"
  shows "\<exists>h. ch_buf_handle ch = Some h \<and>
    emits [SubmitRecv (ch_socket ch) h (ucast (ch_offset ch))] ctx ctx' \<and>
    ctx_buffers ctx' = ctx_buffers ctx"
  using assms unfolding conn_recv_def conn_buf_handle_def andThen_eq_Inr unwrap_unchecked_eq
  by (auto dest: submit_emits)

lemma conn_close_emits:
  assumes "conn_close pr ch ctx = Inr (ch', ctx')"
  shows "ch' = ch\<lparr>ch_offset := 0\<rparr> \<and> emits [CloseFixed (ch_socket ch)] ctx ctx'"
  using assms unfolding conn_close_def andThen_eq_Inr by (auto dest!: submit_emits)

lemma conn_close_Inr:
  assumes ok: "bp_ok POOL_BUF_SIZE (ctx_buffers ctx)" and h: "ch_buf_handle ch = Some h"
    and known: "h \<in> bp_live (ctx_buffers ctx) \<union> bp_dead (ctx_buffers ctx)"
    and close: "conn_close Checked ch ctx = Inr (ch', ctx')"
  shows "ch' = ch\<lparr>ch_offset := 0\<rparr> \<and> emits [CloseFixed (ch_socket ch)] ctx ctx' \<and>
    bp_ok POOL_BUF_SIZE (ctx_buffers ctx') \<and>
    bp_live (ctx_buffers ctx') = bp_live (ctx_buffers ctx) - {h} \<and>
    bp_dead (ctx_buffers ctx') = insert h (bp_dead (ctx_buffers ctx)) \<and>
    bp_pool (ctx_buffers ctx') = bp_pool (ctx_buffers ctx)"
proof -
  from close h obtain r b where free: "buffer_pool_free Checked h (ctx_buffers ctx) = Inr (r, b)"
    and b: "ctx_buffers ctx' = b"
    unfolding conn_close_def andThen_eq_Inr by (auto simp: andThen_eq_Inr dest!: submit_emits)
  show ?thesis
    using bp.release_known [OF ok known free] bp_slice_free [OF free] conn_close_emits [OF close] b
    by simp
qed

text \<open>The intents of a machine that receives or closes.\<close>

definition conn_io_intent :: "machine_intent \<Rightarrow> bool" where
  "conn_io_intent i \<longleftrightarrow> (case i of CloseFixed _ \<Rightarrow> True | SubmitRecv _ _ _ \<Rightarrow> True | _ \<Rightarrow> False)"

lemma conn_io_intent_simps [simp]:
  "conn_io_intent (CloseFixed f)" "conn_io_intent (SubmitRecv f h off)"
  "\<not> conn_io_intent Retry" "\<not> conn_io_intent Terminate"
  "\<not> conn_io_intent (SpawnConnHandler f)" "\<not> conn_io_intent (SubmitMultishotAccept d)"
  by (simp_all add: conn_io_intent_def)

definition emits_io :: "nat \<Rightarrow> exec_ctx \<Rightarrow> exec_ctx \<Rightarrow> bool" where
  "emits_io n ctx ctx' \<longleftrightarrow>
     (\<exists>new. emits new ctx ctx' \<and> length new \<le> n \<and> (\<forall>i \<in> set new. conn_io_intent i))"

lemma emits_io_refl: "emits_io n ctx ctx"
  unfolding emits_io_def by (rule exI [of _ "[]"]) simp

lemma emits_io_one: "emits [i] ctx ctx' \<Longrightarrow> conn_io_intent i \<Longrightarrow> 0 < n \<Longrightarrow> emits_io n ctx ctx'"
  unfolding emits_io_def by (rule exI [of _ "[i]"]) simp

lemma emits_io_trans:
  assumes "emits_io m a b" and "emits_io n b c"
  shows "emits_io (m + n) a c"
proof -
  from assms obtain xs ys where "emits xs a b" "length xs \<le> m" "\<forall>i \<in> set xs. conn_io_intent i"
    "emits ys b c" "length ys \<le> n" "\<forall>i \<in> set ys. conn_io_intent i"
    by (auto simp: emits_io_def)
  then show ?thesis unfolding emits_io_def
    by (intro exI [of _ "xs @ ys"]) (auto intro: emits_trans)
qed

lemma emits_io_mono: "emits_io m a b \<Longrightarrow> m \<le> n \<Longrightarrow> emits_io n a b"
  unfolding emits_io_def by fastforce

lemma conn_recv_emits_io: "conn_recv ch ctx = Inr ctx' \<Longrightarrow> 0 < n \<Longrightarrow> emits_io n ctx ctx'"
  by (drule conn_recv_Inr) (auto intro: emits_io_one)

lemma conn_close_emits_io: "conn_close pr ch ctx = Inr (ch', ctx') \<Longrightarrow> 0 < n \<Longrightarrow> emits_io n ctx ctx'"
  by (drule conn_close_emits) (auto intro: emits_io_one)

lemma conn_handle_io_error_emits:
  assumes "conn_handle_io_error pr ch err ctx = Inr (st, ch', ctx')"
  shows "emits_io 1 ctx ctx' \<and> ch_buf_handle ch' = ch_buf_handle ch"
proof -
  from assms obtain e where e: "(if e \<in> set errno_retry then
       andThen (conn_recv ch ctx) (\<lambda>ctx. Inr (ch_state ch, ch, ctx))
     else if e \<in> set errno_logic then Inl ExplicitPanic
     else if e \<in> set errno_close then
       andThen (conn_close pr ch ctx) (\<lambda>(ch, ctx). Inr (Closing, ch, ctx))
     else Inr (ch_state ch, ch, ctx)) = Inr (st, ch', ctx')"
    unfolding conn_handle_io_error_def andThen_eq_Inr by blast
  show ?thesis
  proof (cases "e \<in> set errno_retry")
    case True
    with e have "conn_recv ch ctx = Inr ctx'" "ch' = ch" by (auto simp: andThen_eq_Inr)
    then show ?thesis by (auto dest: conn_recv_emits_io)
  next
    case retry: False
    show ?thesis
    proof (cases "e \<in> set errno_close")
      case True
      with e retry have "conn_close pr ch ctx = Inr (ch', ctx')"
        by (auto simp: andThen_eq_Inr split: if_splits)
      then show ?thesis by (auto dest: conn_close_emits conn_close_emits_io)
    next
      case False
      with e retry have "ctx' = ctx" "ch' = ch" by (auto split: if_splits)
      then show ?thesis by (simp add: emits_io_refl)
    qed
  qed
qed

text \<open>The part of \<open>on_recv\<close> before the final \<open>recv\<close>.\<close>

lemma conn_on_recv_split:
  assumes "conn_on_recv pr m ch ctx res = Inr (st, ch', ctx')" and "res \<noteq> 0"
  obtains c where "conn_recv ch' c = Inr ctx'" "sint res < 0"
      "conn_handle_io_error pr ch res ctx = Inr (st, ch', c)"
  | offset where "conn_recv ch' ctx = Inr ctx'" "\<not> sint res < 0"
      "u32_add pr (ch_offset ch) res = Inr offset" "ch' = ch\<lparr>ch_offset := offset\<rparr>"
      "\<exists>p. st = Recv p"
proof (cases "sint res < 0")
  case True
  with assms that(1) show ?thesis by (auto simp: conn_on_recv_def andThen_eq_Inr)
next
  case False
  with assms that(2) show ?thesis
    by (auto simp: conn_on_recv_def andThen_eq_Inr Let_def split: if_splits)
qed

lemma conn_on_recv_emits:
  assumes run: "conn_on_recv pr m ch ctx res = Inr (st, ch', ctx')"
  shows "emits_io 2 ctx ctx'"
proof (cases "res = 0")
  case True
  with run have "conn_close pr ch ctx = Inr (ch', ctx')"
    by (auto simp: conn_on_recv_def andThen_eq_Inr)
  from conn_close_emits_io [OF this, of 2] show ?thesis by simp
next
  case False
  from run False show ?thesis
  proof (cases rule: conn_on_recv_split)
    case (1 c)
    then have "emits_io 1 ctx c" "emits_io 1 c ctx'"
      using conn_handle_io_error_emits conn_recv_emits_io [of ch' c ctx' 1] by auto
    from emits_io_trans [OF this] show ?thesis by (simp only: one_add_one)
  next
    case 2
    from conn_recv_emits_io [OF 2(1), of 2] show ?thesis by simp
  qed
qed

text \<open>
  An event yields at most two intents; \<open>Retry\<close> and \<open>Terminate\<close> only alone, the latter when the
  machine has closed.
\<close>

lemma conn_process_event_intents:
  assumes "conn_process_event pr m ch ctx event = Inr (ch', ctx')"
  shows "emits_io 2 ctx ctx' \<or> emits [Retry] ctx ctx' \<or>
    (emits [Terminate] ctx ctx' \<and> ch_state ch' = Closed)"
proof -
  from assms obtain s ch1 where
    run: "(case (event, ch_state ch) of
          (Spawn, ConnInit) \<Rightarrow> conn_on_init ch ctx
        | (IoCompleted res _, Recv _) \<Rightarrow> conn_on_recv pr m ch ctx res
        | (IoCompleted res _, Closing) \<Rightarrow> conn_on_closing pr ch ctx res
        | (_, Closed) \<Rightarrow> Inr (Closed, ch, ctx)
        | (_, _) \<Rightarrow> Inl Unreachable) = Inr (s, ch1, ctx')"
    and ch': "ch' = ch1\<lparr>ch_state := s\<rparr>"
    unfolding conn_process_event_def andThen_eq_Inr by auto
  show ?thesis
  proof (cases event)
    case Spawn
    with run show ?thesis
    proof (cases "ch_state ch")
      case ConnInit
      with Spawn run consider c ch2 where "conn_recv ch2 c = Inr ctx'" "emits [] ctx c"
        | c where "submit_intent Retry c = Inr ctx'" "emits [] ctx c"
        by (auto simp: conn_on_init_def andThen_eq_Inr Let_def emits_def ctx_submitted_def
            split: option.splits)
      then show ?thesis
      proof cases
        case 1
        from conn_recv_Inr [OF 1(1)] 1(2) obtain i where "emits ([] @ [i]) ctx ctx'" "conn_io_intent i"
          by (metis emits_trans conn_io_intent_simps(2))
        then show ?thesis using emits_io_one [of i ctx ctx' 2] by simp
      next
        case 2
        with submit_emits [OF 2(1)] emits_trans [OF 2(2)] show ?thesis by fastforce
      qed
    qed (auto intro: emits_io_refl)
  next
    case (IoCompleted res flags)
    with run show ?thesis
    proof (cases "ch_state ch")
      case Closing
      with IoCompleted run have "conn_on_closing pr ch ctx res = Inr (s, ch1, ctx')" by simp
      then consider "submit_intent Terminate ctx = Inr ctx'" "s = Closed"
        | "conn_close pr ch ctx = Inr (ch1, ctx')"
        by (auto simp: conn_on_closing_def andThen_eq_Inr split: if_splits)
      then show ?thesis
      proof cases
        case 1
        with ch' submit_emits [OF 1(1)] show ?thesis by simp
      next
        case 2
        from conn_close_emits_io [OF 2, of 2] show ?thesis by simp
      qed
    qed (auto dest: conn_on_recv_emits intro: emits_io_refl)
  qed
qed

lemma conn_process_event_emits:
  assumes "conn_process_event pr m ch ctx event = Inr (ch', ctx')"
  shows "\<exists>new. emits new ctx ctx' \<and> length new \<le> 2"
  using conn_process_event_intents [OF assms]
proof (elim disjE conjE)
  assume "emits_io 2 ctx ctx'"
  then show ?thesis by (auto simp: emits_io_def)
next
  assume "emits [Retry] ctx ctx'"
  then show ?thesis by (intro exI [of _ "[Retry]"]) simp
next
  assume "emits [Terminate] ctx ctx'"
  then show ?thesis by (intro exI [of _ "[Terminate]"]) simp
qed

text \<open>What an event does to the pool and to the machine's share of it.\<close>

definition conn_pool_post ::
  "buffer_pool \<Rightarrow> conn_handler \<Rightarrow> buffer_pool \<Rightarrow> conn_handler \<Rightarrow> bool" where
  "conn_pool_post b ch b' ch' \<longleftrightarrow>
     bp_ok POOL_BUF_SIZE b' \<and> conn_ok b' ch' \<and>
     bp_live b' = (bp_live b - conn_owned ch) \<union> conn_owned ch' \<and>
     conn_owned ch' \<inter> (bp_live b - conn_owned ch) = {} \<and> bp_dead b \<subseteq> bp_dead b' \<and>
     bp_pool b' = bp_pool b"

lemma conn_post_keep:
  assumes "bp_ok POOL_BUF_SIZE b" and "conn_ok b ch" and "ch_state ch = Recv p"
    and "ch_buf_handle ch' = ch_buf_handle ch" and "ch_state ch' = Recv p'"
  shows "conn_pool_post b ch b ch'"
  using assms by (auto simp: conn_pool_post_def conn_ok_def conn_owned_def)

lemma conn_post_close:
  assumes ok: "bp_ok POOL_BUF_SIZE (ctx_buffers ctx)" and inv: "conn_ok (ctx_buffers ctx) ch"
    and st: "ch_state ch = Recv p \<or> ch_state ch = Closing"
    and close: "conn_close Checked ch ctx = Inr (ch1, ctx')"
  shows "conn_pool_post (ctx_buffers ctx) ch (ctx_buffers ctx') (ch1\<lparr>ch_state := Closing\<rparr>)"
proof -
  from inv st obtain h where h: "ch_buf_handle ch = Some h"
    and known: "h \<in> bp_live (ctx_buffers ctx) \<union> bp_dead (ctx_buffers ctx)"
    by (auto simp: conn_ok_def)
  note closed = conn_close_Inr [OF ok h known close]
  show ?thesis
  proof (cases "ch_state ch = Closing")
    case True
    with inv h have "h \<in> bp_dead (ctx_buffers ctx)" by (simp add: conn_ok_def)
    moreover from this bp.live_dead [OF ok] have "h \<notin> bp_live (ctx_buffers ctx)" by blast
    ultimately show ?thesis
      using closed h True by (auto simp: conn_pool_post_def conn_ok_def conn_owned_def)
  next
    case False
    with st closed h show ?thesis by (auto simp: conn_pool_post_def conn_ok_def conn_owned_def)
  qed
qed

lemma conn_post_on_init:
  assumes ok: "bp_ok POOL_BUF_SIZE (ctx_buffers ctx)" and inv: "conn_ok (ctx_buffers ctx) ch"
    and st: "ch_state ch = ConnInit" and run: "conn_on_init ch ctx = Inr (s, ch1, ctx')"
  shows "conn_pool_post (ctx_buffers ctx) ch (ctx_buffers ctx') (ch1\<lparr>ch_state := s\<rparr>)"
proof (cases rule: bp.acquire_cases [OF ok, case_names full fresh])
  case full
  with run have "ctx_buffers ctx' = ctx_buffers ctx" "s = ConnInit" "ch1 = ch"
    by (auto simp: conn_on_init_def andThen_eq_Inr dest!: submit_emits)
  with ok inv st show ?thesis
    by (auto simp: conn_pool_post_def conn_ok_def conn_owned_def)
next
  case (fresh h b)
  with run have "ctx_buffers ctx' = b" "s = Recv ReceivingHeader"
    "ch1 = ch\<lparr>ch_buf_handle := Some h\<rparr>"
    by (auto simp: conn_on_init_def andThen_eq_Inr Let_def dest!: conn_recv_Inr)
  with fresh st bp_slice_alloc [OF fresh(1)] show ?thesis
    by (auto simp: conn_pool_post_def conn_ok_def conn_owned_def)
qed

lemma conn_post_io_error:
  assumes ok: "bp_ok POOL_BUF_SIZE (ctx_buffers ctx)" and inv: "conn_ok (ctx_buffers ctx) ch"
    and st: "ch_state ch = Recv p" and run: "conn_handle_io_error Checked ch err ctx = Inr (s, ch1, ctx')"
  shows "conn_pool_post (ctx_buffers ctx) ch (ctx_buffers ctx') (ch1\<lparr>ch_state := s\<rparr>)"
proof -
  from run obtain e where e: "(if e \<in> set errno_retry then
       andThen (conn_recv ch ctx) (\<lambda>ctx. Inr (ch_state ch, ch, ctx))
     else if e \<in> set errno_logic then Inl ExplicitPanic
     else if e \<in> set errno_close then
       andThen (conn_close Checked ch ctx) (\<lambda>(ch, ctx). Inr (Closing, ch, ctx))
     else Inr (ch_state ch, ch, ctx)) = Inr (s, ch1, ctx')"
    unfolding conn_handle_io_error_def andThen_eq_Inr by blast
  consider (keep) "ctx_buffers ctx' = ctx_buffers ctx" "s = ch_state ch" "ch1 = ch"
    | (close) "conn_close Checked ch ctx = Inr (ch1, ctx')" "s = Closing"
  proof (cases "e \<in> set errno_retry")
    case True
    with e have run: "conn_recv ch ctx = Inr ctx'" and st: "s = ch_state ch" "ch1 = ch"
      by (auto simp: andThen_eq_Inr)
    from conn_recv_Inr [OF run] have "ctx_buffers ctx' = ctx_buffers ctx" by blast
    from this st show ?thesis by (rule keep)
  next
    case retry: False
    show ?thesis
    proof (cases "e \<in> set errno_close")
      case True
      with e retry have "conn_close Checked ch ctx = Inr (ch1, ctx')" "s = Closing"
        by (auto simp: andThen_eq_Inr split: if_splits)
      then show ?thesis by (rule close)
    next
      case False
      with e retry have "ctx_buffers ctx' = ctx_buffers ctx" "s = ch_state ch" "ch1 = ch"
        by (auto split: if_splits)
      then show ?thesis by (rule keep)
    qed
  qed
  then show ?thesis
  proof cases
    case keep
    with conn_post_keep [OF ok inv st, of "ch\<lparr>ch_state := s\<rparr>" p] st show ?thesis by simp
  next
    case close
    with conn_post_close [OF ok inv _ close(1)] st show ?thesis by simp
  qed
qed

lemma conn_post_on_recv:
  assumes ok: "bp_ok POOL_BUF_SIZE (ctx_buffers ctx)" and inv: "conn_ok (ctx_buffers ctx) ch"
    and st: "ch_state ch = Recv p" and run: "conn_on_recv Checked m ch ctx res = Inr (s, ch1, ctx')"
  shows "conn_pool_post (ctx_buffers ctx) ch (ctx_buffers ctx') (ch1\<lparr>ch_state := s\<rparr>)"
proof -
  consider (eof) "res = 0" | (error) "res \<noteq> 0" "sint res < 0" | (data) "res \<noteq> 0" "\<not> sint res < 0"
    by blast
  then show ?thesis
  proof cases
    case eof
    with run conn_post_close [OF ok inv] st show ?thesis
      by (auto simp: conn_on_recv_def andThen_eq_Inr)
  next
    case error
    with run obtain c where "conn_handle_io_error Checked ch res ctx = Inr (s, ch1, c)"
      "ctx_buffers ctx' = ctx_buffers c"
      by (auto simp: conn_on_recv_def andThen_eq_Inr dest!: conn_recv_Inr)
    with conn_post_io_error [OF ok inv st] show ?thesis by simp
  next
    case data
    with run have "ch_buf_handle ch1 = ch_buf_handle ch" "\<exists>q. s = Recv q"
      "ctx_buffers ctx' = ctx_buffers ctx"
      by (auto simp: conn_on_recv_def andThen_eq_Inr Let_def split: if_splits dest!: conn_recv_Inr)
    with conn_post_keep [OF ok inv st, of "ch1\<lparr>ch_state := s\<rparr>"] show ?thesis by auto
  qed
qed

lemma conn_process_event_post:
  assumes ok: "bp_ok POOL_BUF_SIZE (ctx_buffers ctx)" and inv: "conn_ok (ctx_buffers ctx) ch"
    and run: "conn_process_event Checked m ch ctx event = Inr (ch', ctx')"
  shows "conn_pool_post (ctx_buffers ctx) ch (ctx_buffers ctx') ch'"
proof (cases "ch_state ch")
  case ConnInit
  with run conn_post_on_init [OF ok inv ConnInit] show ?thesis
    by (auto simp: conn_process_event_def andThen_eq_Inr split: machine_event.splits)
next
  case (Recv p)
  with run conn_post_on_recv [OF ok inv Recv] show ?thesis
    by (auto simp: conn_process_event_def andThen_eq_Inr split: machine_event.splits)
next
  case Closing
  with run obtain res s ch1 where "conn_on_closing Checked ch ctx res = Inr (s, ch1, ctx')"
    and ch': "ch' = ch1\<lparr>ch_state := s\<rparr>"
    by (auto simp: conn_process_event_def andThen_eq_Inr split: machine_event.splits)
  then consider (closed) "ctx_buffers ctx' = ctx_buffers ctx" "s = Closed" "ch1 = ch"
    | (again) "conn_close Checked ch ctx = Inr (ch1, ctx')" "s = Closing"
    by (auto simp: conn_on_closing_def andThen_eq_Inr split: if_splits dest!: submit_emits)
  then show ?thesis
  proof cases
    case closed
    with ok inv Closing ch' show ?thesis
      by (auto simp: conn_pool_post_def conn_ok_def conn_owned_def)
  next
    case again
    with conn_post_close [OF ok inv _ again(1)] Closing ch' show ?thesis by simp
  qed
next
  case Closed
  with run have "ch' = ch\<lparr>ch_state := Closed\<rparr>" "ctx' = ctx"
    by (auto simp: conn_process_event_def split: machine_event.splits)
  with ok inv Closed show ?thesis
    by (auto simp: conn_pool_post_def conn_ok_def conn_owned_def)
qed

interpretation conn: event_machine conn_step conn_ok conn_owned
proof unfold_locales
  show "conn_ok b ch \<Longrightarrow> conn_owned ch \<subseteq> bp_live b" for b ch
    by (auto simp: conn_ok_def conn_owned_def split: conn_state.splits)
  show "conn_ok b ch \<Longrightarrow> conn_owned ch \<subseteq> bp_live b' \<Longrightarrow> bp_dead b \<subseteq> bp_dead b' \<Longrightarrow> conn_ok b' ch"
    for b b' ch
    by (auto simp: conn_ok_def conn_owned_def split: conn_state.splits)
  show "conn_step ch ctx ch' ctx' \<Longrightarrow> \<exists>new. emits new ctx ctx' \<and> length new \<le> 2" for ch ctx ch' ctx'
    by (auto simp: conn_step_def dest: conn_process_event_emits)
  fix ctx ch ch' ctx'
  assume "bp_ok POOL_BUF_SIZE (ctx_buffers ctx)" "conn_ok (ctx_buffers ctx) ch"
    "conn_step ch ctx ch' ctx'"
  then have "conn_pool_post (ctx_buffers ctx) ch (ctx_buffers ctx') ch'"
    unfolding conn_step_def using conn_process_event_post by blast
  then show "bp_ok POOL_BUF_SIZE (ctx_buffers ctx') \<and> conn_ok (ctx_buffers ctx') ch' \<and>
      bp_live (ctx_buffers ctx') = (bp_live (ctx_buffers ctx) - conn_owned ch) \<union> conn_owned ch' \<and>
      conn_owned ch' \<inter> (bp_live (ctx_buffers ctx) - conn_owned ch) = {} \<and>
      bp_dead (ctx_buffers ctx) \<subseteq> bp_dead (ctx_buffers ctx') \<and>
      bp_pool (ctx_buffers ctx') = bp_pool (ctx_buffers ctx)"
    unfolding conn_pool_post_def .
qed


section \<open>Memory safety\<close>

lemma submit_intent_safe [simp]: "safe (submit_intent i ctx)"
  by (simp add: submit_intent_def safe_def rust_assert_def)

lemma buffer_pool_get_total:
  assumes "bp_ok BUF_SIZE b"
  shows "buffer_pool_get BUF_SIZE b h = Inr None \<or> buffer_pool_get BUF_SIZE b h = Inr (Some (bp_slice b h))"
    and "buffer_pool_get_mut BUF_SIZE b h = Inr None \<or>
      buffer_pool_get_mut BUF_SIZE b h = Inr (Some (bp_slice b h))"
proof -
  obtain v where v: "bp_valid b h = Inr v"
    using assms by (simp add: bp_ok_def bp_valid_def gen_alloc_is_valid_eq)
  show "buffer_pool_get BUF_SIZE b h = Inr None \<or> buffer_pool_get BUF_SIZE b h = Inr (Some (bp_slice b h))"
    "buffer_pool_get_mut BUF_SIZE b h = Inr None \<or>
      buffer_pool_get_mut BUF_SIZE b h = Inr (Some (bp_slice b h))"
    using v buffer_pool_get_valid [OF assms, of h] buffer_pool_get_invalid [of b h]
    by (cases v; simp)+
qed

lemma conn_recv_safe: "ch_buf_handle ch \<noteq> None \<Longrightarrow> safe (conn_recv ch ctx)"
  by (auto simp: conn_recv_def conn_buf_handle_def)

lemma conn_close_safe:
  assumes ok: "bp_ok POOL_BUF_SIZE (ctx_buffers ctx)"
    and h: "ch_buf_handle ch = Some h" "h \<in> bp_live (ctx_buffers ctx) \<union> bp_dead (ctx_buffers ctx)"
  shows "safe (conn_close Checked ch ctx)"
  by (cases rule: bp.release_known_total [OF ok h(2)])
    (auto simp: conn_close_def h(1) intro!: safe_andThen)

lemma conn_read_header_safe:
  assumes ok: "bp_ok POOL_BUF_SIZE (ctx_buffers ctx)" and h: "ch_buf_handle ch \<noteq> None"
  shows "safe (conn_read_header m ch ctx)"
proof -
  obtain h where h: "ch_buf_handle ch = Some h" using h by blast
  show ?thesis
    using buffer_pool_get_total(1) [OF ok, of h]
    by (auto simp: conn_read_header_def conn_buf_handle_def h slice_upto_def intro!: safe_andThen)
qed

lemma conn_handle_io_error_safe:
  assumes ok: "bp_ok POOL_BUF_SIZE (ctx_buffers ctx)" and inv: "conn_ok (ctx_buffers ctx) ch"
    and st: "ch_state ch = Recv p"
  shows "safe (conn_handle_io_error Checked ch err ctx)"
proof -
  from inv st obtain h where h: "ch_buf_handle ch = Some h" "h \<in> bp_live (ctx_buffers ctx)"
    by (auto simp: conn_ok_def)
  with conn_close_safe [OF ok h(1)] show ?thesis
    unfolding conn_handle_io_error_def from_raw_syscall_error_def
    by (auto intro!: safe_andThen conn_recv_safe)
qed

lemma conn_on_recv_safe:
  assumes ok: "bp_ok POOL_BUF_SIZE (ctx_buffers ctx)" and inv: "conn_ok (ctx_buffers ctx) ch"
    and st: "ch_state ch = Recv p"
  shows "safe (conn_on_recv Checked m ch ctx res)"
proof -
  from inv st obtain h where h: "ch_buf_handle ch = Some h" "h \<in> bp_live (ctx_buffers ctx)"
    by (auto simp: conn_ok_def)
  show ?thesis
  proof (cases "res = 0")
    case True
    with conn_close_safe [OF ok h(1)] h(2) show ?thesis
      by (auto simp: conn_on_recv_def intro!: safe_andThen)
  next
    case nonzero: False
    show ?thesis
    proof (cases "sint res < 0")
      case True
      have "safe (conn_recv c d)" if "conn_handle_io_error Checked ch res ctx = Inr (s, c, d)" for s c d
        using conn_handle_io_error_emits [OF that] h by (auto intro: conn_recv_safe)
      with True nonzero conn_handle_io_error_safe [OF ok inv st] show ?thesis
        by (auto simp: conn_on_recv_def intro!: safe_andThen)
    next
      case False
      have "safe (conn_read_header m (ch\<lparr>ch_offset := off\<rparr>) ctx)" for off
        by (rule conn_read_header_safe [OF ok]) (simp add: h)
      moreover have "safe (conn_recv (ch\<lparr>ch_offset := off\<rparr>) ctx)" for off
        by (rule conn_recv_safe) (simp add: h)
      ultimately show ?thesis
        using False nonzero
        by (auto simp: conn_on_recv_def Let_def andThen_eq_Inr intro!: safe_andThen split: if_splits)
    qed
  qed
qed

lemma conn_process_event_safe:
  assumes ok: "bp_ok POOL_BUF_SIZE (ctx_buffers ctx)" and inv: "conn_ok (ctx_buffers ctx) ch"
  shows "safe (conn_process_event Checked m ch ctx event)"
proof -
  have init: "safe (conn_on_init ch ctx)"
    by (cases rule: bp.acquire_cases [OF ok, case_names full fresh])
      (auto simp: conn_on_init_def Let_def intro!: safe_andThen conn_recv_safe)
  have closing: "safe (conn_on_closing Checked ch ctx res)" if "ch_state ch = Closing" for res
  proof -
    from inv that obtain h where "ch_buf_handle ch = Some h" "h \<in> bp_dead (ctx_buffers ctx)"
      by (auto simp: conn_ok_def)
    with conn_close_safe [OF ok] show ?thesis
      by (auto simp: conn_on_closing_def intro!: safe_andThen)
  qed
  show ?thesis
    unfolding conn_process_event_def
    by (rule safe_andThen; cases event; cases "ch_state ch")
      (auto simp: init closing conn_on_recv_safe [OF ok inv])
qed

end
