(* ===== verification/Io.thy ===== *)
theory Io
  imports Protocol
begin

text \<open>
  The crate \<open>hoarder-io\<close> (\<open>hoarder-io/src/lib.rs\<close>): the \<open>IO\<close> trait as a record of operations over
  the outside world \<open>'w\<close>, and \<open>UringIO\<close>, its implementation over the \<open>io_uring\<close> crate, whose own
  operations are the record \<open>ring_ops\<close>. A submission entry keeps the arguments of the opcode that
  builds it and its user data.
\<close>

datatype sqe =
    AcceptMulti fd bool u64                 \<comment> \<open>listener, allocate a file index, user data\<close>
  | ReadFixed fixed addr u32 u16 u64        \<comment> \<open>file, address, length, buffer index, user data\<close>
  | CloseFile fixed u64

record cqe =
  cqe_result :: i32
  cqe_flags :: u32
  cqe_user_data :: u64

record iovec =
  iov_base :: addr
  iov_len :: usize

record 'w io_ops =
  io_completion_next :: "'w \<Rightarrow> cqe option \<times> 'w"
  io_enqueue :: "sqe \<Rightarrow> 'w \<Rightarrow> (unit result \<times> 'w) outcome"
  io_submit_and_wait :: "usize \<Rightarrow> 'w \<Rightarrow> (usize result \<times> 'w) outcome"
  io_register_files :: "u32 \<Rightarrow> 'w \<Rightarrow> (unit result \<times> 'w) outcome"
  io_register_buffers :: "iovec list \<Rightarrow> 'w \<Rightarrow> (unit result \<times> 'w) outcome"

text \<open>\<open>io::Error\<close>, of which the code uses \<open>raw_os_error\<close> only.\<close>

type_synonym os_error = "i32 option"

record 'w ring_ops =
  ring_build :: "u32 option \<Rightarrow> u32 \<Rightarrow> 'w \<Rightarrow> (os_error + unit) \<times> 'w"
  ring_cq_next :: "'w \<Rightarrow> cqe option \<times> 'w"
  ring_cq_sync :: "'w \<Rightarrow> 'w"
  ring_cq_len :: "'w \<Rightarrow> usize"
  ring_sq_push :: "sqe \<Rightarrow> 'w \<Rightarrow> (unit + unit) \<times> 'w"
  ring_sq_need_wakeup :: "'w \<Rightarrow> bool"
  ring_submit_and_wait :: "usize \<Rightarrow> 'w \<Rightarrow> (os_error + usize) \<times> 'w"
  ring_register_files_sparse :: "u32 \<Rightarrow> 'w \<Rightarrow> (os_error + unit) \<times> 'w"
  ring_register_buffers :: "iovec list \<Rightarrow> 'w \<Rightarrow> (os_error + unit) \<times> 'w"

text \<open>\<open>.map_err(|e| HoarderError::from(e.raw_os_error().unwrap()))?\<close>.\<close>

definition map_os_error :: "(os_error + 'a) \<times> 'w \<Rightarrow> ('a result \<times> 'w) outcome" where
  "map_os_error = (\<lambda>(r, w).
     (case r of
        Inl e \<Rightarrow> andThen (unwrap_option e) (\<lambda>v. Inr (Inl (hoarder_error_from_i32 v), w))
      | Inr x \<Rightarrow> Inr (Inr x, w)))"

definition uring_new :: "'w ring_ops \<Rightarrow> u32 \<Rightarrow> bool \<Rightarrow> 'w \<Rightarrow> (unit result \<times> 'w) outcome" where
  "uring_new ring entries use_sqpoll w =
     map_os_error (ring_build ring (if use_sqpoll then Some 2000 else None) entries w)"

definition uring_completion_next :: "'w ring_ops \<Rightarrow> 'w \<Rightarrow> cqe option \<times> 'w" where
  "uring_completion_next ring w = ring_cq_next ring w"

definition uring_enqueue :: "'w ring_ops \<Rightarrow> sqe \<Rightarrow> 'w \<Rightarrow> (unit result \<times> 'w) outcome" where
  "uring_enqueue ring sqe w =
     (case ring_sq_push ring sqe w of
        (Inl _, w) \<Rightarrow> Inr (Inl PushError, w)
      | (Inr _, w) \<Rightarrow> Inr (Inr (), w))"

definition uring_submit_and_wait ::
  "'w ring_ops \<Rightarrow> usize \<Rightarrow> 'w \<Rightarrow> (usize result \<times> 'w) outcome" where
  "uring_submit_and_wait ring want w =
     (let w = ring_cq_sync ring w;
          cqsize = ring_cq_len ring w
      in if \<not> ring_sq_need_wakeup ring w \<and> want \<le> cqsize then Inr (Inr cqsize, w)
         else map_os_error (ring_submit_and_wait ring want w))"

definition uring_register_files :: "'w ring_ops \<Rightarrow> u32 \<Rightarrow> 'w \<Rightarrow> (unit result \<times> 'w) outcome" where
  "uring_register_files ring nr w = map_os_error (ring_register_files_sparse ring nr w)"

definition uring_register_buffers ::
  "'w ring_ops \<Rightarrow> iovec list \<Rightarrow> 'w \<Rightarrow> (unit result \<times> 'w) outcome" where
  "uring_register_buffers ring bufs w = map_os_error (ring_register_buffers ring bufs w)"

definition uring_io :: "'w ring_ops \<Rightarrow> 'w io_ops" where
  "uring_io ring =
     \<lparr>io_completion_next = uring_completion_next ring, io_enqueue = uring_enqueue ring,
      io_submit_and_wait = uring_submit_and_wait ring, io_register_files = uring_register_files ring,
      io_register_buffers = uring_register_buffers ring\<rparr>"

lemmas uring_defs [run_defs] = map_os_error_def uring_new_def uring_completion_next_def
  uring_enqueue_def uring_submit_and_wait_def uring_register_files_def uring_register_buffers_def
  uring_io_def

end
