(* ===== verification/Executor.thy ===== *)
theory Executor
  imports Object_Pool Tcp_Server Conn_Handler Io
begin

text \<open>
  The event loop, \<open>hoarder-blob/src/executor/mod.rs\<close>. The record \<open>executor\<close> keeps the fields of the
  struct, its \<open>io\<close> being the outside world; \<open>host\<close> gathers what is not code of the repository: the
  operations of the world, the byte memory it holds, and the build profile. The lines it
  logs are in \<open>Executor_Logged\<close>.
\<close>

abbreviation TCP_SERVER :: u8 where "TCP_SERVER \<equiv> 1"
abbreviation CONN_HANDLER :: u8 where "CONN_HANDLER \<equiv> 2"
abbreviation INTENT_SLOTS :: usize where "INTENT_SLOTS \<equiv> 16"

record run_queue_event =
  rq_reason :: machine_event
  rq_handle :: object_handle

record 'w executor =
  ex_io :: 'w
  ex_tcp_pool :: "tcp_server object_pool"
  ex_conn_pool :: "conn_handler object_pool"
  ex_io_bufs :: buffer_pool
  ex_run_queues :: "run_queue_event ring_buffer list"
  ex_intents :: "machine_intent option list"
  ex_current :: usize

record 'w host =
  host_profile :: profile
  host_io :: "'w io_ops"
  host_net :: "'w net_ops"
  host_more_io :: "u32 \<Rightarrow> bool"
  host_memory :: "'w \<Rightarrow> memory"

text \<open>The allocator, and the layouts of the three types whose size the compiler chooses.\<close>

record alloc_env =
  env_oom :: "layout \<Rightarrow> bool"
  env_raw :: addr
  env_tcp_layout :: layout
  env_conn_layout :: layout
  env_event_layout :: layout

definition executor_new ::
  "alloc_env \<Rightarrow> 'w \<Rightarrow> u32 \<Rightarrow> u32 \<Rightarrow> u32 \<Rightarrow> 'w executor outcome" where
  "executor_new env io listeners conn_handlers buf_count =
     (let run_queues_size = unat conn_handlers * 2 in
      andThen (object_pool_new (env_oom env) (env_tcp_layout env) listeners) (\<lambda>tcp_pool.
      andThen (object_pool_new (env_oom env) (env_conn_layout env) conn_handlers) (\<lambda>conn_pool.
      andThen (buffer_pool_new (env_oom env) (env_raw env) POOL_BUF_SIZE POOL_ALIGN buf_count) (\<lambda>io_bufs.
      andThen (rb_new (env_oom env) (env_event_layout env) run_queues_size) (\<lambda>q0.
      andThen (rb_new (env_oom env) (env_event_layout env) run_queues_size) (\<lambda>q1.
      Inr \<lparr>ex_io = io, ex_tcp_pool = tcp_pool, ex_conn_pool = conn_pool, ex_io_bufs = io_bufs,
           ex_run_queues = [q0, q1], ex_intents = replicate INTENT_SLOTS None,
           ex_current = 0\<rparr>))))))"


section \<open>Run queues\<close>

definition next_run_queue_idx :: "profile \<Rightarrow> 'w executor \<Rightarrow> usize outcome" where
  "next_run_queue_idx pr ex = usize_sub pr 1 (ex_current ex)"

definition switch_run_queue :: "profile \<Rightarrow> 'w executor \<Rightarrow> 'w executor outcome" where
  "switch_run_queue pr ex =
     andThen (usize_sub pr 1 (ex_current ex)) (\<lambda>i. Inr (ex\<lparr>ex_current := i\<rparr>))"

text \<open>\<open>self.run_queues[i].push(event).unwrap()\<close>.\<close>

definition run_queue_push :: "usize \<Rightarrow> run_queue_event \<Rightarrow> 'w executor \<Rightarrow> 'w executor outcome" where
  "run_queue_push i event ex =
     (if i < length (ex_run_queues ex) then
        andThen (rb_push event (ex_run_queues ex ! i)) (\<lambda>(r, q).
        andThen (unwrap_result r) (\<lambda>_.
        Inr (ex\<lparr>ex_run_queues := (ex_run_queues ex)[i := q]\<rparr>)))
      else Inl SliceBounds)"

definition run_queue_pop ::
  "usize \<Rightarrow> 'w executor \<Rightarrow> (run_queue_event option \<times> 'w executor) outcome" where
  "run_queue_pop i ex =
     (if i < length (ex_run_queues ex) then
        andThen (rb_pop (ex_run_queues ex ! i)) (\<lambda>(r, q).
        Inr (r, ex\<lparr>ex_run_queues := (ex_run_queues ex)[i := q]\<rparr>))
      else Inl SliceBounds)"

definition seed_run_queue :: "'w executor \<Rightarrow> 'w executor outcome" where
  "seed_run_queue ex =
     andThen (object_pool_spawn TCP_SERVER (tcp_server_new ''0.0.0.0:3000'' 4096) (ex_tcp_pool ex))
       (\<lambda>(r, pool).
     andThen (unwrap_option r) (\<lambda>handle.
     run_queue_push (ex_current ex) \<lparr>rq_reason = Spawn, rq_handle = handle\<rparr>
       (ex\<lparr>ex_tcp_pool := pool\<rparr>)))"


section \<open>Setup\<close>

text \<open>The registered buffers: one \<open>iovec\<close> per buffer of the pool.\<close>

fun pool_iovecs :: "aligned_buffers \<Rightarrow> usize list \<Rightarrow> iovec list outcome" where
  "pool_iovecs ab [] = Inr []"
| "pool_iovecs ab (i # is) =
     andThen (buf_ptr ab i) (\<lambda>p.
     andThen (pool_iovecs ab is) (\<lambda>vs. Inr (\<lparr>iov_base = p, iov_len = 0x1000\<rparr> # vs)))"

abbreviation iovec_layout :: layout where
  "iovec_layout \<equiv> \<lparr>lay_size = 16, lay_align = 8\<rparr>"

definition executor_setup ::
  "alloc_env \<Rightarrow> 'w host \<Rightarrow> 'w executor \<Rightarrow> (unit result \<times> 'w executor) outcome" where
  "executor_setup env host ex =
     andThen (io_register_files (host_io host) (object_pool_capacity (ex_conn_pool ex)) (ex_io ex))
       (\<lambda>(r, w).
     let ex = ex\<lparr>ex_io := w\<rparr> in
     (case r of
        Inl e \<Rightarrow> Inr (Inl e, ex)
      | Inr _ \<Rightarrow>
          let sz = ab_count (bp_pool (ex_io_bufs ex)) in
          andThen (pool_iovecs (bp_pool (ex_io_bufs ex)) [0..<sz]) (\<lambda>items.
          andThen (array_from_fixed_iter (env_oom env) iovec_layout sz items) (\<lambda>bufs.
          andThen (array_deref bufs) (\<lambda>vs.
          andThen (io_register_buffers (host_io host) vs (ex_io ex)) (\<lambda>(r, w).
          Inr (r, ex\<lparr>ex_io := w\<rparr>)))))))"


section \<open>Intents\<close>

definition io_submit :: "'w host \<Rightarrow> sqe \<Rightarrow> 'w executor \<Rightarrow> 'w executor outcome" where
  "io_submit host entry ex =
     andThen (io_enqueue (host_io host) entry (ex_io ex)) (\<lambda>(r, w).
     andThen (unwrap_result r) (\<lambda>_. Inr (ex\<lparr>ex_io := w\<rparr>)))"

definition complete_one ::
  "'w host \<Rightarrow> object_handle \<Rightarrow> machine_intent \<Rightarrow> 'w executor \<Rightarrow> 'w executor outcome" where
  "complete_one host handle intent ex =
     (case intent of
        Retry \<Rightarrow>
          andThen (next_run_queue_idx (host_profile host) ex) (\<lambda>i.
          run_queue_push i \<lparr>rq_reason = Spawn, rq_handle = handle\<rparr> ex)
      | SubmitMultishotAccept fd \<Rightarrow>
          io_submit host (AcceptMulti fd True (handle_into_u64 handle)) ex
      | SpawnConnHandler fixed \<Rightarrow>
          andThen (object_pool_spawn CONN_HANDLER
                     (conn_new (case fixed of Fixed d \<Rightarrow> d)) (ex_conn_pool ex)) (\<lambda>(r, pool).
          andThen (unwrap_option r) (\<lambda>handle.
          run_queue_push (ex_current ex) \<lparr>rq_reason = Spawn, rq_handle = handle\<rparr>
            (ex\<lparr>ex_conn_pool := pool\<rparr>)))
      | SubmitRecv fixed buffer_id offset \<Rightarrow>
          let offset = unat offset;
              buf_size = ab_buf_size (bp_pool (ex_io_bufs ex)) in
          andThen (rust_assert (offset < buf_size)) (\<lambda>_.
          andThen (buffer_pool_get_mut POOL_BUF_SIZE (ex_io_bufs ex) buffer_id) (\<lambda>r.
          andThen (unwrap_option r) (\<lambda>s.
          andThen (slice_from s offset) (\<lambda>buf.
          let remaining_len = of_nat (buf_size - offset) in
          io_submit host
            (ReadFixed fixed (sl_ptr buf) remaining_len (ucast (gid_index (bh_gid buffer_id)))
               (handle_into_u64 handle)) ex))))
      | Terminate \<Rightarrow>
          (if handle_pool_id handle = TCP_SERVER then
             andThen (object_pool_despawn (host_profile host) handle (ex_tcp_pool ex)) (\<lambda>(_, pool).
             Inr (ex\<lparr>ex_tcp_pool := pool\<rparr>))
           else if handle_pool_id handle = CONN_HANDLER then
             andThen (object_pool_despawn (host_profile host) handle (ex_conn_pool ex)) (\<lambda>(_, pool).
             Inr (ex\<lparr>ex_conn_pool := pool\<rparr>))
           else Inl Unreachable)
      | CloseFixed fixed \<Rightarrow> io_submit host (CloseFile fixed (handle_into_u64 handle)) ex)"

text \<open>The loop over \<open>&self.intents[..intents]\<close>; \<open>assume_init_ref\<close> needs a written slot.\<close>

fun complete_list ::
  "'w host \<Rightarrow> object_handle \<Rightarrow> machine_intent option list \<Rightarrow> 'w executor \<Rightarrow> 'w executor outcome" where
  "complete_list host handle [] ex = Inr ex"
| "complete_list host handle (slot # slots) ex =
     andThen (unwrap_unchecked slot) (\<lambda>intent.
     andThen (complete_one host handle intent ex) (\<lambda>ex. complete_list host handle slots ex))"

definition complete_intent ::
  "'w host \<Rightarrow> usize \<Rightarrow> object_handle \<Rightarrow> 'w executor \<Rightarrow> 'w executor outcome" where
  "complete_intent host intents handle ex =
     (if intents \<le> length (ex_intents ex)
      then complete_list host handle (take intents (ex_intents ex)) ex
      else Inl SliceBounds)"


section \<open>The loop\<close>

definition ctx_of :: "'w executor \<Rightarrow> exec_ctx" where
  "ctx_of ex = \<lparr>ctx_intents = ex_intents ex, ctx_len = 0, ctx_buffers = ex_io_bufs ex\<rparr>"

definition ctx_back :: "exec_ctx \<Rightarrow> 'w executor \<Rightarrow> 'w executor" where
  "ctx_back ctx ex = ex\<lparr>ex_intents := ctx_intents ctx, ex_io_bufs := ctx_buffers ctx\<rparr>"

text \<open>One event to the machine it names: the number of intents handed back.\<close>

definition dispatch ::
  "'w host \<Rightarrow> machine_event \<Rightarrow> object_handle \<Rightarrow> 'w executor \<Rightarrow> (usize \<times> 'w executor) outcome" where
  "dispatch host reason handle ex =
     (if handle_pool_id handle = TCP_SERVER then
        andThen (object_pool_get_mut (ex_tcp_pool ex) handle) (\<lambda>r.
        (case r of
           Some listener \<Rightarrow>
             andThen (tcp_process_event (host_net host) (host_more_io host) listener (ctx_of ex)
                        reason (ex_io ex)) (\<lambda>(listener, ctx, w).
             andThen (object_pool_store handle listener (ex_tcp_pool ex)) (\<lambda>pool.
             Inr (ctx_len ctx, (ctx_back ctx ex)\<lparr>ex_tcp_pool := pool, ex_io := w\<rparr>)))
         | None \<Rightarrow> Inr (0, ex)))
      else if handle_pool_id handle = CONN_HANDLER then
        andThen (object_pool_get_mut (ex_conn_pool ex) handle) (\<lambda>r.
        (case r of
           Some conn_handler \<Rightarrow>
             andThen (conn_process_event (host_profile host) (host_memory host (ex_io ex))
                        conn_handler (ctx_of ex) reason) (\<lambda>(conn_handler, ctx).
             andThen (object_pool_store handle conn_handler (ex_conn_pool ex)) (\<lambda>pool.
             Inr (ctx_len ctx, (ctx_back ctx ex)\<lparr>ex_conn_pool := pool\<rparr>)))
         | None \<Rightarrow> Inr (0, ex)))
      else Inl Unreachable)"

definition process_queued :: "'w host \<Rightarrow> run_queue_event \<Rightarrow> 'w executor \<Rightarrow> 'w executor outcome" where
  "process_queued host event ex =
     andThen (dispatch host (rq_reason event) (rq_handle event) ex) (\<lambda>(intents, ex).
     complete_intent host intents (rq_handle event) ex)"

text \<open>\<open>while let Some(event) = self.run_queues[self.current_run_queue].pop()\<close>.\<close>

partial_function (option) drain_run_queue ::
  "'w host \<Rightarrow> 'w executor \<Rightarrow> 'w executor outcome option" where
  "drain_run_queue host ex =
     (case run_queue_pop (ex_current ex) ex of
        Inl f \<Rightarrow> Some (Inl f)
      | Inr (r, ex) \<Rightarrow>
          (case r of
             None \<Rightarrow> Some (Inr ex)
           | Some event \<Rightarrow>
               (case process_queued host event ex of
                  Inl f \<Rightarrow> Some (Inl f)
                | Inr ex \<Rightarrow> drain_run_queue host ex)))"

text \<open>\<open>while let Some(cqe) = self.io.completion().next()\<close>, into run queue \<open>i\<close>.\<close>

partial_function (option) drain_completions ::
  "'w host \<Rightarrow> usize \<Rightarrow> 'w executor \<Rightarrow> 'w executor outcome option" where
  "drain_completions host i ex =
     (case io_completion_next (host_io host) (ex_io ex) of
        (r, w) \<Rightarrow>
          (case r of
             None \<Rightarrow> Some (Inr (ex\<lparr>ex_io := w\<rparr>))
           | Some cqe \<Rightarrow>
               (case run_queue_push i
                       \<lparr>rq_reason = IoCompleted (cqe_result cqe) (cqe_flags cqe),
                        rq_handle = handle_from_u64 (cqe_user_data cqe)\<rparr> (ex\<lparr>ex_io := w\<rparr>) of
                  Inl f \<Rightarrow> Some (Inl f)
                | Inr ex \<Rightarrow> drain_completions host i ex)))"

definition executor_wait :: "'w host \<Rightarrow> 'w executor \<Rightarrow> 'w executor outcome" where
  "executor_wait host ex =
     andThen (io_submit_and_wait (host_io host) 1 (ex_io ex)) (\<lambda>(r, w).
     andThen (unwrap_result r) (\<lambda>_. Inr (ex\<lparr>ex_io := w\<rparr>)))"

text \<open>One turn of \<open>loop { .. }\<close>.\<close>

definition executor_tick :: "'w host \<Rightarrow> 'w executor \<Rightarrow> 'w executor outcome option" where
  "executor_tick host ex =
     (case drain_run_queue host ex of
        None \<Rightarrow> None
      | Some r \<Rightarrow>
          (case andThen r (executor_wait host) of
             Inl f \<Rightarrow> Some (Inl f)
           | Inr ex \<Rightarrow>
               (case next_run_queue_idx (host_profile host) ex of
                  Inl f \<Rightarrow> Some (Inl f)
                | Inr i \<Rightarrow>
                    (case drain_completions host i ex of
                       None \<Rightarrow> None
                     | Some r \<Rightarrow> Some (andThen r (switch_run_queue (host_profile host)))))))"

fun executor_ticks :: "nat \<Rightarrow> 'w host \<Rightarrow> 'w executor \<Rightarrow> 'w executor outcome option" where
  "executor_ticks 0 host ex = Some (Inr ex)"
| "executor_ticks (Suc n) host ex =
     (case executor_tick host ex of
        Some (Inr ex) \<Rightarrow> executor_ticks n host ex
      | r \<Rightarrow> r)"

text \<open>\<open>run\<close>, up to the \<open>n\<close>-th turn of its endless loop.\<close>

definition executor_run ::
  "nat \<Rightarrow> alloc_env \<Rightarrow> 'w host \<Rightarrow> 'w executor \<Rightarrow> 'w executor outcome option" where
  "executor_run n env host ex =
     (case andThen (executor_setup env host ex) (\<lambda>(r, ex).
             andThen (unwrap_result r) (\<lambda>_. seed_run_queue ex)) of
        Inl f \<Rightarrow> Some (Inl f)
      | Inr ex \<Rightarrow> executor_ticks n host ex)"

lemmas executor_defs [run_defs] = executor_new_def next_run_queue_idx_def switch_run_queue_def
  run_queue_push_def run_queue_pop_def seed_run_queue_def executor_setup_def io_submit_def
  complete_one_def complete_intent_def ctx_of_def ctx_back_def dispatch_def process_queued_def
  executor_wait_def executor_tick_def executor_run_def

end
