(* ===== verification/Executor_Invariant.thy ===== *)
theory Executor_Invariant
  imports Executor
begin

text \<open>
  The invariant of the event loop and its preservation by every step: the two run queues and the
  pools are well formed, and the connection machines share out exactly the live receive buffers.
  Every lemma is for a build with overflow checks (\<open>host_profile host = Checked\<close>), where a
  generation counter cannot wrap around.
\<close>

definition exec_ok :: "'w executor \<Rightarrow> bool" where
  "exec_ok ex \<longleftrightarrow>
     length (ex_run_queues ex) = 2 \<and> (\<forall>q \<in> set (ex_run_queues ex). rb_ok q) \<and>
     ex_current ex < 2 \<and> length (ex_intents ex) = INTENT_SLOTS \<and>
     op_ok (ex_tcp_pool ex) \<and> op_ok (ex_conn_pool ex) \<and>
     conn.shares {} (ex_io_bufs ex) (op_map (ex_conn_pool ex))"

text \<open>The events waiting in run queue \<open>i\<close>, and the capacity of that queue.\<close>

definition ex_queue :: "usize \<Rightarrow> 'w executor \<Rightarrow> run_queue_event list" where
  "ex_queue i ex = rb_list (ex_run_queues ex ! i)"

definition ex_queue_cap :: "usize \<Rightarrow> 'w executor \<Rightarrow> nat" where
  "ex_queue_cap i ex = rb_size (ex_run_queues ex ! i)"

lemma exec_ok_queue: "exec_ok ex \<Longrightarrow> i < 2 \<Longrightarrow> rb_ok (ex_run_queues ex ! i)"
  by (simp add: exec_ok_def)

lemma exec_ok_io [simp]: "exec_ok (ex\<lparr>ex_io := w\<rparr>) = exec_ok ex"
  by (simp add: exec_ok_def)

lemma ex_queue_io [simp]: "ex_queue i (ex\<lparr>ex_io := w\<rparr>) = ex_queue i ex"
  by (simp add: ex_queue_def)

lemma exec_ok_queue_update:
  assumes "exec_ok ex" and "rb_ok q"
  shows "exec_ok (ex\<lparr>ex_run_queues := (ex_run_queues ex)[i := q]\<rparr>)"
  using assms by (auto simp: exec_ok_def dest: set_update_subset_insert [THEN subsetD])

section \<open>Queue steps\<close>

lemma run_queue_push_cases:
  assumes ok: "exec_ok ex" and i: "i < 2"
  obtains (pushed) ex' where "run_queue_push i e ex = Inr ex'" "exec_ok ex'"
      "ex_queue i ex' = ex_queue i ex @ [e]" "\<And>j. j \<noteq> i \<Longrightarrow> ex_queue j ex' = ex_queue j ex"
      "\<And>j. ex_queue_cap j ex' = ex_queue_cap j ex" "ex_current ex' = ex_current ex"
      "ex_conn_pool ex' = ex_conn_pool ex" "ex_tcp_pool ex' = ex_tcp_pool ex"
      "ex_io_bufs ex' = ex_io_bufs ex" "ex_io ex' = ex_io ex" "ex_intents ex' = ex_intents ex"
      "length (ex_queue i ex) < ex_queue_cap i ex"
  | (full) "run_queue_push i e ex = Inl UnwrapFailed" "length (ex_queue i ex) = ex_queue_cap i ex"
proof -
  let ?q = "ex_run_queues ex ! i"
  have len: "length (ex_run_queues ex) = 2" using ok by (simp add: exec_ok_def)
  have q: "rb_ok ?q" using exec_ok_queue [OF ok i] .
  show thesis
  proof (cases rule: rb.enq_cases [OF q, of e, case_names accepted rejected])
    case (accepted q')
    let ?ex' = "ex\<lparr>ex_run_queues := (ex_run_queues ex)[i := q']\<rparr>"
    have "run_queue_push i e ex = Inr ?ex'"
      using accepted i len by (simp add: run_queue_push_def)
    then show thesis
      by (rule pushed)
        (use accepted i len ok in \<open>auto simp: ex_queue_def ex_queue_cap_def nth_list_update
          intro: exec_ok_queue_update\<close>)
  next
    case rejected
    with i len show thesis
      by (intro full) (simp_all add: run_queue_push_def ex_queue_def ex_queue_cap_def)
  qed
qed

lemma run_queue_push_safe: "exec_ok ex \<Longrightarrow> i < 2 \<Longrightarrow> safe (run_queue_push i e ex)"
  by (rule run_queue_push_cases [of ex i e]) auto

lemma run_queue_pop_cases:
  assumes ok: "exec_ok ex" and i: "i < 2"
  obtains (none) "run_queue_pop i ex = Inr (None, ex)" "ex_queue i ex = []"
  | (some) e ex' where "run_queue_pop i ex = Inr (Some e, ex')" "exec_ok ex'"
      "ex_queue i ex = e # ex_queue i ex'" "ex_current ex' = ex_current ex"
      "\<And>j. j \<noteq> i \<Longrightarrow> ex_queue j ex' = ex_queue j ex" "ex_conn_pool ex' = ex_conn_pool ex"
      "ex_tcp_pool ex' = ex_tcp_pool ex" "ex_io_bufs ex' = ex_io_bufs ex" "ex_io ex' = ex_io ex"
      "\<And>j. ex_queue_cap j ex' = ex_queue_cap j ex"
proof -
  let ?q = "ex_run_queues ex ! i"
  have len: "length (ex_run_queues ex) = 2" using ok by (simp add: exec_ok_def)
  have q: "rb_ok ?q" using exec_ok_queue [OF ok i] .
  show thesis
  proof (cases rule: rb.deq_cases [OF q, case_names none some])
    case n: none
    with i len show thesis
      by (intro none) (simp_all add: run_queue_pop_def ex_queue_def)
  next
    case s: (some e q')
    let ?ex' = "ex\<lparr>ex_run_queues := (ex_run_queues ex)[i := q']\<rparr>"
    have "run_queue_pop i ex = Inr (Some e, ?ex')"
      using s i len by (simp add: run_queue_pop_def)
    then show thesis
      by (rule some) (use s i len ok in \<open>auto simp: ex_queue_def ex_queue_cap_def nth_list_update
        intro: exec_ok_queue_update\<close>)
  qed
qed

lemma next_run_queue_idx_ok:
  "exec_ok ex \<Longrightarrow> next_run_queue_idx pr ex = Inr (1 - ex_current ex)"
  by (simp add: next_run_queue_idx_def usize_sub_def exec_ok_def)

lemma switch_run_queue_ok:
  "exec_ok ex \<Longrightarrow> \<exists>ex'. switch_run_queue pr ex = Inr ex' \<and> exec_ok ex'"
  by (auto simp: switch_run_queue_def usize_sub_def exec_ok_def)

section \<open>The host\<close>

text \<open>What the loop relies on: the I/O operations themselves meet no undefined behaviour.\<close>

definition host_safe :: "'w host \<Rightarrow> bool" where
  "host_safe host \<longleftrightarrow>
     (\<forall>e w. safe (io_enqueue (host_io host) e w)) \<and>
     (\<forall>n w. safe (io_submit_and_wait (host_io host) n w)) \<and>
     (\<forall>n w. safe (io_register_files (host_io host) n w)) \<and>
     (\<forall>v w. safe (io_register_buffers (host_io host) v w))"

lemma map_os_error_safe [simp]: "safe (map_os_error p)"
  by (cases p) (auto simp: map_os_error_def intro!: safe_andThen split: sum.split)

lemma uring_host_safe:
  assumes "host_io host = uring_io ring"
  shows "host_safe host"
  by (simp add: host_safe_def assms uring_io_def uring_enqueue_def uring_submit_and_wait_def
      uring_register_files_def uring_register_buffers_def Let_def split: prod.split sum.split)

lemma io_submit_Inr:
  "io_submit host e ex = Inr ex' \<Longrightarrow> \<exists>w. ex' = ex\<lparr>ex_io := w\<rparr>"
  by (auto simp: io_submit_def andThen_eq_Inr)

lemma io_submit_safe: "host_safe host \<Longrightarrow> safe (io_submit host e ex)"
  by (auto simp: io_submit_def host_safe_def intro!: safe_andThen)


section \<open>Intents\<close>

lemma io_submit_ensures:
  "host_safe host \<Longrightarrow> ensures (io_submit host e ex) (\<lambda>ex'. \<exists>w. ex' = ex\<lparr>ex_io := w\<rparr>)"
  by (rule ensuresI) (auto intro: io_submit_safe dest: io_submit_Inr)

text \<open>The work an event brings: an accept may add one spawn event to the queue being drained.\<close>

definition event_weight :: "run_queue_event \<Rightarrow> nat" where
  "event_weight e = (if handle_pool_id (rq_handle e) = TCP_SERVER then 2 else 1)"

definition queue_weight :: "'w executor \<Rightarrow> nat" where
  "queue_weight ex = sum_list (map event_weight (ex_queue (ex_current ex) ex))"

text \<open>Intents that only submit an I/O request.\<close>

definition io_intent :: "machine_intent \<Rightarrow> bool" where
  "io_intent i \<longleftrightarrow> conn_io_intent i \<or> (\<exists>d. i = SubmitMultishotAccept d)"

lemma complete_io_intent:
  assumes ok: "exec_ok ex" and host: "host_safe host" and i: "io_intent i"
  shows "ensures (complete_one host handle i ex) (\<lambda>ex'. \<exists>w. ex' = ex\<lparr>ex_io := w\<rparr>)"
proof (cases i)
  case (SubmitRecv f h off)
  have bufs: "bp_ok POOL_BUF_SIZE (ex_io_bufs ex)"
    using ok by (simp add: exec_ok_def conn.shares_def)
  have from_safe: "ensures (slice_from s n) (\<lambda>_. True)" for s n
    by (simp add: slice_from_def)
  have get: "ensures (buffer_pool_get_mut POOL_BUF_SIZE (ex_io_bufs ex) h) (\<lambda>_. True)"
    using buffer_pool_get_total(2) [OF bufs, of h] by auto
  show ?thesis
    unfolding complete_one_def SubmitRecv machine_intent.case Let_def
    by (intro ensures_assert ensures_andThen [OF get] ensures_unwrap_option
        ensures_andThen [OF from_safe] io_submit_ensures [OF host])
qed (use i host in \<open>auto simp: io_intent_def complete_one_def intro: io_submit_ensures\<close>)

lemma complete_spawn:
  assumes ok: "exec_ok ex"
  shows "ensures (complete_one host handle (SpawnConnHandler f) ex)
    (\<lambda>ex'. exec_ok ex' \<and> ex_current ex' = ex_current ex \<and> queue_weight ex' = Suc (queue_weight ex))"
proof -
  let ?new = "conn_new (case f of Fixed d \<Rightarrow> d)"
  have pool: "op_ok (ex_conn_pool ex)" and cur: "ex_current ex < 2"
    using ok by (simp_all add: exec_ok_def)
  show ?thesis
  proof (cases "ga_free (op_alloc (ex_conn_pool ex))")
    case Nil
    from object_pool_spawn_full [OF pool Nil] show ?thesis by (simp add: complete_one_def)
  next
    case (Cons idx rest)
    from object_pool_spawn_room [OF pool Cons, of CONN_HANDLER ?new] obtain gid p where
      p: "object_pool_spawn CONN_HANDLER ?new (ex_conn_pool ex) = Inr (Some (handle_new CONN_HANDLER gid), p)"
        "op_ok p" "unat (gid_index gid) < 2 ^ 24" "gid \<notin> ga_live (op_alloc (ex_conn_pool ex))"
        "op_map p = (op_map (ex_conn_pool ex))(gid \<mapsto> ?new)"
      by blast
    have "conn.shares {} (ex_io_bufs ex) (op_map p)"
      unfolding p(5)
      by (rule conn.shares_spawn)
        (use ok p(4) in \<open>auto simp: exec_ok_def op_map_def conn_ok_def conn_owned_def conn_new_def\<close>)
    with ok p have ok': "exec_ok (ex\<lparr>ex_conn_pool := p\<rparr>)" by (simp add: exec_ok_def)
    let ?e = "\<lparr>rq_reason = Spawn, rq_handle = handle_new CONN_HANDLER gid\<rparr>"
    have weight: "event_weight ?e = 1"
      using p(3) by (simp add: event_weight_def handle_pack_pool_id)
    have same: "ex_queue i (ex\<lparr>ex_conn_pool := p\<rparr>) = ex_queue i ex" for i
      by (simp add: ex_queue_def)
    show ?thesis
    proof (cases rule: run_queue_push_cases [OF ok' cur, of ?e, case_names pushed full])
      case (pushed ex')
      then show ?thesis
        using p(1) weight by (simp add: complete_one_def queue_weight_def same)
    next
      case full
      then show ?thesis using p(1) by (simp add: complete_one_def)
    qed
  qed
qed

lemma complete_retry:
  assumes ok: "exec_ok ex"
  shows "ensures (complete_one host handle Retry ex)
    (\<lambda>ex'. exec_ok ex' \<and> ex_current ex' = ex_current ex \<and> queue_weight ex' = queue_weight ex)"
proof -
  have "ex_current ex < 2" using ok by (simp add: exec_ok_def)
  then have cur: "1 - ex_current ex < 2" "1 - ex_current ex \<noteq> ex_current ex"
    by presburger+
  show ?thesis
    by (cases rule: run_queue_push_cases [OF ok cur(1), of "\<lparr>rq_reason = Spawn, rq_handle = handle\<rparr>",
          case_names pushed full])
      (use cur in \<open>simp_all add: complete_one_def next_run_queue_idx_ok [OF ok] queue_weight_def\<close>)
qed

lemma complete_terminate:
  assumes ok: "exec_ok ex" and prof: "host_profile host = Checked"
    and handle: "handle_pool_id handle = CONN_HANDLER"
    and closed: "op_map (ex_conn_pool ex) (handle_gid handle) = Some ch" "ch_state ch = Closed"
  shows "ensures (complete_one host handle Terminate ex)
    (\<lambda>ex'. exec_ok ex' \<and> ex_current ex' = ex_current ex \<and> queue_weight ex' = queue_weight ex)"
proof -
  have pool: "op_ok (ex_conn_pool ex)" using ok by (simp add: exec_ok_def)
  have live: "handle_gid handle \<in> ga_live (op_alloc (ex_conn_pool ex))"
    using closed(1) by (simp add: op_map_def split: if_splits)
  from object_pool_despawn_live [OF pool live] show ?thesis
  proof (elim disjE exE)
    fix p assume p: "object_pool_despawn Checked handle (ex_conn_pool ex) = Inr (True, p) \<and> op_ok p \<and>
      ga_live (op_alloc p) = ga_live (op_alloc (ex_conn_pool ex)) - {handle_gid handle} \<and>
      ga_dead (op_alloc p) = insert (handle_gid handle) (ga_dead (op_alloc (ex_conn_pool ex))) \<and>
      op_cap p = op_cap (ex_conn_pool ex) \<and>
      op_map p = (op_map (ex_conn_pool ex))(handle_gid handle := None)"
    have "conn.shares {} (ex_io_bufs ex) ((op_map (ex_conn_pool ex))(handle_gid handle := None))"
      by (rule conn.shares_remove [where k = "handle_gid handle" and m = ch])
        (use ok closed in \<open>auto simp: exec_ok_def conn_owned_def\<close>)
    with ok p have "exec_ok (ex\<lparr>ex_conn_pool := p\<rparr>)" by (simp add: exec_ok_def)
    with p handle prof show ?thesis
      by (simp add: complete_one_def queue_weight_def ex_queue_def)
  qed (simp add: complete_one_def handle prof)
qed


section \<open>Dispatching an event\<close>

text \<open>
  What the intents of one event can be, given the machine's state after it: those of the listener,
  or those of a connection.
\<close>

definition is_spawn_intent :: "machine_intent \<Rightarrow> bool" where
  "is_spawn_intent i \<longleftrightarrow> (\<exists>f. i = SpawnConnHandler f)"

definition intents_fit :: "object_handle \<Rightarrow> machine_intent list \<Rightarrow> 'w executor \<Rightarrow> bool" where
  "intents_fit handle new ex \<longleftrightarrow>
     (handle_pool_id handle = TCP_SERVER \<and> (\<forall>i \<in> set new. io_intent i \<or> is_spawn_intent i) \<and>
        length (filter is_spawn_intent new) \<le> 1) \<or>
     (\<forall>i \<in> set new. io_intent i) \<or> new = [Retry] \<or>
     (new = [Terminate] \<and> handle_pool_id handle = CONN_HANDLER \<and>
        (\<exists>ch. op_map (ex_conn_pool ex) (handle_gid handle) = Some ch \<and> ch_state ch = Closed))"

definition dispatched ::
  "object_handle \<Rightarrow> 'w executor \<Rightarrow> nat \<Rightarrow> 'w executor \<Rightarrow> machine_intent list \<Rightarrow> bool" where
  "dispatched handle ex n ex' new \<longleftrightarrow>
     exec_ok ex' \<and> ex_run_queues ex' = ex_run_queues ex \<and> ex_current ex' = ex_current ex \<and>
     n = length new \<and> n \<le> INTENT_SLOTS \<and> take n (ex_intents ex') = map Some new \<and>
     intents_fit handle new ex'"

lemma dispatched_none:
  assumes "exec_ok ex"
  shows "dispatched handle ex 0 ex []"
  using assms by (simp add: dispatched_def intents_fit_def)

lemma emits_ctx_of:
  assumes "emits new (ctx_of ex) ctx" and "exec_ok ex" and "length new \<le> 2"
  shows "ctx_len ctx = length new" "length (ctx_intents ctx) = INTENT_SLOTS"
    "take (length new) (ctx_intents ctx) = map Some new"
  using assms by (auto simp: emits_def ctx_of_def ctx_submitted_def exec_ok_def)

lemma dispatch_tcp:
  assumes ok: "exec_ok ex" and tcp: "handle_pool_id handle = TCP_SERVER"
  shows "ensures (dispatch host reason handle ex) (\<lambda>(n, ex'). \<exists>new. dispatched handle ex n ex' new)"
proof -
  have pool: "op_ok (ex_tcp_pool ex)" using ok by (simp add: exec_ok_def)
  show ?thesis
  proof (cases "op_map (ex_tcp_pool ex) (handle_gid handle)")
    case None
    with tcp object_pool_get_eq [OF pool, of handle] dispatched_none [OF ok] show ?thesis
      by (auto simp: dispatch_def)
  next
    case (Some ts)
    let ?run = "tcp_process_event (host_net host) (host_more_io host) ts (ctx_of ex) reason (ex_io ex)"
    have live: "handle_gid handle \<in> ga_live (op_alloc (ex_tcp_pool ex))"
      using Some by (simp add: op_map_def split: if_splits)
    show ?thesis
    proof (cases ?run)
      case (Inl f)
      with tcp_process_event_safe [of "host_net host" "host_more_io host" ts "ctx_of ex" reason "ex_io ex"]
        tcp object_pool_get_eq [OF pool, of handle] Some
      show ?thesis by (simp add: dispatch_def)
    next
      case (Inr p)
      then obtain ts' ctx w where run: "?run = Inr (ts', ctx, w)" by (cases p) auto
      from tcp_process_event_emits [OF run] obtain new where
        new: "emits new (ctx_of ex) ctx" "length new \<le> 2" "ctx_buffers ctx = ex_io_bufs ex"
          "\<forall>i \<in> set new. io_intent i \<or> is_spawn_intent i"
          "length (filter is_spawn_intent new) \<le> 1"
        by (fastforce simp: io_intent_def is_spawn_intent_def [abs_def] ctx_of_def)
      from object_pool_store_ok [OF pool live, of ts'] obtain q where
        q: "object_pool_store handle ts' (ex_tcp_pool ex) = Inr q" "op_ok q" by blast
      note ctx = emits_ctx_of [OF new(1) ok new(2)]
      let ?ex' = "(ctx_back ctx ex)\<lparr>ex_tcp_pool := q, ex_io := w\<rparr>"
      have "dispatched handle ex (length new) ?ex' new"
        using ok ctx q new tcp by (auto simp: dispatched_def intents_fit_def exec_ok_def ctx_back_def)
      with run q tcp object_pool_get_eq [OF pool, of handle] Some ctx show ?thesis
        by (auto simp: dispatch_def)
    qed
  qed
qed

lemma dispatch_conn:
  assumes ok: "exec_ok ex" and prof: "host_profile host = Checked"
    and conn: "handle_pool_id handle = CONN_HANDLER"
  shows "ensures (dispatch host reason handle ex) (\<lambda>(n, ex'). \<exists>new. dispatched handle ex n ex' new)"
proof -
  have pool: "op_ok (ex_conn_pool ex)" and sh: "conn.shares {} (ex_io_bufs ex) (op_map (ex_conn_pool ex))"
    using ok by (simp_all add: exec_ok_def)
  show ?thesis
  proof (cases "op_map (ex_conn_pool ex) (handle_gid handle)")
    case None
    with conn object_pool_get_eq [OF pool, of handle] dispatched_none [OF ok] show ?thesis
      by (auto simp: dispatch_def)
  next
    case (Some ch)
    let ?run = "conn_process_event Checked (host_memory host (ex_io ex)) ch (ctx_of ex) reason"
    have live: "handle_gid handle \<in> ga_live (op_alloc (ex_conn_pool ex))"
      using Some by (simp add: op_map_def split: if_splits)
    have bufs: "bp_ok POOL_BUF_SIZE (ctx_buffers (ctx_of ex))" "conn_ok (ctx_buffers (ctx_of ex)) ch"
      using sh Some by (auto simp: conn.shares_def ctx_of_def)
    show ?thesis
    proof (cases ?run)
      case (Inl f)
      with conn_process_event_safe [OF bufs, of "host_memory host (ex_io ex)" reason] conn prof
        object_pool_get_eq [OF pool, of handle] Some
      show ?thesis by (simp add: dispatch_def)
    next
      case (Inr p)
      then obtain ch' ctx where run: "?run = Inr (ch', ctx)" by (cases p) auto
      then have step: "conn_step ch (ctx_of ex) ch' ctx" by (auto simp: conn_step_def)
      from conn_process_event_intents [OF run] obtain new where
        new: "emits new (ctx_of ex) ctx" "length new \<le> 2"
        and kind: "(\<forall>i \<in> set new. io_intent i) \<or> new = [Retry] \<or> new = [Terminate] \<and> ch_state ch' = Closed"
        by (elim disjE) (force simp: emits_io_def io_intent_def)+
      from object_pool_store_ok [OF pool live, of ch'] obtain q where
        q: "object_pool_store handle ch' (ex_conn_pool ex) = Inr q" "op_ok q"
          "op_map q = (op_map (ex_conn_pool ex))(handle_gid handle \<mapsto> ch')" by blast
      have sh': "conn.shares {} (ctx_buffers ctx) (op_map q)"
        unfolding q(3)
        by (rule conn.shares_step [where ctx = "ctx_of ex" and m = ch])
          (use sh Some step in \<open>simp_all add: ctx_of_def\<close>)
      note ctx = emits_ctx_of [OF new(1) ok new(2)]
      let ?ex' = "(ctx_back ctx ex)\<lparr>ex_conn_pool := q\<rparr>"
      have "dispatched handle ex (length new) ?ex' new"
        using sh' ctx ok q new conn kind
        by (auto simp: dispatched_def intents_fit_def exec_ok_def ctx_back_def)
      with run q conn prof object_pool_get_eq [OF pool, of handle] Some ctx show ?thesis
        by (auto simp: dispatch_def)
    qed
  qed
qed

lemma dispatch_ensures:
  assumes "exec_ok ex" and "host_profile host = Checked"
  shows "ensures (dispatch host reason handle ex) (\<lambda>(n, ex'). \<exists>new. dispatched handle ex n ex' new)"
proof -
  consider (tcp) "handle_pool_id handle = TCP_SERVER" | (conn) "handle_pool_id handle = CONN_HANDLER"
    | (other) "handle_pool_id handle \<noteq> TCP_SERVER" "handle_pool_id handle \<noteq> CONN_HANDLER" by blast
  then show ?thesis
  proof cases
    case tcp
    with assms show ?thesis by (intro dispatch_tcp)
  next
    case conn
    with assms show ?thesis by (intro dispatch_conn)
  qed (simp add: dispatch_def)
qed


section \<open>Completing the intents\<close>

definition advanced :: "'w executor \<Rightarrow> nat \<Rightarrow> 'w executor \<Rightarrow> bool" where
  "advanced ex k ex' \<longleftrightarrow>
     exec_ok ex' \<and> ex_current ex' = ex_current ex \<and> queue_weight ex' \<le> queue_weight ex + k"

lemma advanced_refl: "exec_ok ex \<Longrightarrow> advanced ex 0 ex"
  by (simp add: advanced_def)

lemma advanced_io: "exec_ok ex \<Longrightarrow> advanced ex 0 (ex\<lparr>ex_io := w\<rparr>)"
  by (simp add: advanced_def queue_weight_def)

lemma advanced_trans: "advanced a j b \<Longrightarrow> advanced b k c \<Longrightarrow> advanced a (j + k) c"
  by (simp add: advanced_def)

lemma complete_list_ensures:
  assumes "exec_ok ex" and "host_safe host" and "\<forall>i \<in> set new. io_intent i \<or> is_spawn_intent i"
  shows "ensures (complete_list host handle (map Some new) ex)
    (advanced ex (length (filter is_spawn_intent new)))"
  using assms
proof (induction new arbitrary: ex)
  case Nil
  then show ?case by (simp add: advanced_refl)
next
  case (Cons i new)
  have not_both: "io_intent i \<Longrightarrow> \<not> is_spawn_intent i"
    by (auto simp: io_intent_def is_spawn_intent_def)
  have one: "ensures (complete_one host handle i ex) (advanced ex (if is_spawn_intent i then 1 else 0))"
  proof (cases "is_spawn_intent i")
    case True
    then obtain f where "i = SpawnConnHandler f" by (auto simp: is_spawn_intent_def)
    with complete_spawn [OF Cons.prems(1), of host handle f] True show ?thesis
      by (auto elim!: ensures_mono simp: advanced_def)
  next
    case False
    with Cons.prems have "io_intent i" by simp
    from complete_io_intent [OF Cons.prems(1,2) this, of handle] False advanced_io [OF Cons.prems(1)]
    show ?thesis by (auto elim!: ensures_mono)
  qed
  have "ensures (andThen (complete_one host handle i ex) (complete_list host handle (map Some new)))
      (advanced ex ((if is_spawn_intent i then 1 else 0) + length (filter is_spawn_intent new)))"
  proof (rule ensures_andThen [OF one])
    fix ex' assume step: "advanced ex (if is_spawn_intent i then 1 else 0) ex'"
    then have "exec_ok ex'" by (simp add: advanced_def)
    with Cons have "ensures (complete_list host handle (map Some new) ex')
        (advanced ex' (length (filter is_spawn_intent new)))" by simp
    then show "ensures (complete_list host handle (map Some new) ex')
        (advanced ex ((if is_spawn_intent i then 1 else 0) + length (filter is_spawn_intent new)))"
      by (rule ensures_mono) (rule advanced_trans [OF step])
  qed
  then show ?case by (cases "is_spawn_intent i") simp_all
qed

text \<open>
  The intents of one event add less weight than the event had: at most one spawn event for an
  accept, nothing for a connection's event.
\<close>

lemma complete_intent_ensures:
  assumes d: "dispatched handle ex n ex' new" and host: "host_safe host" "host_profile host = Checked"
  shows "ensures (complete_intent host n handle ex')
    (advanced ex' (if handle_pool_id handle = TCP_SERVER then 1 else 0))"
proof -
  have ok: "exec_ok ex'" and fit: "intents_fit handle new ex'"
    and run: "complete_intent host n handle ex' = complete_list host handle (map Some new) ex'"
    using d by (auto simp: dispatched_def complete_intent_def exec_ok_def)
  have weaken: "ensures m (advanced ex' j) \<Longrightarrow> j \<le> k \<Longrightarrow> ensures m (advanced ex' k)" for m j k
    by (erule ensures_mono) (simp add: advanced_def)
  have quiet: ?thesis if "ensures (complete_one host handle i ex')
      (\<lambda>x. exec_ok x \<and> ex_current x = ex_current ex' \<and> queue_weight x = queue_weight ex')"
    and "new = [i]" for i
  proof -
    have "complete_list host handle [] = Inr" by (rule ext) simp
    then have one: "complete_list host handle (map Some new) ex' = andThen (complete_one host handle i ex') Inr"
      by (simp add: that(2))
    have "ensures (andThen (complete_one host handle i ex') Inr) (advanced ex' 0)"
      by (rule ensures_andThen [OF that(1)]) (simp add: advanced_def)
    then show ?thesis unfolding run one by (rule weaken) simp
  qed
  from fit consider
      (accept) "handle_pool_id handle = TCP_SERVER" "\<forall>i \<in> set new. io_intent i \<or> is_spawn_intent i"
        "length (filter is_spawn_intent new) \<le> 1"
    | (io) "\<forall>i \<in> set new. io_intent i" | (retry) "new = [Retry]"
    | (terminate) ch where "new = [Terminate]" "handle_pool_id handle = CONN_HANDLER"
        "op_map (ex_conn_pool ex') (handle_gid handle) = Some ch" "ch_state ch = Closed"
    unfolding intents_fit_def by blast
  then show ?thesis
  proof cases
    case accept
    with weaken [OF complete_list_ensures [OF ok host(1) accept(2), of handle], of 1] show ?thesis
      by (simp add: run)
  next
    case io
    then have "filter is_spawn_intent new = []"
      by (auto simp: filter_empty_conv io_intent_def is_spawn_intent_def)
    moreover have "ensures (complete_list host handle (map Some new) ex')
        (advanced ex' (length (filter is_spawn_intent new)))"
      by (rule complete_list_ensures [OF ok host(1)]) (use io in blast)
    ultimately have "ensures (complete_list host handle (map Some new) ex') (advanced ex' 0)"
      by simp
    then show ?thesis unfolding run by (rule weaken) simp
  next
    case retry
    with quiet [OF complete_retry [OF ok]] show ?thesis by simp
  next
    case terminate
    from quiet [OF complete_terminate [OF ok host(2) terminate(2,3,4)] terminate(1)] show ?thesis .
  qed
qed

lemma process_queued_ensures:
  assumes ok: "exec_ok ex" and host: "host_safe host" "host_profile host = Checked"
  shows "ensures (process_queued host e ex)
    (\<lambda>ex'. exec_ok ex' \<and> ex_current ex' = ex_current ex \<and>
       queue_weight ex' < queue_weight ex + event_weight e)"
proof -
  have "ensures (andThen (dispatch host (rq_reason e) (rq_handle e) ex)
        (\<lambda>(intents, ex). complete_intent host intents (rq_handle e) ex))
      (\<lambda>ex'. exec_ok ex' \<and> ex_current ex' = ex_current ex \<and>
        queue_weight ex' < queue_weight ex + event_weight e)"
  proof (rule ensures_andThen [OF dispatch_ensures [OF ok host(2)]], clarify)
    fix n ex1 new assume d: "dispatched (rq_handle e) ex n ex1 new"
    then have same: "ex_current ex1 = ex_current ex" "queue_weight ex1 = queue_weight ex"
      by (simp_all add: dispatched_def queue_weight_def ex_queue_def)
    show "ensures (complete_intent host n (rq_handle e) ex1)
        (\<lambda>ex'. exec_ok ex' \<and> ex_current ex' = ex_current ex \<and>
          queue_weight ex' < queue_weight ex + event_weight e)"
      by (rule ensures_mono [OF complete_intent_ensures [OF d host]])
        (use same in \<open>auto simp: advanced_def event_weight_def split: if_splits\<close>)
  qed
  then show ?thesis by (simp add: process_queued_def)
qed


section \<open>The loops\<close>

text \<open>
  Draining the current queue ends: every event takes away more weight than it adds. The invariant
  holds after it, and no step met undefined behaviour.
\<close>

lemma drain_run_queue_total:
  assumes "exec_ok ex" and host: "host_safe host" "host_profile host = Checked"
  shows "\<exists>r. drain_run_queue host ex = Some r \<and>
    ensures r (\<lambda>ex'. exec_ok ex' \<and> ex_current ex' = ex_current ex \<and> ex_queue (ex_current ex) ex' = [])"
  using assms(1)
proof (induction "queue_weight ex" arbitrary: ex rule: less_induct)
  case less
  have cur: "ex_current ex < 2" using less.prems by (simp add: exec_ok_def)
  show ?case
  proof (cases rule: run_queue_pop_cases [OF less.prems cur, case_names none some])
    case none
    then have "drain_run_queue host ex = Some (Inr ex)"
      by (subst drain_run_queue.simps) simp
    with less.prems none show ?thesis by simp
  next
    case (some e ex')
    then have weight: "queue_weight ex = queue_weight ex' + event_weight e"
      by (simp add: queue_weight_def)
    have unfold: "drain_run_queue host ex = (case process_queued host e ex' of
        Inl f \<Rightarrow> Some (Inl f) | Inr ex \<Rightarrow> drain_run_queue host ex)"
      using some by (subst drain_run_queue.simps) simp
    note step = process_queued_ensures [OF some(2) host, of e]
    show ?thesis
    proof (cases "process_queued host e ex'")
      case (Inl f)
      with step show ?thesis by (simp add: unfold)
    next
      case (Inr ex2)
      from ensuresD [OF step Inr] have "exec_ok ex2" "ex_current ex2 = ex_current ex"
        "queue_weight ex2 < queue_weight ex"
        using weight some by auto
      with less.hyps [of ex2] Inr show ?thesis by (simp add: unfold)
    qed
  qed
qed

text \<open>Draining the completions ends, since every completion takes a place of the other queue.\<close>

lemma drain_completions_total:
  assumes "exec_ok ex" and i: "i < 2"
  shows "\<exists>r. drain_completions host i ex = Some r \<and>
    ensures r (\<lambda>ex'. exec_ok ex' \<and> ex_current ex' = ex_current ex)"
  using assms(1)
proof (induction "ex_queue_cap i ex - length (ex_queue i ex)" arbitrary: ex rule: less_induct)
  case less
  obtain r w where next_cqe: "io_completion_next (host_io host) (ex_io ex) = (r, w)"
    by (cases "io_completion_next (host_io host) (ex_io ex)")
  show ?case
  proof (cases r)
    case None
    with next_cqe have "drain_completions host i ex = Some (Inr (ex\<lparr>ex_io := w\<rparr>))"
      by (subst drain_completions.simps) simp
    with less.prems show ?thesis by simp
  next
    case (Some c)
    let ?e = "\<lparr>rq_reason = IoCompleted (cqe_result c) (cqe_flags c),
      rq_handle = handle_from_u64 (cqe_user_data c)\<rparr>"
    have unfold: "drain_completions host i ex = (case run_queue_push i ?e (ex\<lparr>ex_io := w\<rparr>) of
        Inl f \<Rightarrow> Some (Inl f) | Inr ex \<Rightarrow> drain_completions host i ex)"
      using next_cqe Some by (subst drain_completions.simps) simp
    have ok: "exec_ok (ex\<lparr>ex_io := w\<rparr>)" using less.prems by simp
    show ?thesis
    proof (cases rule: run_queue_push_cases [OF ok i, of ?e, case_names pushed full])
      case (pushed ex')
      then have "ex_queue_cap i ex' - length (ex_queue i ex') < ex_queue_cap i ex - length (ex_queue i ex)"
        by (simp add: ex_queue_cap_def)
      from less.hyps [OF this pushed(2)] pushed show ?thesis by (simp add: unfold)
    next
      case full
      then show ?thesis by (simp add: unfold)
    qed
  qed
qed

lemma executor_tick_total:
  assumes ok: "exec_ok ex" and host: "host_safe host" "host_profile host = Checked"
  shows "\<exists>r. executor_tick host ex = Some r \<and> ensures r exec_ok"
proof -
  from drain_run_queue_total [OF assms] obtain r where
    r: "drain_run_queue host ex = Some r"
    and "ensures r (\<lambda>ex'. exec_ok ex' \<and> ex_current ex' = ex_current ex \<and> ex_queue (ex_current ex) ex' = [])"
    by blast
  from this(2) have inv: "ensures r exec_ok" by (rule ensures_mono) simp
  have wait: "ensures (executor_wait host x) exec_ok" if "exec_ok x" for x
    unfolding executor_wait_def using host(1) that
    by (intro ensures_andThen [where P = "\<lambda>_. True"])
      (auto simp: host_safe_def ensures_def intro!: safe_andThen simp: andThen_eq_Inr)
  have run: "ensures (andThen r (executor_wait host)) exec_ok"
    by (rule ensures_andThen [OF inv]) (rule wait)
  show ?thesis
  proof (cases "andThen r (executor_wait host)")
    case (Inl f)
    with run r show ?thesis by (simp add: executor_tick_def)
  next
    case (Inr ex1)
    with run have ok1: "exec_ok ex1" by simp
    have i: "1 - ex_current ex1 < 2" by simp
    from drain_completions_total [OF ok1 i] obtain r2 where
      r2: "drain_completions host (1 - ex_current ex1) ex1 = Some r2"
      and "ensures r2 (\<lambda>ex'. exec_ok ex' \<and> ex_current ex' = ex_current ex1)"
      by blast
    from this(2) have inv2: "ensures r2 exec_ok" by (rule ensures_mono) simp
    have switch: "ensures (switch_run_queue Checked x) exec_ok" if "exec_ok x" for x
      using switch_run_queue_ok [OF that, of Checked] by auto
    have "ensures (andThen r2 (switch_run_queue Checked)) exec_ok"
      by (rule ensures_andThen [OF inv2]) (rule switch)
    with r r2 Inr host(2) next_run_queue_idx_ok [OF ok1] show ?thesis
      by (simp add: executor_tick_def)
  qed
qed

lemma executor_ticks_total:
  assumes "exec_ok ex" and "host_safe host" and "host_profile host = Checked"
  shows "\<exists>r. executor_ticks n host ex = Some r \<and> ensures r exec_ok"
  using assms(1)
proof (induction n arbitrary: ex)
  case 0
  then show ?case by simp
next
  case (Suc n)
  from executor_tick_total [OF Suc.prems assms(2,3)] obtain r where
    r: "executor_tick host ex = Some r" "ensures r exec_ok" by blast
  with Suc.IH show ?case by (cases r) auto
qed

end
