(* ===== verification/Executor_Start.thy ===== *)
theory Executor_Start
  imports Executor_Invariant
begin

text \<open>
  How the event loop comes up: the constructor establishes the invariant when the allocator keeps
  its contract, registering the buffers and seeding the first run queue keep it, and so \<open>run\<close> is
  memory safe and every turn of its loop ends.
\<close>

lemma executor_new_ok:
  assumes new: "executor_new env io listeners conn_handlers buf_count = Inr ex"
    and contract: "alloc_contract (env_raw env)
      \<lparr>lay_size = unat buf_count * POOL_BUF_SIZE, lay_align = POOL_ALIGN\<rparr>"
  shows "exec_ok ex \<and> ex_io ex = io \<and> ex_current ex = 0 \<and> ex_queue 0 ex = [] \<and> ex_queue 1 ex = [] \<and>
    op_map (ex_tcp_pool ex) = Map.empty \<and> op_map (ex_conn_pool ex) = Map.empty \<and>
    bp_live (ex_io_bufs ex) = {} \<and> bp_cap (ex_io_bufs ex) = unat buf_count \<and>
    ex_queue_cap 0 ex = unat conn_handlers * 2 \<and> ex_queue_cap 1 ex = unat conn_handlers * 2 \<and>
    op_cap (ex_tcp_pool ex) = unat (listeners AND POOL_MASK) \<and>
    op_cap (ex_conn_pool ex) = unat (conn_handlers AND POOL_MASK)"
proof -
  from new obtain tcp_pool conn_pool io_bufs q0 q1 where
    tcp: "object_pool_new (env_oom env) (env_tcp_layout env) listeners = Inr tcp_pool"
    and conn: "object_pool_new (env_oom env) (env_conn_layout env) conn_handlers = Inr conn_pool"
    and bufs: "buffer_pool_new (env_oom env) (env_raw env) POOL_BUF_SIZE POOL_ALIGN buf_count = Inr io_bufs"
    and q0: "rb_new (env_oom env) (env_event_layout env) (unat conn_handlers * 2) = Inr q0"
    and q1: "rb_new (env_oom env) (env_event_layout env) (unat conn_handlers * 2) = Inr q1"
    and ex: "ex = \<lparr>ex_io = io, ex_tcp_pool = tcp_pool, ex_conn_pool = conn_pool, ex_io_bufs = io_bufs,
           ex_run_queues = [q0, q1], ex_intents = replicate INTENT_SLOTS None, ex_current = 0\<rparr>"
    by (auto simp: executor_new_def Let_def outcome_simps)
  note facts = object_pool_new_ok [OF tcp] object_pool_new_ok [OF conn]
    buffer_pool_new_ok [OF bufs contract] rb_new_ok [OF q0] rb_new_ok [OF q1]
  then have "conn.shares {} io_bufs (op_map conn_pool)"
    by (simp add: conn.shares_def)
  with facts show ?thesis
    by (simp add: ex exec_ok_def ex_queue_def ex_queue_cap_def)
qed

section \<open>Setup\<close>

lemma pool_iovecs_ok:
  assumes "aligned_ok ab" and "\<forall>i \<in> set is. i < ab_count ab"
  shows "pool_iovecs ab is =
    Inr (map (\<lambda>i. \<lparr>iov_base = sl_ptr (buf_slice ab i), iov_len = 0x1000\<rparr>) is)"
  using assms(2) by (induction "is") (use buf_ptr_in [OF assms(1)] in simp_all)

lemma take_items_orderly: "orderly (take_items n items) (\<lambda>_. True)"
  by (induction n items rule: take_items.induct) (auto intro: orderly_andThen simp: panics_def)

lemma array_from_fixed_iter_orderly:
  assumes "0 < n" and "0 < lay_size ty"
  shows "orderly (array_from_fixed_iter oom ty n items) (\<lambda>_. True)"
proof -
  have "orderly (alloc_or_abort oom l) (\<lambda>_. True)" if "layout_array ty n = Some l" for l
    using layout_array_Some [OF that] assms by (simp add: alloc_or_abort_def raw_alloc_def panics_def)
  then show ?thesis
    unfolding array_from_fixed_iter_def
    by (intro orderly_assert orderly_unwrap_option) (auto intro!: orderly_andThen [OF _ orderly_andThen [OF take_items_orderly]])
qed

lemma executor_setup_ensures:
  assumes ok: "exec_ok ex" and host: "host_safe host"
  shows "ensures (executor_setup env host ex) (\<lambda>(r, ex'). exec_ok ex')"
proof -
  let ?ab = "bp_pool (ex_io_bufs ex)"
  have ab: "aligned_ok ?ab"
    using ok by (simp add: exec_ok_def conn.shares_def bp_ok_def)
  then have count: "0 < ab_count ?ab" by (auto simp: aligned_ok_def)
  obtain items where items: "pool_iovecs ?ab [0..<ab_count ?ab] = Inr items"
    using pool_iovecs_ok [OF ab, of "[0..<ab_count ?ab]"] by simp
  have deref: "\<exists>vs. array_deref a = Inr vs"
    if "array_from_fixed_iter (env_oom env) iovec_layout (ab_count ?ab) items = Inr a" for a
  proof -
    from array_from_fixed_iter_ok [OF that] have "array_ok a" by blast
    then have "arr_size a \<le> length (arr_cells a)" by (simp add: array_ok_def)
    then show ?thesis by (simp add: array_deref_def)
  qed
  have bufs: "safe (array_from_fixed_iter (env_oom env) iovec_layout (ab_count ?ab) items)"
    using count by (intro orderly_safe [OF array_from_fixed_iter_orderly]) simp_all
  show ?thesis
  proof (rule ensuresI)
    show "safe (executor_setup env host ex)"
      unfolding executor_setup_def Let_def
      using host bufs items deref
      by (auto simp: host_safe_def intro!: safe_andThen split: sum.split)
    show "case x of (r, ex') \<Rightarrow> exec_ok ex'" if "executor_setup env host ex = Inr x" for x
    proof -
      obtain r ex' where x: "x = (r, ex')" by (cases x)
      with that obtain a w where
        a: "io_register_files (host_io host) (object_pool_capacity (ex_conn_pool ex)) (ex_io ex) = Inr (a, w)"
        by (auto simp: executor_setup_def outcome_simps)
      have "\<exists>w. ex' = ex\<lparr>ex_io := w\<rparr>"
        using that a unfolding x
        by (cases a) (auto simp: executor_setup_def Let_def outcome_simps)
      with ok x show ?thesis by auto
    qed
  qed
qed

lemma seed_run_queue_ensures:
  assumes ok: "exec_ok ex"
  shows "ensures (seed_run_queue ex) exec_ok"
proof -
  let ?ts = "tcp_server_new ''0.0.0.0:3000'' 4096"
  have pool: "op_ok (ex_tcp_pool ex)" and cur: "ex_current ex < 2"
    using ok by (simp_all add: exec_ok_def)
  show ?thesis
  proof (cases "ga_free (op_alloc (ex_tcp_pool ex))")
    case Nil
    from object_pool_spawn_full [OF pool Nil] show ?thesis by (simp add: seed_run_queue_def)
  next
    case (Cons idx rest)
    from object_pool_spawn_room [OF pool Cons, of TCP_SERVER ?ts] obtain gid p where
      p: "object_pool_spawn TCP_SERVER ?ts (ex_tcp_pool ex) = Inr (Some (handle_new TCP_SERVER gid), p)"
        "op_ok p" by blast
    with ok have ok': "exec_ok (ex\<lparr>ex_tcp_pool := p\<rparr>)" by (simp add: exec_ok_def)
    show ?thesis
      by (cases rule: run_queue_push_cases [OF ok' cur, of
            "\<lparr>rq_reason = Spawn, rq_handle = handle_new TCP_SERVER gid\<rparr>", case_names pushed full])
        (use p in \<open>simp_all add: seed_run_queue_def\<close>)
  qed
qed

lemma executor_run_total:
  assumes ok: "exec_ok ex" and host: "host_safe host" "host_profile host = Checked"
  shows "\<exists>r. executor_run n env host ex = Some r \<and> ensures r exec_ok"
proof -
  let ?start = "andThen (executor_setup env host ex) (\<lambda>(r, ex).
    andThen (unwrap_result r) (\<lambda>_. seed_run_queue ex))"
  have start: "ensures ?start exec_ok"
    by (rule ensures_andThen [OF executor_setup_ensures [OF ok host(1)]])
      (auto intro!: ensures_unwrap_result seed_run_queue_ensures)
  show ?thesis
  proof (cases ?start)
    case (Inl f)
    with start show ?thesis by (simp add: executor_run_def)
  next
    case (Inr ex')
    with start have "exec_ok ex'" by simp
    from executor_ticks_total [OF this host] Inr show ?thesis by (simp add: executor_run_def)
  qed
qed

section \<open>The constructors\<close>

text \<open>Of types that have a size, the constructors only stop with a panic or for want of memory.\<close>

lemma alloc_or_abort_orderly: "0 < lay_size l \<Longrightarrow> orderly (alloc_or_abort oom l) (\<lambda>_. True)"
  by (simp add: alloc_or_abort_def raw_alloc_def panics_def)

lemma layout_array_pos:
  "layout_array ty n = Some l \<Longrightarrow> 0 < lay_size ty \<Longrightarrow> 0 < n \<Longrightarrow> 0 < lay_size l"
  using layout_array_Some [of ty n l] by simp

lemma array_new_with_fn_orderly:
  "0 < lay_size ty \<Longrightarrow> orderly (array_new_with_fn oom ty init n) (\<lambda>_. True)"
  unfolding array_new_with_fn_def
  by (intro orderly_assert orderly_unwrap_option orderly_andThen [OF alloc_or_abort_orderly])
    (auto intro: layout_array_pos)

lemma array_new_orderly: "0 < lay_size ty \<Longrightarrow> orderly (array_new oom ty init n) (\<lambda>_. True)"
  unfolding array_new_def
  by (intro orderly_assert orderly_unwrap_option orderly_andThen [OF alloc_or_abort_orderly])
    (auto intro: layout_array_pos)

lemma rb_new_orderly: "0 < lay_size ty \<Longrightarrow> orderly (rb_new oom ty n) (\<lambda>_. True)"
  unfolding rb_new_def
  by (intro orderly_assert orderly_unwrap_option orderly_andThen [OF alloc_or_abort_orderly])
    (auto intro: layout_array_pos)

lemma gen_alloc_new_orderly: "orderly (gen_alloc_new oom capacity msk) (\<lambda>_. True)"
proof -
  have items: "orderly (rb_from_fixed_iter oom u32_layout n (rev (map of_nat [0..<n]) :: u32 list)) (\<lambda>_. True)" for n
    unfolding rb_from_fixed_iter_def
  proof (rule orderly_andThen [OF orderly_result [OF rb_new_orderly]], simp, elim conjE)
    fix b :: "u32 ring_buffer" assume "rb_new oom u32_layout n = Inr b"
    from rb_new_ok [OF this] rb.enq_items_fit [of b n "rev (map of_nat [0..<n])"]
    show "orderly (enq_items rb_push n (rev (map of_nat [0..<n])) b) (\<lambda>_. True)" by auto
  qed
  show ?thesis
    unfolding gen_alloc_new_def Let_def
    by (intro orderly_andThen [OF array_new_orderly] orderly_andThen [OF items]) simp_all
qed

lemma object_pool_new_orderly: "0 < lay_size ty \<Longrightarrow> orderly (object_pool_new oom ty capacity) (\<lambda>_. True)"
  unfolding object_pool_new_def
  by (intro orderly_andThen [OF array_new_with_fn_orderly] orderly_andThen [OF gen_alloc_new_orderly]) auto

lemma buffer_pool_new_orderly:
  assumes "0 < buf_count"
  shows "orderly (buffer_pool_new oom raw POOL_BUF_SIZE POOL_ALIGN buf_count) (\<lambda>_. True)"
proof -
  have "unat buf_count < 2 ^ 32" by (rule u32_unat_less)
  moreover have "0 < unat buf_count" using assms by (simp add: word_less_nat_alt)
  ultimately have "orderly (aligned_new raw (unat buf_count) POOL_BUF_SIZE POOL_ALIGN) (\<lambda>_. True)"
    by (simp add: aligned_new_def Let_def checked_mul_def usize_limit_def is_power_of_two_def usize_rem_def
        from_size_align_unchecked_def layout_valid_def isize_max_def raw_alloc_def)
  then show ?thesis
    unfolding buffer_pool_new_def
    by (rule orderly_andThen) (intro orderly_unwrap_result orderly_andThen [OF gen_alloc_new_orderly], simp)
qed

text \<open>The types kept in pools and queues have a size; the layouts say so.\<close>

definition env_sized :: "alloc_env \<Rightarrow> bool" where
  "env_sized env \<longleftrightarrow> 0 < lay_size (env_tcp_layout env) \<and> 0 < lay_size (env_conn_layout env) \<and>
     0 < lay_size (env_event_layout env)"

lemma executor_new_orderly:
  assumes "env_sized env" and "0 < buf_count"
  shows "orderly (executor_new env io listeners conn_handlers buf_count) (\<lambda>_. True)"
  using assms unfolding executor_new_def Let_def env_sized_def
  by (intro orderly_andThen [OF object_pool_new_orderly] orderly_andThen [OF buffer_pool_new_orderly]
      orderly_andThen [OF rb_new_orderly]) auto

lemma executor_new_safe:
  "env_sized env \<Longrightarrow> 0 < buf_count \<Longrightarrow> safe (executor_new env io listeners conn_handlers buf_count)"
  by (rule orderly_safe [OF executor_new_orderly])

end
