(* ===== verification/Conn_Outcomes.thy ===== *)
theory Conn_Outcomes
  imports Conn_Handler
begin

text \<open>
  One event of the connection machine on every branch, given room for its intents: what it submits,
  what it does to the buffer pool, and the faults it can end in.
\<close>

text \<open>A live buffer holds at least a header.\<close>

lemma conn_read_header_live:
  assumes "bp_ok POOL_BUF_SIZE (ctx_buffers ctx)" and "h \<in> bp_live (ctx_buffers ctx)"
    and "ch_buf_handle ch = Some h"
  shows "\<exists>hdr. conn_read_header m ch ctx = Inr hdr \<and>
    msg_header_read (take MSG_HEADER_SIZE (slice_bytes m (bp_slice (ctx_buffers ctx) h))) = Some hdr"
proof -
  let ?s = "bp_slice (ctx_buffers ctx) h"
  have get: "buffer_pool_get POOL_BUF_SIZE (ctx_buffers ctx) h = Inr (Some ?s)"
    using buffer_pool_get_valid [OF assms(1) bp.valid_live [OF assms(1,2)]] by blast
  have len: "sl_len ?s = POOL_BUF_SIZE" using bp_slice_len [OF assms(1)] .
  then have "MSG_HEADER_SIZE \<le> sl_len ?s" by simp
  note bytes = slice_bytes_take [OF this, of m]
  obtain hdr where "msg_header_read (take MSG_HEADER_SIZE (slice_bytes m ?s)) = Some hdr"
    using msg_header_read_iff [of "take MSG_HEADER_SIZE (slice_bytes m ?s)"] len by auto
  with get len bytes assms(3) show ?thesis
    by (simp add: conn_read_header_def conn_buf_handle_def slice_upto_def)
qed

lemma conn_recv_room:
  assumes "ch_buf_handle ch = Some h" and "ctx_len ctx < length (ctx_intents ctx)"
  obtains ctx' where "conn_recv ch ctx = Inr ctx'"
    "emits [SubmitRecv (ch_socket ch) h (ucast (ch_offset ch))] ctx ctx'"
    "ctx_buffers ctx' = ctx_buffers ctx" "ctx_len ctx' = ctx_len ctx + 1"
    "length (ctx_intents ctx') = length (ctx_intents ctx)"
proof -
  obtain ctx' where "submit_intent (SubmitRecv (ch_socket ch) h (ucast (ch_offset ch))) ctx = Inr ctx'"
    "emits [SubmitRecv (ch_socket ch) h (ucast (ch_offset ch))] ctx ctx'"
    "ctx_buffers ctx' = ctx_buffers ctx" "ctx_len ctx' = ctx_len ctx + 1"
    "length (ctx_intents ctx') = length (ctx_intents ctx)"
    using submit_room_emits [OF assms(2)] by metis
  with assms(1) that show ?thesis by (simp add: conn_recv_def conn_buf_handle_def)
qed

text \<open>Closing a machine whose handle the pool knows, with room for one intent.\<close>

lemma conn_close_room:
  assumes ok: "bp_ok POOL_BUF_SIZE (ctx_buffers ctx)" and h: "ch_buf_handle ch = Some h"
    and known: "h \<in> bp_live (ctx_buffers ctx) \<union> bp_dead (ctx_buffers ctx)"
    and room: "ctx_len ctx < length (ctx_intents ctx)"
  obtains (overflow) "conn_close Checked ch ctx = Inl ArithOverflow"
  | (closed) ctx' where "conn_close Checked ch ctx = Inr (ch\<lparr>ch_offset := 0\<rparr>, ctx')"
      "emits [CloseFixed (ch_socket ch)] ctx ctx'" "ctx_len ctx' = ctx_len ctx + 1"
      "length (ctx_intents ctx') = length (ctx_intents ctx)"
      "bp_live (ctx_buffers ctx') = bp_live (ctx_buffers ctx) - {h}" "h \<in> bp_dead (ctx_buffers ctx')"
proof (cases rule: bp.release_known_total [OF ok known, case_names overflow returned])
  case o: overflow
  then show thesis by (intro overflow) (simp add: conn_close_def h)
next
  case (returned b bp')
  have "ctx_len (ctx\<lparr>ctx_buffers := bp'\<rparr>) < length (ctx_intents (ctx\<lparr>ctx_buffers := bp'\<rparr>))"
    using room by simp
  from submit_room_emits [OF this, of "CloseFixed (ch_socket ch)"] obtain ctx' where
    ctx': "submit_intent (CloseFixed (ch_socket ch)) (ctx\<lparr>ctx_buffers := bp'\<rparr>) = Inr ctx'"
      "ctx_buffers ctx' = bp'" "ctx_len ctx' = ctx_len ctx + 1"
      "length (ctx_intents ctx') = length (ctx_intents ctx)" by auto
  have run: "conn_close Checked ch ctx = Inr (ch\<lparr>ch_offset := 0\<rparr>, ctx')"
    using returned ctx' by (simp add: conn_close_def h)
  from conn_close_Inr [OF ok h known run] ctx'(3,4) run show thesis by (intro closed [of ctx']) auto
qed

text \<open>A completed receive, with room for its intent.\<close>

lemma conn_recv_data:
  assumes ok: "bp_ok POOL_BUF_SIZE (ctx_buffers ctx)" and live: "h \<in> bp_live (ctx_buffers ctx)"
    and ch: "ch_state ch = Recv p" "ch_buf_handle ch = Some h" and res: "0 < sint res"
    and range: "unat (ch_offset ch) + unat res < 2 ^ 32" and room: "ctx_len ctx < length (ctx_intents ctx)"
  obtains ctx' hdr where
    "conn_process_event pr m ch ctx (IoCompleted res flags) =
       Inr (ch\<lparr>ch_offset := ch_offset ch + res,
               ch_state := Recv (if MSG_HEADER_SIZE \<le> unat (ch_offset ch) + unat res
                                 then ReceivingBody hdr else ReceivingHeader)\<rparr>, ctx')"
    "msg_header_read (take MSG_HEADER_SIZE (slice_bytes m (bp_slice (ctx_buffers ctx) h))) = Some hdr"
    "emits [SubmitRecv (ch_socket ch) h (ucast (ch_offset ch + res))] ctx ctx'"
    "ctx_buffers ctx' = ctx_buffers ctx"
proof -
  let ?ch = "ch\<lparr>ch_offset := ch_offset ch + res\<rparr>"
  have add: "u32_add pr (ch_offset ch) res = Inr (ch_offset ch + res)"
    and sum: "unat (ch_offset ch + res) = unat (ch_offset ch) + unat res"
    using u32_add_no_overflow [OF range] by auto
  have "ch_buf_handle ?ch = Some h" using ch by simp
  from conn_read_header_live [OF ok live this, of m] obtain hdr where
    hdr: "conn_read_header m ?ch ctx = Inr hdr"
      "msg_header_read (take MSG_HEADER_SIZE (slice_bytes m (bp_slice (ctx_buffers ctx) h))) = Some hdr"
    by blast
  obtain ctx' where ctx': "conn_recv ?ch ctx = Inr ctx'"
      "emits [SubmitRecv (ch_socket ch) h (ucast (ch_offset ch + res))] ctx ctx'"
      "ctx_buffers ctx' = ctx_buffers ctx"
    using conn_recv_room [OF \<open>ch_buf_handle ?ch = Some h\<close> room] by auto
  have "res \<noteq> 0" "\<not> sint res < 0" using res by auto
  with hdr(1) ctx'(1) ch(1) have
    "conn_process_event pr m ch ctx (IoCompleted res flags) =
       Inr (ch\<lparr>ch_offset := ch_offset ch + res,
               ch_state := Recv (if MSG_HEADER_SIZE \<le> unat (ch_offset ch) + unat res
                                 then ReceivingBody hdr else ReceivingHeader)\<rparr>, ctx')"
    by (simp add: conn_process_event_def conn_on_recv_def add sum Let_def)
  with hdr(2) ctx'(2,3) that show thesis by blast
qed

lemma conn_io_error_step:
  assumes ok: "bp_ok POOL_BUF_SIZE (ctx_buffers ctx)" and live: "h \<in> bp_live (ctx_buffers ctx)"
    and ch: "ch_state ch = Recv p" "ch_buf_handle ch = Some h"
    and res: "sint res < 0" "- (2 ^ 31) < sint res" and room: "ctx_len ctx + 1 < length (ctx_intents ctx)"
  shows "if Errno (- res) \<in> set errno_retry then
      \<exists>ctx'. conn_process_event Checked m ch ctx (IoCompleted res flags) = Inr (ch, ctx') \<and>
        emits [SubmitRecv (ch_socket ch) h (ucast (ch_offset ch)),
               SubmitRecv (ch_socket ch) h (ucast (ch_offset ch))] ctx ctx' \<and>
        ctx_buffers ctx' = ctx_buffers ctx
    else if Errno (- res) \<in> set errno_logic then
      conn_process_event Checked m ch ctx (IoCompleted res flags) = Inl ExplicitPanic
    else if Errno (- res) \<in> set errno_close then
      conn_process_event Checked m ch ctx (IoCompleted res flags) = Inl ArithOverflow \<or>
      (\<exists>ctx'. conn_process_event Checked m ch ctx (IoCompleted res flags) =
          Inr (ch\<lparr>ch_state := Closing, ch_offset := 0\<rparr>, ctx') \<and>
        emits [CloseFixed (ch_socket ch), SubmitRecv (ch_socket ch) h 0] ctx ctx' \<and>
        h \<in> bp_dead (ctx_buffers ctx') \<and> bp_live (ctx_buffers ctx') = bp_live (ctx_buffers ctx) - {h})
    else
      \<exists>ctx'. conn_process_event Checked m ch ctx (IoCompleted res flags) = Inr (ch, ctx') \<and>
        emits [SubmitRecv (ch_socket ch) h (ucast (ch_offset ch))] ctx ctx' \<and>
        ctx_buffers ctx' = ctx_buffers ctx"
proof -
  have r: "res \<noteq> 0" using res by auto
  have e: "from_raw_syscall_error Checked res = Inr (Errno (- res))"
    by (rule from_raw_syscall_error_value [OF res(2)])
  have room1: "ctx_len ctx < length (ctx_intents ctx)" using room by simp
  obtain c where c: "conn_recv ch ctx = Inr c" "emits [SubmitRecv (ch_socket ch) h (ucast (ch_offset ch))] ctx c"
    "ctx_buffers c = ctx_buffers ctx" "ctx_len c = ctx_len ctx + 1"
    "length (ctx_intents c) = length (ctx_intents ctx)"
    by (rule conn_recv_room [OF ch(2) room1])
  have keep: "ch\<lparr>ch_state := ch_state ch\<rparr> = ch" by simp
  let ?e = "Errno (- res)"
  note run = conn_process_event_def conn_on_recv_def conn_handle_io_error_def
  show ?thesis
  proof (cases "?e \<in> set errno_retry")
    case True
    have "ctx_len c < length (ctx_intents c)" using c room by simp
    from conn_recv_room [OF ch(2) this] obtain d where
      d: "conn_recv ch c = Inr d" "emits [SubmitRecv (ch_socket ch) h (ucast (ch_offset ch))] c d"
        "ctx_buffers d = ctx_buffers c" by blast
    have "conn_process_event Checked m ch ctx (IoCompleted res flags) = Inr (ch, d)"
      using True r e res c d ch(1) keep by (simp add: run)
    with True d c emits_trans [OF c(2) d(2)] show ?thesis by auto
  next
    case retry: False
    show ?thesis
    proof (cases "?e \<in> set errno_logic")
      case True
      with retry r e res ch(1) show ?thesis by (simp add: run)
    next
      case logic: False
      show ?thesis
      proof (cases "?e \<in> set errno_close")
        case True
        have known: "h \<in> bp_live (ctx_buffers ctx) \<union> bp_dead (ctx_buffers ctx)" using live by simp
        show ?thesis
        proof (cases rule: conn_close_room [OF ok ch(2) known room1, case_names overflow closed])
          case overflow
          with retry logic True r e res ch(1) show ?thesis by (simp add: run)
        next
          case (closed d)
          let ?ch = "ch\<lparr>ch_offset := 0\<rparr>"
          have "ch_buf_handle ?ch = Some h" "ctx_len d < length (ctx_intents d)"
            using ch closed room by simp_all
          from conn_recv_room [OF this] obtain f where
            f: "conn_recv ?ch d = Inr f" "emits [SubmitRecv (ch_socket ch) h 0] d f"
              "ctx_buffers f = ctx_buffers d" by auto
          have "conn_process_event Checked m ch ctx (IoCompleted res flags) =
              Inr (ch\<lparr>ch_state := Closing, ch_offset := 0\<rparr>, f)"
            using retry logic True r e res closed f ch(1) by (simp add: run)
          with retry logic True emits_trans [OF closed(2) f(2)] f closed show ?thesis by auto
        qed
      next
        case False
        have "conn_process_event Checked m ch ctx (IoCompleted res flags) = Inr (ch, c)"
          using retry logic False r e res c ch(1) keep by (simp add: run)
        with retry logic False c show ?thesis by auto
      qed
    qed
  qed
qed

lemma conn_closing_step:
  assumes ok: "bp_ok POOL_BUF_SIZE (ctx_buffers ctx)" and inv: "conn_ok (ctx_buffers ctx) ch"
    and room: "ctx_len ctx < length (ctx_intents ctx)"
  shows "case ch_state ch of
      Closing \<Rightarrow>
        (if res = 0
         then \<exists>ctx'. conn_process_event Checked m ch ctx (IoCompleted res flags) =
             Inr (ch\<lparr>ch_state := Closed\<rparr>, ctx') \<and> emits [Terminate] ctx ctx' \<and>
           ctx_buffers ctx' = ctx_buffers ctx
         else \<exists>ctx'. conn_process_event Checked m ch ctx (IoCompleted res flags) =
             Inr (ch\<lparr>ch_offset := 0\<rparr>, ctx') \<and> emits [CloseFixed (ch_socket ch)] ctx ctx' \<and>
           ctx_buffers ctx' = ctx_buffers ctx)
    | Closed \<Rightarrow> conn_process_event Checked m ch ctx event = Inr (ch, ctx)
    | _ \<Rightarrow> True"
proof (cases "ch_state ch")
  case Closing
  with inv obtain h where h: "ch_buf_handle ch = Some h" "h \<in> bp_dead (ctx_buffers ctx)"
    by (auto simp: conn_ok_def)
  have free: "buffer_pool_free Checked h (ctx_buffers ctx) = Inr (False, ctx_buffers ctx)"
    by (rule bp.release_dead [OF ok h(2)])
  obtain t where t: "submit_intent Terminate ctx = Inr t" "emits [Terminate] ctx t" "ctx_buffers t = ctx_buffers ctx"
    using submit_room_emits [OF room] by metis
  obtain c where c: "submit_intent (CloseFixed (ch_socket ch)) ctx = Inr c"
      "emits [CloseFixed (ch_socket ch)] ctx c" "ctx_buffers c = ctx_buffers ctx"
    using submit_room_emits [OF room] by metis
  have keep: "ctx\<lparr>ctx_buffers := ctx_buffers ctx\<rparr> = ctx" "ch\<lparr>ch_offset := 0, ch_state := Closing\<rparr> = ch\<lparr>ch_offset := 0\<rparr>"
    using Closing by (simp, cases ch, simp)
  show ?thesis
    using Closing t c keep free h(1)
    by (simp add: conn_process_event_def conn_on_closing_def conn_close_def)
next
  case Closed
  then have "ch\<lparr>ch_state := Closed\<rparr> = ch" by (cases ch) simp
  with Closed show ?thesis by (simp add: conn_process_event_def split: machine_event.split)
qed simp_all

text \<open>The faults of an event, and the state after it.\<close>

lemma conn_event_step:
  assumes ok: "bp_ok POOL_BUF_SIZE (ctx_buffers ctx)" and inv: "conn_ok (ctx_buffers ctx) ch"
    and room: "ctx_len ctx + 1 < length (ctx_intents ctx)"
  shows "case conn_process_event Checked m ch ctx event of
      Inl fault \<Rightarrow>
        (case fault of
           Unreachable \<Rightarrow> (case (event, ch_state ch) of
               (Spawn, Recv _) \<Rightarrow> True | (Spawn, Closing) \<Rightarrow> True
             | (IoCompleted _ _, ConnInit) \<Rightarrow> True | _ \<Rightarrow> False)
         | ExplicitPanic \<Rightarrow> (case (event, ch_state ch) of
               (IoCompleted res _, Recv _) \<Rightarrow> Errno (- res) \<in> set errno_logic | _ \<Rightarrow> False)
         | ArithOverflow \<Rightarrow> (case (event, ch_state ch) of (IoCompleted _ _, Recv _) \<Rightarrow> True | _ \<Rightarrow> False)
         | _ \<Rightarrow> False)
    | Inr (ch', ctx') \<Rightarrow> conn_ok (ctx_buffers ctx') ch' \<and> bp_ok POOL_BUF_SIZE (ctx_buffers ctx')"
proof (cases "conn_process_event Checked m ch ctx event")
  case (Inr r)
  then obtain ch' ctx' where run: "conn_process_event Checked m ch ctx event = Inr (ch', ctx')"
    by (cases r) auto
  from conn_process_event_post [OF ok inv run] run show ?thesis by (simp add: conn_pool_post_def)
next
  case (Inl fault)
  have room1: "ctx_len ctx < length (ctx_intents ctx)" using room by simp
  show ?thesis
  proof (cases event)
    case Spawn
    show ?thesis
    proof (cases "ch_state ch")
      case ConnInit
      have "\<exists>r. conn_process_event Checked m ch ctx Spawn = Inr r"
      proof (cases rule: bp.acquire_cases [OF ok, case_names full fresh])
        case full
        moreover have "ctx\<lparr>ctx_buffers := ctx_buffers ctx\<rparr> = ctx" by simp
        moreover obtain c where "submit_intent Retry ctx = Inr c"
          using submit_room_emits [OF room1] by metis
        ultimately show ?thesis
          using ConnInit by (auto simp: conn_process_event_def conn_on_init_def)
      next
        case (fresh h b)
        have "ch_buf_handle (ch\<lparr>ch_buf_handle := Some h\<rparr>) = Some h"
          "ctx_len (ctx\<lparr>ctx_buffers := b\<rparr>) < length (ctx_intents (ctx\<lparr>ctx_buffers := b\<rparr>))"
          using room by simp_all
        then obtain c where "conn_recv (ch\<lparr>ch_buf_handle := Some h\<rparr>) (ctx\<lparr>ctx_buffers := b\<rparr>) = Inr c"
          by (rule conn_recv_room)
        with fresh ConnInit show ?thesis
          by (auto simp: conn_process_event_def conn_on_init_def Let_def)
      qed
      with Spawn Inl show ?thesis by simp
    qed (use Spawn Inl in \<open>auto simp: conn_process_event_def\<close>)
  next
    case (IoCompleted res flags)
    show ?thesis
    proof (cases "ch_state ch")
      case (Recv p)
      with inv obtain h where h: "ch_buf_handle ch = Some h" "h \<in> bp_live (ctx_buffers ctx)"
        by (auto simp: conn_ok_def)
      then have known: "h \<in> bp_live (ctx_buffers ctx) \<union> bp_dead (ctx_buffers ctx)" by simp
      consider (eof) "res = 0" | (data) "0 < sint res" | (err) "sint res < 0" "- (2 ^ 31) < sint res"
        | (least) "sint res = - (2 ^ 31)"
        using sint_ge [of res] signed_word_eqI [of res 0] by fastforce
      then show ?thesis
      proof cases
        case eof
        with Inl IoCompleted Recv show ?thesis
          by (cases rule: conn_close_room [OF ok h(1) known room1, case_names overflow closed])
            (auto simp: conn_process_event_def conn_on_recv_def)
      next
        case data
        show ?thesis
        proof (cases "unat (ch_offset ch) + unat res < 2 ^ 32")
          case True
          from conn_recv_data [OF ok h(2) Recv h(1) data True room1, of Checked m flags] Inl IoCompleted
          show ?thesis by (metis Inl_Inr_False)
        next
          case False
          have "res \<noteq> 0" "\<not> sint res < 0" using data by auto
          with False Inl IoCompleted Recv show ?thesis
            by (auto simp: conn_process_event_def conn_on_recv_def u32_add_def)
        qed
      next
        case err
        from conn_io_error_step [OF ok h(2) Recv h(1) err room, where m = m and flags = flags] Inl IoCompleted Recv show ?thesis
          by (auto split: if_splits)
      next
        case least
        then have "res \<noteq> 0" "sint res < 0" by auto
        with least Inl IoCompleted Recv show ?thesis
          by (auto simp: conn_process_event_def conn_on_recv_def conn_handle_io_error_def
              from_raw_syscall_error_def i32_neg_def)
      qed
    next
      case Closing
      from conn_closing_step [OF ok inv room1, where m = m and res = res and flags = flags] Closing Inl IoCompleted show ?thesis
        by (auto split: if_splits)
    qed (use IoCompleted Inl in \<open>auto simp: conn_process_event_def\<close>)
  qed
qed

text \<open>
  What an event leaves behind: the machine is still waiting to start and asks for a retry, or it has
  started and submits I/O requests, or it has closed and asks to be terminated.
\<close>

lemma conn_on_recv_state:
  assumes "conn_on_recv pr m ch ctx res = Inr (st, ch', ctx')" and "ch_state ch = Recv p"
  shows "st \<noteq> ConnInit"
proof (cases "res = 0")
  case True
  with assms show ?thesis by (auto simp: conn_on_recv_def andThen_eq_Inr)
next
  case False
  from assms(1) False show ?thesis
  proof (cases rule: conn_on_recv_split)
    case (1 c)
    with assms(2) show ?thesis
      by (auto simp: conn_handle_io_error_def andThen_eq_Inr split: if_splits)
  qed auto
qed

lemma conn_event_next:
  assumes run: "conn_process_event pr m ch ctx event = Inr (ch', ctx')"
  obtains (retry) "event = Spawn" "ch_state ch = ConnInit" "ch_state ch' = ConnInit" "emits [Retry] ctx ctx'"
  | (requests) new where "ch_state ch' \<noteq> ConnInit" "emits new ctx ctx'" "length new \<le> 2"
      "\<forall>i \<in> set new. conn_io_intent i"
  | (finished) "ch_state ch' = Closed" "emits [Terminate] ctx ctx'"
proof -
  have io: thesis if "ch_state ch' \<noteq> ConnInit" "emits_io 2 ctx ctx'"
    using requests that by (auto simp: emits_io_def)
  show thesis
  proof (cases "ch_state ch")
    case ConnInit
    with run have spawn: "event = Spawn"
      by (auto simp: conn_process_event_def split: machine_event.splits)
    with run ConnInit obtain s ch1 where
      init: "conn_on_init ch ctx = Inr (s, ch1, ctx')" "ch' = ch1\<lparr>ch_state := s\<rparr>"
      by (auto simp: conn_process_event_def andThen_eq_Inr)
    then consider c where "submit_intent Retry c = Inr ctx'" "emits [] ctx c" "s = ConnInit"
      | c ch2 where "conn_recv ch2 c = Inr ctx'" "emits [] ctx c" "s = Recv ReceivingHeader"
      by (auto simp: conn_on_init_def andThen_eq_Inr Let_def emits_def ctx_submitted_def split: option.splits)
    then show thesis
    proof cases
      case 1
      with submit_emits [OF 1(1)] emits_trans [OF 1(2)] have "emits ([] @ [Retry]) ctx ctx'" by blast
      with retry [OF spawn ConnInit] 1 init(2) show thesis by simp
    next
      case 2
      from conn_recv_emits_io [OF 2(1), of 2] have "emits_io 2 c ctx'" by simp
      with 2(2) have "emits_io 2 ctx ctx'"
        by (auto simp: emits_io_def emits_def)
      with 2 init(2) io show thesis by simp
    qed
  next
    case (Recv p)
    with run obtain res s ch1 where
      "conn_on_recv pr m ch ctx res = Inr (s, ch1, ctx')" "ch' = ch1\<lparr>ch_state := s\<rparr>"
      by (auto simp: conn_process_event_def andThen_eq_Inr split: machine_event.splits)
    with conn_on_recv_emits conn_on_recv_state [OF _ Recv] io show thesis by auto
  next
    case Closing
    with run obtain res s ch1 where
      on: "conn_on_closing pr ch ctx res = Inr (s, ch1, ctx')" "ch' = ch1\<lparr>ch_state := s\<rparr>"
      by (auto simp: conn_process_event_def andThen_eq_Inr split: machine_event.splits)
    then consider "submit_intent Terminate ctx = Inr ctx'" "s = Closed"
      | "conn_close pr ch ctx = Inr (ch1, ctx')" "s = Closing"
      by (auto simp: conn_on_closing_def andThen_eq_Inr split: if_splits)
    then show thesis
    proof cases
      case 1
      with submit_emits [OF 1(1)] on(2) finished show thesis by simp
    next
      case 2
      with conn_close_emits_io [OF 2(1), of 2] on(2) io show thesis by simp
    qed
  next
    case Closed
    with run have "ch' = ch\<lparr>ch_state := Closed\<rparr>" "ctx' = ctx"
      by (auto simp: conn_process_event_def split: machine_event.splits)
    then show thesis using io emits_io_refl [of 2 ctx] by simp
  qed
qed

end
