(* ===== verification/Executor_Steps.thy ===== *)
theory Executor_Steps
  imports Executor_Start Conn_Outcomes
begin

text \<open>
  Lemmas on one event of the event loop, from the queue to the completed intents.
\<close>

text \<open>The dispatch of an event to a connection that is there.\<close>

lemma dispatch_conn_Inr:
  assumes ok: "exec_ok ex" and prof: "host_profile host = Checked"
    and conn: "handle_pool_id handle = CONN_HANDLER"
    and ch: "op_map (ex_conn_pool ex) (handle_gid handle) = Some ch"
    and run: "conn_process_event Checked (host_memory host (ex_io ex)) ch (ctx_of ex) reason = Inr (ch', ctx)"
    and new: "emits new (ctx_of ex) ctx"
  obtains ex' where "dispatch host reason handle ex = Inr (length new, ex')"
    "complete_intent host (length new) handle ex' = complete_list host handle (map Some new) ex'"
    "ex_io_bufs ex' = ctx_buffers ctx" "ex_io ex' = ex_io ex" "exec_ok ex'"
    "op_map (ex_conn_pool ex') = (op_map (ex_conn_pool ex))(handle_gid handle \<mapsto> ch')"
    "ex_run_queues ex' = ex_run_queues ex" "ex_tcp_pool ex' = ex_tcp_pool ex" "ex_current ex' = ex_current ex"
    "op_alloc (ex_conn_pool ex') = op_alloc (ex_conn_pool ex)"
proof -
  have pool: "op_ok (ex_conn_pool ex)" using ok by (simp add: exec_ok_def)
  have live: "handle_gid handle \<in> ga_live (op_alloc (ex_conn_pool ex))"
    using ch by (simp add: op_map_def split: if_splits)
  from object_pool_store_ok [OF pool live, of ch'] obtain q where
    q: "object_pool_store handle ch' (ex_conn_pool ex) = Inr q" "op_ok q"
      "op_map q = (op_map (ex_conn_pool ex))(handle_gid handle \<mapsto> ch')"
      "op_alloc q = op_alloc (ex_conn_pool ex)" by blast
  have "length new \<le> 2"
    using conn_process_event_emits [OF run] new by (auto simp: emits_def)
  note ctx = emits_ctx_of [OF new ok this]
  let ?ex' = "(ctx_back ctx ex)\<lparr>ex_conn_pool := q\<rparr>"
  have step: "dispatch host reason handle ex = Inr (length new, ?ex')"
    using conn prof object_pool_get_eq [OF pool, of handle] ch run q ctx(1) by (simp add: dispatch_def)
  then have "\<exists>new. dispatched handle ex (length new) ?ex' new"
    using dispatch_ensures [OF ok prof, of reason handle] by (auto simp: dispatched_def)
  then have "exec_ok ?ex'" by (auto simp: dispatched_def)
  moreover have "length new \<le> length (ex_intents ?ex')"
    using ctx(2) \<open>length new \<le> 2\<close> by (simp add: ctx_back_def)
  then have "complete_intent host (length new) handle ?ex' = complete_list host handle (map Some new) ?ex'"
    using ctx(3) by (simp add: complete_intent_def ctx_back_def)
  ultimately show thesis
    using step q by (intro that [of ?ex']) (simp_all add: ctx_back_def)
qed

lemma ctx_of_simps [simp]:
  "ctx_buffers (ctx_of ex) = ex_io_bufs ex" "ctx_len (ctx_of ex) = 0" "ctx_intents (ctx_of ex) = ex_intents ex"
  by (simp_all add: ctx_of_def)

text \<open>What the invariant says of a connection that is there.\<close>

lemma exec_ok_conn:
  assumes "exec_ok ex" and "op_map (ex_conn_pool ex) gid = Some ch"
  shows "bp_ok POOL_BUF_SIZE (ctx_buffers (ctx_of ex))" "conn_ok (ctx_buffers (ctx_of ex)) ch"
    "ctx_len (ctx_of ex) + 1 < length (ctx_intents (ctx_of ex))"
    "ctx_len (ctx_of ex) < length (ctx_intents (ctx_of ex))"
  using assms by (auto simp: exec_ok_def conn.shares_def)

lemma conn_recv_buffer:
  assumes "exec_ok ex" and "op_map (ex_conn_pool ex) gid = Some ch" and "ch_state ch = Recv p"
  obtains h where "ch_buf_handle ch = Some h" "h \<in> bp_live (ctx_buffers (ctx_of ex))"
  using exec_ok_conn(2) [OF assms(1,2)] assms(3) by (auto simp: conn_ok_def)

lemma uring_enqueue_cases:
  assumes "host_io host = uring_io ring"
  obtains (full) "io_submit host entry ex = Inl UnwrapFailed"
  | (queued) w where "io_submit host entry ex = Inr (ex\<lparr>ex_io := w\<rparr>)"
proof -
  obtain r w where r: "ring_sq_push ring entry (ex_io ex) = (r, w)" by (cases "ring_sq_push ring entry (ex_io ex)")
  then show thesis
    using full queued assms
    by (cases r) (simp_all add: io_submit_def uring_io_def uring_enqueue_def)
qed

text \<open>The dispatch of an event to a listener that is there.\<close>

lemma dispatch_tcp_Inr:
  assumes ok: "exec_ok ex" and prof: "host_profile host = Checked"
    and tcp: "handle_pool_id handle = TCP_SERVER"
    and ts: "op_map (ex_tcp_pool ex) (handle_gid handle) = Some ts"
    and run: "tcp_process_event (host_net host) (host_more_io host) ts (ctx_of ex) reason (ex_io ex) =
      Inr (ts', ctx, w)"
    and new: "emits new (ctx_of ex) ctx"
  obtains ex' where "dispatch host reason handle ex = Inr (length new, ex')"
    "complete_intent host (length new) handle ex' = complete_list host handle (map Some new) ex'"
    "ex_io_bufs ex' = ex_io_bufs ex" "ex_io ex' = w" "exec_ok ex'"
    "op_map (ex_tcp_pool ex') = (op_map (ex_tcp_pool ex))(handle_gid handle \<mapsto> ts')"
    "ex_run_queues ex' = ex_run_queues ex" "ex_conn_pool ex' = ex_conn_pool ex" "ex_current ex' = ex_current ex"
    "op_alloc (ex_tcp_pool ex') = op_alloc (ex_tcp_pool ex)"
proof -
  have pool: "op_ok (ex_tcp_pool ex)" using ok by (simp add: exec_ok_def)
  have live: "handle_gid handle \<in> ga_live (op_alloc (ex_tcp_pool ex))"
    using ts by (simp add: op_map_def split: if_splits)
  from object_pool_store_ok [OF pool live, of ts'] obtain q where
    q: "object_pool_store handle ts' (ex_tcp_pool ex) = Inr q" "op_ok q"
      "op_map q = (op_map (ex_tcp_pool ex))(handle_gid handle \<mapsto> ts')"
      "op_alloc q = op_alloc (ex_tcp_pool ex)" by blast
  from tcp_process_event_emits [OF run] new have len: "length new \<le> 2"
    and bufs: "ctx_buffers ctx = ex_io_bufs ex"
    by (auto simp: emits_def)
  note ctx = emits_ctx_of [OF new ok len]
  let ?ex' = "(ctx_back ctx ex)\<lparr>ex_tcp_pool := q, ex_io := w\<rparr>"
  have step: "dispatch host reason handle ex = Inr (length new, ?ex')"
    using tcp object_pool_get_eq [OF pool, of handle] ts run q ctx(1) by (simp add: dispatch_def)
  then have "\<exists>new. dispatched handle ex (length new) ?ex' new"
    using dispatch_ensures [OF ok prof, of reason handle] by (auto simp: dispatched_def)
  then have "exec_ok ?ex'" by (auto simp: dispatched_def)
  moreover have "length new \<le> length (ex_intents ?ex')"
    using ctx(2) len by (simp add: ctx_back_def)
  then have "complete_intent host (length new) handle ?ex' = complete_list host handle (map Some new) ?ex'"
    using ctx(3) by (simp add: complete_intent_def ctx_back_def)
  ultimately show thesis
    using step q bufs by (intro that [of ?ex']) (simp_all add: ctx_back_def)
qed


section \<open>One drain of the queue\<close>

lemma drain_step:
  assumes ok: "exec_ok ex" and queue: "ex_queue (ex_current ex) ex = e # es"
  obtains ex' where "exec_ok ex'" "ex_queue (ex_current ex) ex' = es" "ex_current ex' = ex_current ex"
    "ex_conn_pool ex' = ex_conn_pool ex" "ex_tcp_pool ex' = ex_tcp_pool ex" "ex_io_bufs ex' = ex_io_bufs ex"
    "ex_io ex' = ex_io ex" "\<And>i. ex_queue_cap i ex' = ex_queue_cap i ex"
    "\<And>ex''. process_queued host e ex' = Inr ex'' \<Longrightarrow> drain_run_queue host ex = drain_run_queue host ex''"
proof -
  have cur: "ex_current ex < 2" using ok by (simp add: exec_ok_def)
  show thesis
  proof (cases rule: run_queue_pop_cases [OF ok cur, case_names none some])
    case none
    with queue show thesis by simp
  next
    case (some e' ex')
    with queue show thesis
      by (intro that [of ex']) (auto simp: drain_run_queue.simps [of host ex])
  qed
qed

lemma drain_done:
  assumes "exec_ok ex" and "ex_queue (ex_current ex) ex = []"
  shows "drain_run_queue host ex = Some (Inr ex)"
proof -
  have "ex_current ex < 2" using assms(1) by (simp add: exec_ok_def)
  from run_queue_pop_cases [OF assms(1) this] assms(2) have "run_queue_pop (ex_current ex) ex = Inr (None, ex)"
    by (metis list.distinct(1))
  then show ?thesis by (simp add: drain_run_queue.simps)
qed

end
