(* ===== verification/Executor_Kernel.thy ===== *)
theory Executor_Kernel
  imports Executor_Steps
begin

text \<open>
  The event loop over a truthful kernel, one that completes only what was submitted to it. Then every
  event fits the state of the machine it is for: a machine is started once, its completions come
  after it was started, and a handle names a machine of its own pool. So no \<open>unreachable!\<close> arm is
  reached, and the server only ever stops in one of the orderly ways.
\<close>

section \<open>The kernel\<close>

fun sqe_user_data :: "sqe \<Rightarrow> u64" where
  "sqe_user_data (AcceptMulti _ _ u) = u"
| "sqe_user_data (ReadFixed _ _ _ _ u) = u"
| "sqe_user_data (CloseFile _ u) = u"

text \<open>
  \<open>posted w\<close> is the user data of the entries pushed so far. A completion carries user data that was
  pushed, and nothing but a push adds to it: the documented behaviour of the ring, which copies the
  user data of an entry into its completions. The socket calls do not touch the ring.
\<close>

definition ring_truthful :: "'w ring_ops \<Rightarrow> ('w \<Rightarrow> u64 set) \<Rightarrow> bool" where
  "ring_truthful ring posted \<longleftrightarrow>
     (\<forall>w c. fst (ring_cq_next ring w) = Some c \<longrightarrow> cqe_user_data c \<in> posted w) \<and>
     (\<forall>w. posted (snd (ring_cq_next ring w)) \<subseteq> posted w) \<and>
     (\<forall>w. posted (ring_cq_sync ring w) \<subseteq> posted w) \<and>
     (\<forall>e w. posted (snd (ring_sq_push ring e w)) \<subseteq> insert (sqe_user_data e) (posted w)) \<and>
     (\<forall>n w. posted (snd (ring_submit_and_wait ring n w)) \<subseteq> posted w) \<and>
     (\<forall>n w. posted (snd (ring_register_files_sparse ring n w)) \<subseteq> posted w) \<and>
     (\<forall>v w. posted (snd (ring_register_buffers ring v w)) \<subseteq> posted w)"

definition net_apart :: "'w net_ops \<Rightarrow> ('w \<Rightarrow> u64 set) \<Rightarrow> bool" where
  "net_apart net posted \<longleftrightarrow>
     (\<forall>d w. posted (snd (net_socket net d w)) \<subseteq> posted w) \<and>
     (\<forall>fd b w. posted (snd (net_set_reuseaddr net fd b w)) \<subseteq> posted w) \<and>
     (\<forall>fd a w. posted (snd (net_bind net fd a w)) \<subseteq> posted w) \<and>
     (\<forall>fd n w. posted (snd (net_listen net fd n w)) \<subseteq> posted w) \<and>
     (\<forall>fd w. posted (net_close net fd w) \<subseteq> posted w)"

definition kernel_truthful :: "'w host \<Rightarrow> ('w \<Rightarrow> u64 set) \<Rightarrow> bool" where
  "kernel_truthful host posted \<longleftrightarrow>
     (\<exists>ring. host_io host = uring_io ring \<and> ring_truthful ring posted) \<and> net_apart (host_net host) posted"

lemma kernel_truthful_safe: "kernel_truthful host posted \<Longrightarrow> host_safe host"
  by (auto simp: kernel_truthful_def intro: uring_host_safe)

lemma map_os_error_orderly:
  assumes "P (snd p)"
  shows "orderly (map_os_error p) (\<lambda>(r, w). P w)"
  using assms by (cases p) (auto simp: map_os_error_def panics_def unwrap_option_def split: sum.split option.split)

lemma kernel_submit:
  assumes "kernel_truthful host posted"
  shows "orderly (io_submit host e ex)
    (\<lambda>ex'. \<exists>w. ex' = ex\<lparr>ex_io := w\<rparr> \<and> posted w \<subseteq> insert (sqe_user_data e) (posted (ex_io ex)))"
proof -
  from assms obtain ring where ring: "host_io host = uring_io ring" "ring_truthful ring posted"
    by (auto simp: kernel_truthful_def)
  obtain r w where push: "ring_sq_push ring e (ex_io ex) = (r, w)" by (cases "ring_sq_push ring e (ex_io ex)")
  with ring(2) have "posted w \<subseteq> insert (sqe_user_data e) (posted (ex_io ex))"
    unfolding ring_truthful_def by (metis snd_conv)
  with ring(1) push show ?thesis
    by (cases r) (auto simp: io_submit_def uring_io_def uring_enqueue_def panics_def)
qed

lemma kernel_wait:
  assumes "kernel_truthful host posted"
  shows "orderly (executor_wait host ex) (\<lambda>ex'. \<exists>w. ex' = ex\<lparr>ex_io := w\<rparr> \<and> posted w \<subseteq> posted (ex_io ex))"
proof -
  from assms obtain ring where ring: "host_io host = uring_io ring" "ring_truthful ring posted"
    by (auto simp: kernel_truthful_def)
  then have sync: "posted (ring_cq_sync ring (ex_io ex)) \<subseteq> posted (ex_io ex)"
    and wait: "posted (snd (ring_submit_and_wait ring 1 v)) \<subseteq> posted v" for v
    by (auto simp: ring_truthful_def)
  have "orderly (io_submit_and_wait (host_io host) 1 (ex_io ex)) (\<lambda>(r, w). posted w \<subseteq> posted (ex_io ex))"
    using sync wait [of "ring_cq_sync ring (ex_io ex)"]
    by (auto simp: ring(1) uring_io_def uring_submit_and_wait_def Let_def intro!: map_os_error_orderly)
  then show ?thesis
    unfolding executor_wait_def
    by (rule orderly_andThen) (auto intro!: orderly_unwrap_result)
qed

lemma kernel_completion:
  assumes "kernel_truthful host posted" and "io_completion_next (host_io host) w = (r, w')"
  shows "posted w' \<subseteq> posted w" "r = Some c \<Longrightarrow> cqe_user_data c \<in> posted w"
proof -
  from assms obtain ring where ring: "host_io host = uring_io ring" "ring_truthful ring posted"
    by (auto simp: kernel_truthful_def)
  with assms(2) have "ring_cq_next ring w = (r, w')" by (simp add: uring_io_def uring_completion_next_def)
  with ring(2) show "posted w' \<subseteq> posted w" "r = Some c \<Longrightarrow> cqe_user_data c \<in> posted w"
    unfolding ring_truthful_def by (metis snd_conv, metis fst_conv)
qed

lemma kernel_register:
  assumes "kernel_truthful host posted"
  shows "orderly (io_register_files (host_io host) n w) (\<lambda>(r, w'). posted w' \<subseteq> posted w)"
    "orderly (io_register_buffers (host_io host) v w) (\<lambda>(r, w'). posted w' \<subseteq> posted w)"
proof -
  from assms obtain ring where ring: "host_io host = uring_io ring" "ring_truthful ring posted"
    by (auto simp: kernel_truthful_def)
  then have "posted (snd (ring_register_files_sparse ring n w)) \<subseteq> posted w"
    "posted (snd (ring_register_buffers ring v w)) \<subseteq> posted w"
    unfolding ring_truthful_def by blast+
  with ring(1) show "orderly (io_register_files (host_io host) n w) (\<lambda>(r, w'). posted w' \<subseteq> posted w)"
    "orderly (io_register_buffers (host_io host) v w) (\<lambda>(r, w'). posted w' \<subseteq> posted w)"
    by (simp_all add: uring_io_def uring_register_files_def uring_register_buffers_def map_os_error_orderly)
qed


section \<open>Events that fit\<close>

text \<open>
  The state that matters, abstractly: the handles \<open>K\<close> issued so far; whether the machine a handle
  names has yet to start (\<open>Some True\<close>), has started (\<open>Some False\<close>) or is gone (\<open>None\<close>); the queued
  events; the user data posted. A start event is for a machine that has yet to start, and there is
  one at most; a completion, queued or still to come, is for one that has started.
\<close>

definition starts :: "run_queue_event list \<Rightarrow> object_handle list" where
  "starts es = map rq_handle (filter (\<lambda>e. rq_reason e = Spawn) es)"

definition fits :: "(object_handle \<Rightarrow> bool option) \<Rightarrow> run_queue_event \<Rightarrow> bool" where
  "fits ph e \<longleftrightarrow> (case rq_reason e of
     Spawn \<Rightarrow> ph (rq_handle e) \<noteq> Some False
   | IoCompleted _ _ \<Rightarrow> ph (rq_handle e) \<noteq> Some True)"

definition typed ::
  "object_handle set \<Rightarrow> (object_handle \<Rightarrow> bool option) \<Rightarrow> run_queue_event list \<Rightarrow> u64 set \<Rightarrow> bool" where
  "typed K ph Q U \<longleftrightarrow>
     (\<forall>e \<in> set Q. rq_handle e \<in> K \<and> fits ph e) \<and> distinct (starts Q) \<and>
     (\<forall>u \<in> U. ObjectHandle u \<in> K \<and> ph (ObjectHandle u) \<noteq> Some True)"

lemma starts_simps [simp]:
  "starts [] = []" "starts (xs @ ys) = starts xs @ starts ys"
  "starts (e # es) = (if rq_reason e = Spawn then rq_handle e # starts es else starts es)"
  by (simp_all add: starts_def)

lemma in_startsD: "h \<in> set (starts Q) \<Longrightarrow> \<exists>e \<in> set Q. rq_handle e = h \<and> rq_reason e = Spawn"
  by (auto simp: starts_def)

lemma typed_posted: "typed K ph Q U \<Longrightarrow> U' \<subseteq> U \<Longrightarrow> typed K ph Q U'"
  by (auto simp: typed_def)

lemma typed_tail: "typed K ph (e # Q) U \<Longrightarrow> typed K ph Q U"
  by (auto simp: typed_def split: if_splits)

lemma typed_no_second_start:
  assumes "typed K ph (e # Q) U" and "ph (rq_handle e) \<noteq> None"
  shows "rq_handle e \<notin> set (starts Q)"
proof (cases "rq_reason e")
  case Spawn
  with assms(1) show ?thesis by (simp add: typed_def)
next
  case (IoCompleted res flags)
  with assms have "ph (rq_handle e) = Some False" by (auto simp: typed_def fits_def)
  with assms(1) show ?thesis by (auto simp: typed_def fits_def dest!: in_startsD)
qed

lemma typed_started:
  assumes "typed K ph Q U" and "h \<notin> set (starts Q)"
  shows "typed K (ph(h := Some False)) Q U"
proof -
  have "rq_reason e \<noteq> Spawn" if "e \<in> set Q" "rq_handle e = h" for e
    using assms(2) that by (auto simp: starts_def)
  with assms(1) show ?thesis
    by (fastforce simp: typed_def fits_def split: machine_event.splits)
qed

lemma typed_gone: "typed K ph Q U \<Longrightarrow> typed K (ph(h := None)) Q U"
  by (fastforce simp: typed_def fits_def split: machine_event.splits)

lemma typed_retry:
  "typed K ph Q U \<Longrightarrow> h \<in> K \<Longrightarrow> h \<notin> set (starts Q) \<Longrightarrow> ph h \<noteq> Some False \<Longrightarrow>
     typed K ph (\<lparr>rq_reason = Spawn, rq_handle = h\<rparr> # Q) U"
  by (auto simp: typed_def fits_def)

lemma typed_spawned:
  assumes "typed K ph Q U" and "h \<notin> K"
  shows "typed (insert h K) (ph(h := Some True)) (\<lparr>rq_reason = Spawn, rq_handle = h\<rparr> # Q) U"
proof -
  have "h \<notin> set (starts Q)" using assms by (auto simp: typed_def dest!: in_startsD)
  moreover have "fits (ph(h := Some True)) e" if "e \<in> set Q" for e
    using assms that by (auto simp: typed_def fits_def split: machine_event.splits)
  ultimately show ?thesis
    using assms by (auto simp: typed_def fits_def [of _ "\<lparr>rq_reason = Spawn, rq_handle = h\<rparr>"])
qed

lemma typed_submitted:
  "typed K ph Q U \<Longrightarrow> h \<in> K \<Longrightarrow> ph h \<noteq> Some True \<Longrightarrow> U' \<subseteq> insert (handle_into_u64 h) U \<Longrightarrow>
     typed K ph Q U'"
  by (auto simp: typed_def handle_into_u64_def)

lemma typed_completed:
  "typed K ph Q U \<Longrightarrow> u \<in> U \<Longrightarrow>
     typed K ph (\<lparr>rq_reason = IoCompleted res flags, rq_handle = handle_from_u64 u\<rparr> # Q) U"
  by (auto simp: typed_def fits_def handle_from_u64_def)


section \<open>The executor\<close>

text \<open>The handles of pool \<open>ID\<close> that the allocator has handed out so far.\<close>

definition named :: "u8 \<Rightarrow> gen_alloc \<Rightarrow> object_handle set" where
  "named ID a = {h. handle_pool_id h = ID \<and> handle_gid h \<in> ga_live a \<union> ga_dead a}"

lemma spawn_cases:
  assumes ok: "op_ok op"
  obtains (full) "object_pool_spawn ID obj op = Inr (None, op)"
  | (spawned) h p where "object_pool_spawn ID obj op = Inr (Some h, p)" "op_ok p" "handle_pool_id h = ID"
      "op_map op (handle_gid h) = None" "op_map p = (op_map op)(handle_gid h \<mapsto> obj)"
      "h \<notin> named ID (op_alloc op)" "named ID (op_alloc p) = insert h (named ID (op_alloc op))"
proof (cases "ga_free (op_alloc op)")
  case Nil
  from full [OF object_pool_spawn_full [OF ok Nil]] show thesis .
next
  case (Cons idx rest)
  from object_pool_spawn_room [OF ok Cons, of ID obj] obtain gid p where
    p: "object_pool_spawn ID obj op = Inr (Some (handle_new ID gid), p)" "op_ok p" "unat (gid_index gid) < 2 ^ 24"
      "gid \<notin> ga_live (op_alloc op)" "ga_live (op_alloc p) = insert gid (ga_live (op_alloc op))"
      "ga_dead (op_alloc p) = ga_dead (op_alloc op)" "op_map p = (op_map op)(gid \<mapsto> obj)"
    by blast
  let ?h = "handle_new ID gid"
  have h: "handle_pool_id ?h = ID" "handle_gid ?h = gid" using p(3) by (simp_all add: handle_pack_pool_id)
  have "ga_ok (op_alloc p)" using p(2) by (simp add: op_ok_def)
  with ga.live_dead p(5,6) have "gid \<notin> ga_dead (op_alloc op)" by blast
  with p(4) h have fresh: "?h \<notin> named ID (op_alloc op)" by (simp add: named_def)
  have "x \<in> named ID (op_alloc p) \<longleftrightarrow> x \<in> insert ?h (named ID (op_alloc op))" for x
  proof (cases "x = ?h")
    case False
    with h handle_eqI [of x ?h] have "handle_pool_id x \<noteq> ID \<or> handle_gid x \<noteq> gid" by auto
    with False show ?thesis by (auto simp: named_def p(5,6))
  qed (simp add: named_def p(5) h)
  then have "named ID (op_alloc p) = insert ?h (named ID (op_alloc op))" by blast
  with p h fresh show thesis by (intro spawned) (simp_all add: op_map_def)
qed

definition issued :: "'w executor \<Rightarrow> object_handle set" where
  "issued ex = named TCP_SERVER (op_alloc (ex_tcp_pool ex)) \<union> named CONN_HANDLER (op_alloc (ex_conn_pool ex))"

lemma issued_pool: "h \<in> issued ex \<Longrightarrow> handle_pool_id h = TCP_SERVER \<or> handle_pool_id h = CONN_HANDLER"
  by (auto simp: issued_def named_def)

definition phase :: "'w executor \<Rightarrow> object_handle \<Rightarrow> bool option" where
  "phase ex h =
     (if handle_pool_id h = TCP_SERVER then
        map_option (\<lambda>ts. ts_state ts = TcpInit) (op_map (ex_tcp_pool ex) (handle_gid h))
      else if handle_pool_id h = CONN_HANDLER then
        map_option (\<lambda>ch. ch_state ch = ConnInit) (op_map (ex_conn_pool ex) (handle_gid h))
      else None)"

definition queued :: "'w executor \<Rightarrow> run_queue_event list" where
  "queued ex = ex_queue 0 ex @ ex_queue 1 ex"

definition exec_typed :: "('w \<Rightarrow> u64 set) \<Rightarrow> 'w executor \<Rightarrow> bool" where
  "exec_typed posted ex \<longleftrightarrow> exec_ok ex \<and> typed (issued ex) (phase ex) (queued ex) (posted (ex_io ex))"

text \<open>Handles issued stay issued, and their machines are where they were.\<close>

definition kept :: "'w executor \<Rightarrow> 'w executor \<Rightarrow> bool" where
  "kept ex ex' \<longleftrightarrow> issued ex \<subseteq> issued ex' \<and> (\<forall>h \<in> issued ex. phase ex' h = phase ex h)"

lemma kept_refl [simp]: "kept ex ex"
  by (simp add: kept_def)

lemma kept_trans: "kept a b \<Longrightarrow> kept b c \<Longrightarrow> kept a c"
  by (auto simp: kept_def)

lemma view_io [simp]:
  "issued (ex\<lparr>ex_io := w\<rparr>) = issued ex" "phase (ex\<lparr>ex_io := w\<rparr>) = phase ex"
  "queued (ex\<lparr>ex_io := w\<rparr>) = queued ex"
  by (simp_all add: issued_def phase_def queued_def fun_eq_iff)

lemma kept_io [simp]: "kept ex (ex\<lparr>ex_io := w\<rparr>)"
  by (simp add: kept_def)

lemma issued_same:
  "op_alloc (ex_tcp_pool ex') = op_alloc (ex_tcp_pool ex) \<Longrightarrow>
   op_alloc (ex_conn_pool ex') = op_alloc (ex_conn_pool ex) \<Longrightarrow> issued ex' = issued ex"
  by (simp add: issued_def)

lemma phase_conn_update:
  assumes "op_map (ex_conn_pool ex') = (op_map (ex_conn_pool ex))(handle_gid h := v)"
    and "ex_tcp_pool ex' = ex_tcp_pool ex" and "handle_pool_id h = CONN_HANDLER"
  shows "phase ex' = (phase ex)(h := map_option (\<lambda>ch. ch_state ch = ConnInit) v)"
  using assms by (auto simp: phase_def fun_eq_iff intro: handle_eqI)

lemma phase_tcp_update:
  assumes "op_map (ex_tcp_pool ex') = (op_map (ex_tcp_pool ex))(handle_gid h := v)"
    and "ex_conn_pool ex' = ex_conn_pool ex" and "handle_pool_id h = TCP_SERVER"
  shows "phase ex' = (phase ex)(h := map_option (\<lambda>ts. ts_state ts = TcpInit) v)"
  using assms by (auto simp: phase_def fun_eq_iff intro: handle_eqI)

lemma queued_same: "ex_run_queues ex' = ex_run_queues ex \<Longrightarrow> queued ex' = queued ex"
  by (simp add: queued_def ex_queue_def)

text \<open>Where in the two queues an event stands does not matter.\<close>

lemma typed_queued:
  assumes "i < 2" and "ex_queue i ex' = xs @ e # ys" and "ex_queue i ex = xs @ ys"
    and "\<And>j. j \<noteq> i \<Longrightarrow> ex_queue j ex' = ex_queue j ex"
  shows "typed K ph (queued ex') U \<longleftrightarrow> typed K ph (e # queued ex) U"
proof (cases "i = 0")
  case True
  with assms have "queued ex' = xs @ e # ys @ ex_queue 1 ex" "queued ex = xs @ ys @ ex_queue 1 ex"
    by (simp_all add: queued_def)
  then show ?thesis by (auto simp: typed_def)
next
  case False
  with assms have "queued ex' = ex_queue 0 ex @ xs @ e # ys" "queued ex = ex_queue 0 ex @ xs @ ys"
    by (simp_all add: queued_def less_2_cases_iff)
  then show ?thesis by (auto simp: typed_def)
qed

lemma push_typed:
  assumes ok: "exec_ok ex" and i: "i < 2"
    and ty: "typed (issued ex) (phase ex) (e # queued ex) (posted (ex_io ex))"
  shows "orderly (run_queue_push i e ex)
    (\<lambda>ex'. exec_typed posted ex' \<and> issued ex' = issued ex \<and> phase ex' = phase ex)"
proof (cases rule: run_queue_push_cases [OF ok i, of e, case_names pushed full])
  case (pushed ex')
  then have view: "issued ex' = issued ex" "phase ex' = phase ex"
    by (simp_all add: issued_def phase_def fun_eq_iff)
  have "typed K ph (queued ex') U \<longleftrightarrow> typed K ph (e # queued ex) U" for K ph U
    using typed_queued [OF i, of ex' "ex_queue i ex" e "[]" ex] pushed by simp
  with pushed ty view show ?thesis by (simp add: exec_typed_def)
next
  case full
  then show ?thesis by (simp add: panics_def)
qed


section \<open>Intents\<close>

lemma submit_typed:
  assumes inv: "exec_typed posted ex" and kernel: "kernel_truthful host posted"
    and h: "h \<in> issued ex" "phase ex h \<noteq> Some True" and e: "sqe_user_data e = handle_into_u64 h"
  shows "orderly (io_submit host e ex) (\<lambda>ex'. exec_typed posted ex' \<and> kept ex ex')"
proof (rule orderly_mono [OF kernel_submit [OF kernel, of e ex]], elim exE conjE)
  fix ex' w assume ex': "ex' = ex\<lparr>ex_io := w\<rparr>" and "posted w \<subseteq> insert (sqe_user_data e) (posted (ex_io ex))"
  then have "typed (issued ex) (phase ex) (queued ex) (posted w)"
    using inv e h by (auto simp: exec_typed_def intro: typed_submitted)
  with inv ex' show "exec_typed posted ex' \<and> kept ex ex'" by (simp add: exec_typed_def)
qed

lemma complete_request_typed:
  assumes inv: "exec_typed posted ex" and kernel: "kernel_truthful host posted"
    and h: "h \<in> issued ex" "phase ex h \<noteq> Some True" and i: "io_intent i"
  shows "orderly (complete_one host h i ex) (\<lambda>ex'. exec_typed posted ex' \<and> kept ex ex')"
proof (cases i)
  case (SubmitRecv f b off)
  have bufs: "bp_ok POOL_BUF_SIZE (ex_io_bufs ex)"
    using inv by (simp add: exec_typed_def exec_ok_def conn.shares_def)
  have get: "orderly (buffer_pool_get_mut POOL_BUF_SIZE (ex_io_bufs ex) b)
      (\<lambda>r. \<forall>s. r = Some s \<longrightarrow> sl_len s = POOL_BUF_SIZE)"
    using buffer_pool_get_total(2) [OF bufs, of b] bp_slice_len [OF bufs] by auto
  have size: "ab_buf_size (bp_pool (ex_io_bufs ex)) = POOL_BUF_SIZE"
    using bufs by (simp add: bp_ok_def)
  show ?thesis
    unfolding complete_one_def SubmitRecv machine_intent.case Let_def size
  proof (intro orderly_assert orderly_andThen [OF get] orderly_unwrap_option)
    fix r and s :: slice assume "unat off < POOL_BUF_SIZE" "\<forall>s. r = Some s \<longrightarrow> sl_len s = POOL_BUF_SIZE" "r = Some s"
    then have "slice_from s (unat off) = Inr \<lparr>sl_ptr = sl_ptr s + unat off, sl_len = sl_len s - unat off\<rparr>"
      by (simp add: slice_from_def)
    then show "orderly (andThen (slice_from s (unat off)) (\<lambda>buf.
        io_submit host (ReadFixed f (sl_ptr buf) (of_nat (POOL_BUF_SIZE - unat off))
          (ucast (gid_index (bh_gid b))) (handle_into_u64 h)) ex)) (\<lambda>ex'. exec_typed posted ex' \<and> kept ex ex')"
      by (simp add: submit_typed [OF inv kernel h])
  qed
qed (use i in \<open>auto simp: io_intent_def complete_one_def intro: submit_typed [OF inv kernel h]\<close>)

text \<open>A new machine and its start event.\<close>

lemma start_typed:
  assumes inv: "exec_typed posted ex" and ok: "exec_ok ex1" and fresh: "h \<notin> issued ex"
    and view: "issued ex1 = insert h (issued ex)" "phase ex1 = (phase ex)(h := Some True)"
      "ex_run_queues ex1 = ex_run_queues ex" "ex_io ex1 = ex_io ex" "ex_current ex1 = ex_current ex"
  shows "orderly (run_queue_push (ex_current ex) \<lparr>rq_reason = Spawn, rq_handle = h\<rparr> ex1)
    (\<lambda>ex'. exec_typed posted ex' \<and> kept ex ex')"
proof -
  have cur: "ex_current ex < 2" using inv by (simp add: exec_typed_def exec_ok_def)
  have "typed (issued ex1) (phase ex1) (\<lparr>rq_reason = Spawn, rq_handle = h\<rparr> # queued ex1) (posted (ex_io ex1))"
    using inv fresh unfolding view queued_same [OF view(3)] by (simp add: exec_typed_def typed_spawned)
  then have "orderly (run_queue_push (ex_current ex) \<lparr>rq_reason = Spawn, rq_handle = h\<rparr> ex1)
      (\<lambda>ex'. exec_typed posted ex' \<and> issued ex' = issued ex1 \<and> phase ex' = phase ex1)"
    by (rule push_typed [OF ok cur])
  then show ?thesis
    by (rule orderly_mono) (use fresh in \<open>auto simp: kept_def view\<close>)
qed

lemma complete_spawn_typed:
  assumes inv: "exec_typed posted ex"
  shows "orderly (complete_one host handle (SpawnConnHandler f) ex) (\<lambda>ex'. exec_typed posted ex' \<and> kept ex ex')"
proof -
  let ?new = "conn_new (case f of Fixed d \<Rightarrow> d)"
  have ok: "exec_ok ex" using inv by (simp add: exec_typed_def)
  then have pool: "op_ok (ex_conn_pool ex)" by (simp add: exec_ok_def)
  show ?thesis
  proof (cases rule: spawn_cases [OF pool, of CONN_HANDLER ?new, case_names full spawned])
    case full
    then show ?thesis by (simp add: complete_one_def panics_def)
  next
    case (spawned h p)
    let ?ex = "ex\<lparr>ex_conn_pool := p\<rparr>"
    have "conn.shares {} (ex_io_bufs ex) (op_map p)"
      unfolding spawned(5)
      by (rule conn.shares_spawn)
        (use ok spawned(4) in \<open>auto simp: exec_ok_def conn_ok_def conn_owned_def conn_new_def\<close>)
    with ok spawned(2) have ok': "exec_ok ?ex" by (simp add: exec_ok_def)
    have iss: "issued ?ex = insert h (issued ex)" "h \<notin> issued ex"
      using spawned(3,6,7) by (auto simp: issued_def named_def)
    have "phase ?ex = (phase ex)(h := map_option (\<lambda>ch. ch_state ch = ConnInit) (Some ?new))"
      by (rule phase_conn_update) (simp_all add: spawned(3,5))
    then have ph: "phase ?ex = (phase ex)(h := Some True)" by (simp add: conn_new_def)
    from start_typed [OF inv ok' iss(2,1) ph] spawned(1) show ?thesis by (simp add: complete_one_def)
  qed
qed

lemma complete_list_typed:
  assumes "exec_typed posted ex" and kernel: "kernel_truthful host posted"
    and "h \<in> issued ex" and "phase ex h \<noteq> Some True" and "\<forall>i \<in> set new. io_intent i \<or> is_spawn_intent i"
  shows "orderly (complete_list host h (map Some new) ex) (exec_typed posted)"
  using assms(1,3,4,5)
proof (induction new arbitrary: ex)
  case Nil
  then show ?case by simp
next
  case (Cons i new)
  have one: "orderly (complete_one host h i ex) (\<lambda>ex'. exec_typed posted ex' \<and> kept ex ex')"
  proof (cases "is_spawn_intent i")
    case True
    with complete_spawn_typed [OF Cons.prems(1)] show ?thesis by (auto simp: is_spawn_intent_def)
  next
    case False
    with Cons.prems complete_request_typed [OF Cons.prems(1) kernel] show ?thesis by simp
  qed
  have "orderly (andThen (complete_one host h i ex) (complete_list host h (map Some new))) (exec_typed posted)"
    by (rule orderly_andThen [OF one]) (use Cons in \<open>auto simp: kept_def\<close>)
  then show ?case by simp
qed

lemma complete_retry_typed:
  assumes inv: "exec_typed posted ex" and h: "h \<in> issued ex" "phase ex h \<noteq> Some False"
    and once: "h \<notin> set (starts (queued ex))"
  shows "orderly (complete_one host h Retry ex) (exec_typed posted)"
proof -
  have ok: "exec_ok ex" using inv by (simp add: exec_typed_def)
  have i: "1 - ex_current ex < 2" by simp
  have "typed (issued ex) (phase ex) (\<lparr>rq_reason = Spawn, rq_handle = h\<rparr> # queued ex) (posted (ex_io ex))"
    using inv h once by (simp add: exec_typed_def typed_retry)
  then have "orderly (run_queue_push (1 - ex_current ex) \<lparr>rq_reason = Spawn, rq_handle = h\<rparr> ex)
      (\<lambda>ex'. exec_typed posted ex' \<and> issued ex' = issued ex \<and> phase ex' = phase ex)"
    by (rule push_typed [OF ok i])
  then have "orderly (run_queue_push (1 - ex_current ex) \<lparr>rq_reason = Spawn, rq_handle = h\<rparr> ex) (exec_typed posted)"
    by (rule orderly_mono) simp
  then show ?thesis
    by (simp add: complete_one_def next_run_queue_idx_ok [OF ok])
qed

lemma complete_terminate_typed:
  assumes inv: "exec_typed posted ex" and prof: "host_profile host = Checked"
    and h: "handle_pool_id h = CONN_HANDLER"
    and closed: "op_map (ex_conn_pool ex) (handle_gid h) = Some ch" "ch_state ch = Closed"
  shows "orderly (complete_one host h Terminate ex) (exec_typed posted)"
proof -
  have ok: "exec_ok ex" using inv by (simp add: exec_typed_def)
  then have pool: "op_ok (ex_conn_pool ex)" by (simp add: exec_ok_def)
  have live: "handle_gid h \<in> ga_live (op_alloc (ex_conn_pool ex))"
    using closed(1) by (simp add: op_map_def split: if_splits)
  from object_pool_despawn_live [OF pool live] show ?thesis
  proof (elim disjE exE conjE)
    fix p assume p: "object_pool_despawn Checked h (ex_conn_pool ex) = Inr (True, p)"
      "ga_live (op_alloc p) = ga_live (op_alloc (ex_conn_pool ex)) - {handle_gid h}"
      "ga_dead (op_alloc p) = insert (handle_gid h) (ga_dead (op_alloc (ex_conn_pool ex)))"
      "op_map p = (op_map (ex_conn_pool ex))(handle_gid h := None)"
    let ?ex = "ex\<lparr>ex_conn_pool := p\<rparr>"
    have run: "complete_one host h Terminate ex = Inr ?ex"
      using p(1) h prof by (simp add: complete_one_def)
    have "exec_ok ?ex"
      using complete_terminate [OF ok prof h closed] unfolding run by simp
    moreover have "issued ?ex = issued ex"
      using p(2,3) live by (auto simp: issued_def named_def)
    moreover have "phase ?ex = (phase ex)(h := None)"
      using phase_conn_update [of ?ex ex h None] p(4) h by simp
    moreover have "queued ?ex = queued ex" by (rule queued_same) simp
    ultimately show ?thesis
      using inv run typed_gone by (simp add: exec_typed_def)
  qed (simp add: complete_one_def h prof panics_def)
qed


section \<open>The machines\<close>

lemma tcp_listen_posted:
  assumes net: "net_apart net posted" and run: "tcp_listen net ts w = Inr (r, ts', w')"
  shows "posted w' \<subseteq> posted w"
proof -
  have sub: "net_socket net d v = (x, v') \<Longrightarrow> posted v' \<subseteq> posted v"
    "net_set_reuseaddr net fd b v = (y, v') \<Longrightarrow> posted v' \<subseteq> posted v"
    "net_bind net fd a v = (y, v') \<Longrightarrow> posted v' \<subseteq> posted v"
    "net_listen net fd n v = (y, v') \<Longrightarrow> posted v' \<subseteq> posted v"
    "posted (net_close net fd v) \<subseteq> posted v" for d fd b a n x y v v'
    using net unfolding net_apart_def by (metis snd_conv)+
  from run obtain a where a: "socket_addr_from_str (net_parse_v6 net) (ts_addr ts) = Some a"
    by (auto simp: tcp_listen_def andThen_eq_Inr unwrap_option_eq)
  obtain r1 w1 where 1: "net_socket net (case a of V4 _ _ \<Rightarrow> INET | V6 _ _ \<Rightarrow> INET6) w = (r1, w1)"
    by (rule prod.exhaust)
  obtain r2 w2 where 2: "net_set_reuseaddr net (projr r1) True w1 = (r2, w2)" by (rule prod.exhaust)
  obtain r3 w3 where 3: "net_bind net (projr r1) a w2 = (r3, w3)" by (rule prod.exhaust)
  obtain r4 w4 where 4: "net_listen net (projr r1) (ucast (ts_backlog ts)) w3 = (r4, w4)" by (rule prod.exhaust)
  note subs = sub(1) [OF 1] sub(2) [OF 2] sub(3) [OF 3] sub(4) [OF 4]
    sub(5) [of "projr r1" w2] sub(5) [of "projr r1" w3] sub(5) [of "projr r1" w4]
  from run have "w' \<in> {w1, w2, w3, w4, net_close net (projr r1) w2, net_close net (projr r1) w3,
      net_close net (projr r1) w4}"
    using 1 2 3 4 by (cases r1; cases r2; cases r3; cases r4) (auto simp: tcp_listen_def a)
  with subs show ?thesis by blast
qed

lemma tcp_process_event_typed:
  assumes net: "net_apart net posted"
    and fit: "case event of Spawn \<Rightarrow> ts_state ts = TcpInit | IoCompleted _ _ \<Rightarrow> ts_state ts \<noteq> TcpInit"
  shows "orderly (tcp_process_event net more_io ts ctx event w)
    (\<lambda>(ts', ctx', w'). ts_state ts' \<noteq> TcpInit \<and> posted w' \<subseteq> posted w)"
proof -
  have submit: "orderly (submit_intent i c) (\<lambda>_. True)" for i c
    by (auto simp: submit_intent_def panics_def rust_assert_def)
  have listen: "orderly (tcp_listen net ts w) (\<lambda>(r, ts', w'). posted w' \<subseteq> posted w)"
  proof (cases "tcp_listen net ts w")
    case (Inl f)
    then show ?thesis
      by (auto simp: tcp_listen_def Let_def andThen_eq_Inl unwrap_option_def panics_def split: option.splits)
  next
    case (Inr p)
    with tcp_listen_posted [OF net, of ts w] show ?thesis by (cases p) auto
  qed
  show ?thesis
  proof (cases event)
    case Spawn
    with fit have "tcp_process_event net more_io ts ctx event w = andThen (tcp_listen net ts w) (\<lambda>(r, ts, w).
        case r of Inr _ \<Rightarrow> andThen (tcp_multishot_accept ts ctx) (\<lambda>ctx. Inr (ts\<lparr>ts_state := TcpAccepting\<rparr>, ctx, w))
        | Inl e \<Rightarrow> Inr (ts\<lparr>ts_state := TcpError e\<rparr>, ctx, w))"
      by (simp add: tcp_process_event_def)
    then show ?thesis
      by (auto intro!: orderly_andThen [OF listen] orderly_andThen [OF submit]
          simp: tcp_multishot_accept_def split: sum.split)
  next
    case (IoCompleted res flags)
    with fit show ?thesis
      by (cases "ts_state ts")
        (auto intro!: orderly_andThen [OF submit] simp: tcp_process_event_def tcp_multishot_accept_def)
  qed
qed

text \<open>A connection event that fits ends in an orderly way.\<close>

lemma conn_process_event_orderly:
  assumes ok: "bp_ok POOL_BUF_SIZE (ctx_buffers ctx)" and inv: "conn_ok (ctx_buffers ctx) ch"
    and room: "ctx_len ctx + 1 < length (ctx_intents ctx)"
    and fit: "case event of Spawn \<Rightarrow> ch_state ch = ConnInit | IoCompleted _ _ \<Rightarrow> ch_state ch \<noteq> ConnInit"
  shows "orderly (conn_process_event Checked m ch ctx event) (\<lambda>_. True)"
proof (cases "conn_process_event Checked m ch ctx event")
  case (Inl f)
  with conn_event_step [OF ok inv room, where m = m and event = event] fit show ?thesis
    by (cases f) (auto simp: panics_def split: machine_event.splits conn_state.splits)
qed simp


section \<open>One event\<close>

lemma process_listener_typed:
  assumes ok: "exec_ok ex" and prof: "host_profile host = Checked" and kernel: "kernel_truthful host posted"
    and ty: "typed (issued ex) (phase ex) (e # queued ex) (posted (ex_io ex))"
    and tcp: "handle_pool_id (rq_handle e) = TCP_SERVER"
  shows "orderly (process_queued host e ex) (exec_typed posted)"
proof -
  let ?h = "rq_handle e"
  have pool: "op_ok (ex_tcp_pool ex)" using ok by (simp add: exec_ok_def)
  show ?thesis
  proof (cases "op_map (ex_tcp_pool ex) (handle_gid ?h)")
    case None
    with tcp object_pool_get_eq [OF pool, of ?h] typed_tail [OF ty] ok show ?thesis
      by (simp add: process_queued_def dispatch_def complete_intent_def exec_typed_def)
  next
    case (Some ts)
    let ?run = "tcp_process_event (host_net host) (host_more_io host) ts (ctx_of ex) (rq_reason e) (ex_io ex)"
    have ph: "phase ex ?h = Some (ts_state ts = TcpInit)" using tcp Some by (simp add: phase_def)
    have net: "net_apart (host_net host) posted" using kernel by (simp add: kernel_truthful_def)
    have fit: "case rq_reason e of Spawn \<Rightarrow> ts_state ts = TcpInit | IoCompleted _ _ \<Rightarrow> ts_state ts \<noteq> TcpInit"
      using ty ph by (auto simp: typed_def fits_def split: machine_event.splits)
    note step = tcp_process_event_typed [OF net fit, of "host_more_io host" "ctx_of ex" "ex_io ex"]
    show ?thesis
    proof (cases ?run)
      case (Inl f)
      with step tcp object_pool_get_eq [OF pool, of ?h] Some show ?thesis
        by (simp add: process_queued_def dispatch_def)
    next
      case (Inr r)
      then obtain ts' ctx w where run: "?run = Inr (ts', ctx, w)" by (cases r) auto
      with step have ts': "ts_state ts' \<noteq> TcpInit" and w: "posted w \<subseteq> posted (ex_io ex)" by auto
      from tcp_process_event_emits [OF run] obtain new where new: "emits new (ctx_of ex) ctx"
        and kind: "\<forall>i \<in> set new. io_intent i \<or> is_spawn_intent i"
        by (fastforce simp: io_intent_def is_spawn_intent_def)
      from dispatch_tcp_Inr [OF ok prof tcp Some run new] obtain ex' where
        d: "dispatch host (rq_reason e) ?h ex = Inr (length new, ex')"
          "complete_intent host (length new) ?h ex' = complete_list host ?h (map Some new) ex'"
        and ex': "ex_io ex' = w" "exec_ok ex'"
          "op_map (ex_tcp_pool ex') = (op_map (ex_tcp_pool ex))(handle_gid ?h \<mapsto> ts')"
          "ex_run_queues ex' = ex_run_queues ex" "ex_conn_pool ex' = ex_conn_pool ex"
          "op_alloc (ex_tcp_pool ex') = op_alloc (ex_tcp_pool ex)" by blast
      have iss: "issued ex' = issued ex" by (rule issued_same) (simp_all add: ex')
      have "phase ex' = (phase ex)(?h := map_option (\<lambda>ts. ts_state ts = TcpInit) (Some ts'))"
        by (rule phase_tcp_update) (simp_all add: ex' tcp)
      then have ph': "phase ex' = (phase ex)(?h := Some False)" using ts' by simp
      have "typed (issued ex) ((phase ex)(?h := Some False)) (queued ex) (posted (ex_io ex))"
        using typed_tail [OF ty] typed_no_second_start [OF ty] ph by (intro typed_started) simp_all
      then have "exec_typed posted ex'"
        using queued_same [OF ex'(4)] ex'(1,2) w typed_posted
        by (simp add: exec_typed_def iss ph')
      moreover have "?h \<in> issued ex'" "phase ex' ?h \<noteq> Some True"
        using ty by (simp_all add: typed_def iss ph')
      ultimately have "orderly (complete_list host ?h (map Some new) ex') (exec_typed posted)"
        using complete_list_typed [OF _ kernel _ _ kind] by blast
      with d show ?thesis by (simp add: process_queued_def)
    qed
  qed
qed

text \<open>The state after the dispatch of an event to a connection, before its intents are completed.\<close>

lemma dispatch_connection_typed:
  assumes ok: "exec_ok ex" and prof: "host_profile host = Checked"
    and ty: "typed (issued ex) (phase ex) (e # queued ex) (posted (ex_io ex))"
    and conn: "handle_pool_id (rq_handle e) = CONN_HANDLER"
    and ch: "op_map (ex_conn_pool ex) (handle_gid (rq_handle e)) = Some ch"
    and run: "conn_process_event Checked (host_memory host (ex_io ex)) ch (ctx_of ex) (rq_reason e) = Inr (ch', ctx)"
    and new: "emits new (ctx_of ex) ctx" and still: "ch_state ch' = ConnInit \<Longrightarrow> ch_state ch = ConnInit"
  obtains ex' where "process_queued host e ex = complete_list host (rq_handle e) (map Some new) ex'"
    "exec_typed posted ex'" "rq_handle e \<in> issued ex'" "phase ex' (rq_handle e) = Some (ch_state ch' = ConnInit)"
    "rq_handle e \<notin> set (starts (queued ex'))" "op_map (ex_conn_pool ex') (handle_gid (rq_handle e)) = Some ch'"
proof -
  let ?h = "rq_handle e"
  let ?ph = "(phase ex)(?h := Some (ch_state ch' = ConnInit))"
  have ph: "phase ex ?h = Some (ch_state ch = ConnInit)" using conn ch by (simp add: phase_def)
  note once = typed_no_second_start [OF ty]
  from dispatch_conn_Inr [OF ok prof conn ch run new] obtain ex' where
    d: "dispatch host (rq_reason e) ?h ex = Inr (length new, ex')"
      "complete_intent host (length new) ?h ex' = complete_list host ?h (map Some new) ex'"
    and ex': "ex_io ex' = ex_io ex" "exec_ok ex'"
      "op_map (ex_conn_pool ex') = (op_map (ex_conn_pool ex))(handle_gid ?h \<mapsto> ch')"
      "ex_run_queues ex' = ex_run_queues ex" "ex_tcp_pool ex' = ex_tcp_pool ex"
      "op_alloc (ex_conn_pool ex') = op_alloc (ex_conn_pool ex)" by blast
  have iss: "issued ex' = issued ex" by (rule issued_same) (simp_all add: ex')
  have "phase ex' = (phase ex)(?h := map_option (\<lambda>ch. ch_state ch = ConnInit) (Some ch'))"
    by (rule phase_conn_update) (simp_all add: ex' conn)
  then have ph': "phase ex' = ?ph" by simp
  have "typed (issued ex) ?ph (queued ex) (posted (ex_io ex))"
  proof (cases "ch_state ch' = ConnInit")
    case True
    with still ph have "?ph = phase ex" by (simp add: fun_eq_iff)
    with typed_tail [OF ty] show ?thesis by simp
  next
    case False
    then show ?thesis using typed_tail [OF ty] once ph by (simp add: typed_started)
  qed
  then have "exec_typed posted ex'"
    using queued_same [OF ex'(4)] ex'(1,2) by (simp add: exec_typed_def iss ph')
  moreover have "?h \<in> issued ex'" using ty by (simp add: typed_def iss)
  moreover have "?h \<notin> set (starts (queued ex'))" using once ph queued_same [OF ex'(4)] by simp
  ultimately show thesis
    using d by (intro that [of ex']) (simp_all add: process_queued_def ph' ex')
qed

lemma process_connection_typed:
  assumes ok: "exec_ok ex" and prof: "host_profile host = Checked" and kernel: "kernel_truthful host posted"
    and ty: "typed (issued ex) (phase ex) (e # queued ex) (posted (ex_io ex))"
    and conn: "handle_pool_id (rq_handle e) = CONN_HANDLER"
  shows "orderly (process_queued host e ex) (exec_typed posted)"
proof (cases "op_map (ex_conn_pool ex) (handle_gid (rq_handle e))")
  case None
  have "op_ok (ex_conn_pool ex)" using ok by (simp add: exec_ok_def)
  from object_pool_get_eq [OF this, of "rq_handle e"] conn None typed_tail [OF ty] ok show ?thesis
    by (simp add: process_queued_def dispatch_def complete_intent_def exec_typed_def)
next
  case (Some ch)
  let ?run = "conn_process_event Checked (host_memory host (ex_io ex)) ch (ctx_of ex) (rq_reason e)"
  have "phase ex (rq_handle e) = Some (ch_state ch = ConnInit)" using conn Some by (simp add: phase_def)
  then have fit: "case rq_reason e of Spawn \<Rightarrow> ch_state ch = ConnInit | IoCompleted _ _ \<Rightarrow> ch_state ch \<noteq> ConnInit"
    using ty by (auto simp: typed_def fits_def split: machine_event.splits)
  have pool: "op_ok (ex_conn_pool ex)" using ok by (simp add: exec_ok_def)
  note step = conn_process_event_orderly [OF exec_ok_conn(1-3) [OF ok Some] fit]
  show ?thesis
  proof (cases ?run)
    case (Inl f)
    with step [of "host_memory host (ex_io ex)"] conn prof object_pool_get_eq [OF pool, of "rq_handle e"] Some
    show ?thesis by (simp add: process_queued_def dispatch_def)
  next
    case (Inr r)
    then obtain ch' ctx where run: "?run = Inr (ch', ctx)" by (cases r) auto
    note dispatched = dispatch_connection_typed [where posted = posted, OF ok prof ty conn Some run]
    have single: "orderly (complete_list host h (map Some [i]) ex') P" if "orderly (complete_one host h i ex') P"
      for h i ex' and P :: "'a executor \<Rightarrow> bool"
      using that by (cases "complete_one host h i ex'") simp_all
    from run show ?thesis
    proof (cases rule: conn_event_next)
      case retry
      show ?thesis
        by (rule dispatched [OF retry(4)]) (use retry in \<open>auto intro!: single complete_retry_typed simp del: list.map\<close>)
    next
      case (requests new)
      show ?thesis
        by (rule dispatched [OF requests(2)])
          (use requests in \<open>auto intro!: complete_list_typed [OF _ kernel] simp: io_intent_def\<close>)
    next
      case finished
      show ?thesis
        by (rule dispatched [OF finished(2)])
          (use finished in \<open>auto intro!: single complete_terminate_typed [OF _ prof conn] simp del: list.map\<close>)
    qed
  qed
qed

lemma process_queued_typed:
  assumes "exec_ok ex" and "host_profile host = Checked" and "kernel_truthful host posted"
    and ty: "typed (issued ex) (phase ex) (e # queued ex) (posted (ex_io ex))"
  shows "orderly (process_queued host e ex) (exec_typed posted)"
proof -
  have "rq_handle e \<in> issued ex" using ty by (simp add: typed_def)
  then consider "handle_pool_id (rq_handle e) = TCP_SERVER" | "handle_pool_id (rq_handle e) = CONN_HANDLER"
    by (auto dest: issued_pool)
  then show ?thesis
    using process_listener_typed [OF assms] process_connection_typed [OF assms] by cases
qed


section \<open>The loops\<close>

lemma drain_run_queue_typed:
  assumes prof: "host_profile host = Checked" and kernel: "kernel_truthful host posted"
    and "exec_typed posted ex" and "drain_run_queue host ex = Some r"
  shows "orderly r (exec_typed posted)"
proof -
  have "host_profile host = Checked \<longrightarrow> kernel_truthful host posted \<longrightarrow> exec_typed posted ex \<longrightarrow>
    orderly r (exec_typed posted)"
  proof (rule drain_run_queue.raw_induct [OF _ assms(4)], intro impI)
    fix drain :: "'a host \<Rightarrow> 'a executor \<Rightarrow> 'a executor outcome option" and host ex r
    assume IH: "\<And>host ex r. drain host ex = Some r \<Longrightarrow> host_profile host = Checked \<longrightarrow>
        kernel_truthful host posted \<longrightarrow> exec_typed posted ex \<longrightarrow> orderly r (exec_typed posted)"
      and run: "(case run_queue_pop (ex_current ex) ex of Inl f \<Rightarrow> Some (Inl f)
        | Inr (r, ex) \<Rightarrow> (case r of None \<Rightarrow> Some (Inr ex)
           | Some event \<Rightarrow> (case process_queued host event ex of Inl f \<Rightarrow> Some (Inl f)
              | Inr ex \<Rightarrow> drain host ex))) = Some r"
      and host: "host_profile host = Checked" "kernel_truthful host posted" and inv: "exec_typed posted ex"
    have ok: "exec_ok ex" using inv by (simp add: exec_typed_def)
    then have cur: "ex_current ex < 2" by (simp add: exec_ok_def)
    show "orderly r (exec_typed posted)"
    proof (cases rule: run_queue_pop_cases [OF ok cur, case_names none some])
      case none
      with run inv show ?thesis by auto
    next
      case (some e ex1)
      have "typed K ph (queued ex) U \<longleftrightarrow> typed K ph (e # queued ex1) U" for K ph U
        using typed_queued [OF cur, of ex "[]" e "ex_queue (ex_current ex) ex1" ex1] some by simp
      moreover have "issued ex1 = issued ex" "phase ex1 = phase ex"
        using some by (simp_all add: issued_def phase_def fun_eq_iff)
      ultimately have "typed (issued ex1) (phase ex1) (e # queued ex1) (posted (ex_io ex1))"
        using inv some by (simp add: exec_typed_def)
      from process_queued_typed [OF some(2) host this] show ?thesis
        using run some(1) IH host by (cases "process_queued host e ex1") auto
    qed
  qed
  with assms show ?thesis by blast
qed

lemma drain_completions_typed:
  assumes kernel: "kernel_truthful host posted" and i: "i < 2"
    and "exec_typed posted ex" and "drain_completions host i ex = Some r"
  shows "orderly r (exec_typed posted)"
proof -
  have "kernel_truthful host posted \<longrightarrow> i < 2 \<longrightarrow> exec_typed posted ex \<longrightarrow> orderly r (exec_typed posted)"
  proof (rule drain_completions.raw_induct [OF _ assms(4)], intro impI)
    fix drain :: "'a host \<Rightarrow> usize \<Rightarrow> 'a executor \<Rightarrow> 'a executor outcome option" and host i ex r
    assume IH: "\<And>host i ex r. drain host i ex = Some r \<Longrightarrow> kernel_truthful host posted \<longrightarrow> i < 2 \<longrightarrow>
        exec_typed posted ex \<longrightarrow> orderly r (exec_typed posted)"
      and run: "(case io_completion_next (host_io host) (ex_io ex) of (r, w) \<Rightarrow>
        (case r of None \<Rightarrow> Some (Inr (ex\<lparr>ex_io := w\<rparr>))
         | Some cqe \<Rightarrow> (case run_queue_push i
             \<lparr>rq_reason = IoCompleted (cqe_result cqe) (cqe_flags cqe),
              rq_handle = handle_from_u64 (cqe_user_data cqe)\<rparr> (ex\<lparr>ex_io := w\<rparr>) of
              Inl f \<Rightarrow> Some (Inl f) | Inr ex \<Rightarrow> drain host i ex))) = Some r"
      and kernel: "kernel_truthful host posted" and i: "i < 2" and inv: "exec_typed posted ex"
    obtain x w where x: "io_completion_next (host_io host) (ex_io ex) = (x, w)" by (rule prod.exhaust)
    note posted = kernel_completion [OF kernel x]
    have ok: "exec_ok (ex\<lparr>ex_io := w\<rparr>)" using inv by (simp add: exec_typed_def)
    show "orderly r (exec_typed posted)"
    proof (cases x)
      case None
      with run x inv posted(1) typed_posted show ?thesis by (auto simp: exec_typed_def)
    next
      case (Some c)
      let ?e = "\<lparr>rq_reason = IoCompleted (cqe_result c) (cqe_flags c), rq_handle = handle_from_u64 (cqe_user_data c)\<rparr>"
      let ?ex = "ex\<lparr>ex_io := w\<rparr>"
      have "typed (issued ex) (phase ex) (?e # queued ex) (posted (ex_io ex))"
        using inv posted(2) Some by (simp add: exec_typed_def typed_completed)
      then have "typed (issued ?ex) (phase ?ex) (?e # queued ?ex) (posted (ex_io ?ex))"
        using posted(1) typed_posted by simp
      then have "orderly (run_queue_push i ?e ?ex)
          (\<lambda>ex'. exec_typed posted ex' \<and> issued ex' = issued ?ex \<and> phase ex' = phase ?ex)"
        by (rule push_typed [OF ok i])
      with run x Some IH kernel i show ?thesis by (cases "run_queue_push i ?e ?ex") auto
    qed
  qed
  with assms show ?thesis by blast
qed

lemma switch_run_queue_typed:
  assumes "exec_typed posted ex"
  shows "orderly (switch_run_queue Checked ex) (exec_typed posted)"
proof -
  let ?ex = "ex\<lparr>ex_current := 1 - ex_current ex\<rparr>"
  have "ex_current ex < 2" using assms by (simp add: exec_typed_def exec_ok_def)
  then have run: "switch_run_queue Checked ex = Inr ?ex"
    by (simp add: switch_run_queue_def usize_sub_def)
  have "issued ?ex = issued ex" "phase ?ex = phase ex" "queued ?ex = queued ex"
    by (simp_all add: issued_def phase_def queued_def ex_queue_def fun_eq_iff)
  moreover have "exec_ok ?ex" using assms by (simp add: exec_typed_def exec_ok_def less_imp_diff_less)
  ultimately show ?thesis using assms by (simp add: run exec_typed_def)
qed

lemma executor_tick_typed:
  assumes inv: "exec_typed posted ex" and prof: "host_profile host = Checked" and kernel: "kernel_truthful host posted"
  shows "\<exists>r. executor_tick host ex = Some r \<and> orderly r (exec_typed posted)"
proof -
  note host = kernel_truthful_safe [OF kernel]
  have ok: "exec_ok ex" using inv by (simp add: exec_typed_def)
  from executor_tick_total [OF ok host prof] obtain r where r: "executor_tick host ex = Some r" by blast
  from drain_run_queue_total [OF ok host prof] obtain r1 where r1: "drain_run_queue host ex = Some r1" by blast
  note step1 = drain_run_queue_typed [OF prof kernel inv r1]
  have wait: "orderly (executor_wait host x) (exec_typed posted)" if "exec_typed posted x" for x
    using kernel_wait [OF kernel, of x]
    by (rule orderly_mono) (use that typed_posted in \<open>auto simp: exec_typed_def\<close>)
  have step2: "orderly (andThen r1 (executor_wait host)) (exec_typed posted)"
    by (rule orderly_andThen [OF step1 wait])
  have "orderly r (exec_typed posted)"
  proof (cases "andThen r1 (executor_wait host)")
    case (Inl f)
    with r r1 step2 show ?thesis by (auto simp: executor_tick_def)
  next
    case (Inr ex1)
    with step2 have inv1: "exec_typed posted ex1" by simp
    then have ok1: "exec_ok ex1" by (simp add: exec_typed_def)
    have i: "1 - ex_current ex1 < 2" by simp
    from drain_completions_total [OF ok1 i] obtain r2 where
      r2: "drain_completions host (1 - ex_current ex1) ex1 = Some r2" by blast
    note step3 = drain_completions_typed [OF kernel i inv1 r2]
    have "r = andThen r2 (switch_run_queue Checked)"
      using r r1 Inr r2 next_run_queue_idx_ok [OF ok1] prof by (simp add: executor_tick_def)
    with orderly_andThen [OF step3 switch_run_queue_typed] show ?thesis by simp
  qed
  with r show ?thesis by blast
qed

lemma executor_ticks_typed:
  assumes "exec_typed posted ex" and "host_profile host = Checked" and "kernel_truthful host posted"
  shows "\<exists>r. executor_ticks n host ex = Some r \<and> orderly r (exec_typed posted)"
  using assms(1)
proof (induction n arbitrary: ex)
  case (Suc n)
  from executor_tick_typed [OF Suc.prems assms(2,3)] obtain r where
    r: "executor_tick host ex = Some r" "orderly r (exec_typed posted)" by blast
  with Suc.IH show ?case by (cases r) auto
qed simp


section \<open>Coming up\<close>

lemma executor_setup_typed:
  assumes inv: "exec_typed posted ex" and kernel: "kernel_truthful host posted"
  shows "orderly (executor_setup env host ex) (\<lambda>(r, ex'). exec_typed posted ex')"
proof -
  let ?ab = "bp_pool (ex_io_bufs ex)"
  have keep: "exec_typed posted (ex\<lparr>ex_io := w\<rparr>)" if "posted w \<subseteq> posted (ex_io ex)" for w
    using inv that typed_posted by (auto simp: exec_typed_def)
  have ab: "aligned_ok ?ab"
    using inv by (simp add: exec_typed_def exec_ok_def conn.shares_def bp_ok_def)
  then have count: "0 < ab_count ?ab" by (auto simp: aligned_ok_def)
  obtain items where items: "pool_iovecs ?ab [0..<ab_count ?ab] = Inr items"
    using pool_iovecs_ok [OF ab, of "[0..<ab_count ?ab]"] by simp
  have bufs: "orderly (array_from_fixed_iter (env_oom env) iovec_layout (ab_count ?ab) items)
      (\<lambda>a. \<exists>vs. array_deref a = Inr vs)"
  proof -
    have "array_deref a \<in> range Inr"
      if "array_from_fixed_iter (env_oom env) iovec_layout (ab_count ?ab) items = Inr a" for a
      using array_from_fixed_iter_ok [OF that] by (auto simp: array_ok_def array_deref_def)
    then show ?thesis
      using array_from_fixed_iter_orderly [OF count, of iovec_layout "env_oom env" items]
      by (cases "array_from_fixed_iter (env_oom env) iovec_layout (ab_count ?ab) items") auto
  qed
  have last: "orderly (andThen (array_from_fixed_iter (env_oom env) iovec_layout (ab_count ?ab) items) (\<lambda>bufs.
      andThen (array_deref bufs) (\<lambda>vs. andThen (io_register_buffers (host_io host) vs w)
        (\<lambda>(r, w'). Inr (r, ex\<lparr>ex_io := w'\<rparr>))))) (\<lambda>(r, ex'). exec_typed posted ex')"
    if w: "posted w \<subseteq> posted (ex_io ex)" for w
  proof (rule orderly_andThen [OF bufs], elim exE)
    fix a :: "iovec array" and vs assume vs: "array_deref a = Inr vs"
    have "orderly (andThen (io_register_buffers (host_io host) vs w) (\<lambda>(r, w'). Inr (r, ex\<lparr>ex_io := w'\<rparr>)))
        (\<lambda>(r, ex'). exec_typed posted ex')"
      by (rule orderly_andThen [OF kernel_register(2) [OF kernel]]) (use keep w in auto)
    with vs show "orderly (andThen (array_deref a) (\<lambda>vs. andThen (io_register_buffers (host_io host) vs w)
        (\<lambda>(r, w'). Inr (r, ex\<lparr>ex_io := w'\<rparr>)))) (\<lambda>(r, ex'). exec_typed posted ex')" by simp
  qed
  show ?thesis
    unfolding executor_setup_def Let_def
    by (rule orderly_andThen [OF kernel_register(1) [OF kernel]])
      (use items keep last in \<open>auto split: sum.split\<close>)
qed

lemma seed_run_queue_typed:
  assumes inv: "exec_typed posted ex"
  shows "orderly (seed_run_queue ex) (exec_typed posted)"
proof -
  let ?new = "tcp_server_new ''0.0.0.0:3000'' 4096"
  have ok: "exec_ok ex" using inv by (simp add: exec_typed_def)
  then have pool: "op_ok (ex_tcp_pool ex)" by (simp add: exec_ok_def)
  show ?thesis
  proof (cases rule: spawn_cases [OF pool, of TCP_SERVER ?new, case_names full spawned])
    case full
    then show ?thesis by (simp add: seed_run_queue_def panics_def)
  next
    case (spawned h p)
    let ?ex = "ex\<lparr>ex_tcp_pool := p\<rparr>"
    have ok': "exec_ok ?ex" using ok spawned(2) by (simp add: exec_ok_def)
    have iss: "issued ?ex = insert h (issued ex)" "h \<notin> issued ex"
      using spawned(3,6,7) by (auto simp: issued_def named_def)
    have "phase ?ex = (phase ex)(h := map_option (\<lambda>ts. ts_state ts = TcpInit) (Some ?new))"
      by (rule phase_tcp_update) (simp_all add: spawned(3,5))
    then have ph: "phase ?ex = (phase ex)(h := Some True)" by (simp add: tcp_server_new_def)
    from start_typed [OF inv ok' iss(2,1) ph]
    have "orderly (run_queue_push (ex_current ex) \<lparr>rq_reason = Spawn, rq_handle = h\<rparr> ?ex) (exec_typed posted)"
      by (auto elim: orderly_mono)
    with spawned(1) show ?thesis by (simp add: seed_run_queue_def)
  qed
qed

lemma executor_run_typed:
  assumes inv: "exec_typed posted ex" and prof: "host_profile host = Checked" and kernel: "kernel_truthful host posted"
  shows "\<exists>r. executor_run n env host ex = Some r \<and> orderly r (exec_typed posted)"
proof -
  let ?start = "andThen (executor_setup env host ex) (\<lambda>(r, ex).
    andThen (unwrap_result r) (\<lambda>_. seed_run_queue ex))"
  have start: "orderly ?start (exec_typed posted)"
    by (rule orderly_andThen [OF executor_setup_typed [OF inv kernel]])
      (auto intro!: orderly_unwrap_result seed_run_queue_typed)
  show ?thesis
  proof (cases ?start)
    case (Inl f)
    with start show ?thesis by (simp add: executor_run_def)
  next
    case (Inr ex')
    with start have "exec_typed posted ex'" by simp
    from executor_ticks_typed [OF this prof kernel] Inr show ?thesis by (simp add: executor_run_def)
  qed
qed

text \<open>A new executor has no events and no machines, and nothing has been posted to its ring.\<close>

lemma executor_new_typed:
  assumes "exec_ok ex" and "ex_queue 0 ex = []" and "ex_queue 1 ex = []" and "posted (ex_io ex) = {}"
  shows "exec_typed posted ex"
  using assms by (simp add: exec_typed_def typed_def queued_def)

end
