(* ===== verification/Logger.thy ===== *)
theory Logger
  imports Aligned_Buffers
begin

text \<open>
  The double-buffered log queue of \<open>hoarder-log/src/lib.rs\<close>: \<open>Logger\<close>, \<open>Producer\<close> and \<open>Consumer\<close>. The
  methods are programs of atomic steps: each load, store and read-modify-write of an atomic is one
  step, and a program counter holds the local variables that are still needed. Threads interleave,
  sequentially consistently. \<open>weak\<close> is the answer of a \<open>compare_exchange_weak\<close> whose comparison
  succeeds: it may still fail spuriously. Copying into or out of a buffer is one step; that no other
  thread holds the buffer meanwhile is what the invariant of \<open>Logger_Invariant\<close> says.
\<close>

abbreviation WRITER_BIT :: u16 where "WRITER_BIT \<equiv> 0x100"
abbreviation INDEX_MASK :: u16 where "INDEX_MASK \<equiv> 1"

record logger =
  lg_bufs :: "aligned_buffers list"
  lg_offsets :: "usize list"
  lg_state :: u16

record producer =
  pr_buf_size :: usize

text \<open>\<open>raw0\<close> and \<open>raw1\<close> are the addresses the allocator answers.\<close>

definition logger_new :: "addr \<Rightarrow> addr \<Rightarrow> usize \<Rightarrow> (producer \<times> logger) result outcome" where
  "logger_new raw0 raw1 buf_size =
     andThen (rust_assert (0x1000 \<le> buf_size)) (\<lambda>_.
     andThen (aligned_new raw0 1 buf_size 0x1000) (\<lambda>r0.
     (case r0 of Inl e \<Rightarrow> Inr (Inl e)
      | Inr b0 \<Rightarrow>
          andThen (aligned_new raw1 1 buf_size 0x1000) (\<lambda>r1.
          (case r1 of Inl e \<Rightarrow> Inr (Inl e)
           | Inr b1 \<Rightarrow>
               Inr (Inr (\<lparr>pr_buf_size = buf_size\<rparr>,
                 \<lparr>lg_bufs = [b0, b1], lg_offsets = [0, 0], lg_state = 0\<rparr>)))))))"

definition logger_offset :: "logger \<Rightarrow> usize \<Rightarrow> usize outcome" where
  "logger_offset lg idx =
     (if idx < length (lg_offsets lg) then Inr (lg_offsets lg ! idx) else Inl SliceBounds)"

definition logger_set_offset :: "logger \<Rightarrow> usize \<Rightarrow> usize \<Rightarrow> logger outcome" where
  "logger_set_offset lg idx v =
     (if idx < length (lg_offsets lg) then Inr (lg\<lparr>lg_offsets := (lg_offsets lg)[idx := v]\<rparr>)
      else Inl SliceBounds)"

definition logger_buf :: "logger \<Rightarrow> usize \<Rightarrow> aligned_buffers outcome" where
  "logger_buf lg idx = (if idx < length (lg_bufs lg) then Inr (lg_bufs lg ! idx) else Inl SliceBounds)"


section \<open>The producer\<close>

datatype ppc =
    PIdle
  | PLoad "u8 list"                 \<comment> \<open>at the head of the loop\<close>
  | PCas "u8 list" u16              \<comment> \<open>\<open>curr_state\<close> loaded\<close>
  | POffset "u8 list" usize         \<comment> \<open>writer bit taken for this buffer\<close>
  | PReject usize                   \<comment> \<open>the data does not fit\<close>
  | PCopy "u8 list" usize usize     \<comment> \<open>buffer and offset known\<close>
  | PAdd "u8 list" usize            \<comment> \<open>data copied\<close>
  | PRelease usize
  | PDone "unit result"

text \<open>\<open>from_raw_parts_mut(bufs[idx].buf_ptr_mut(0), buf_size)[offset..][..len].copy_from_slice(data)\<close>.\<close>

definition producer_copy ::
  "usize \<Rightarrow> logger \<Rightarrow> memory \<Rightarrow> u8 list \<Rightarrow> usize \<Rightarrow> usize \<Rightarrow> memory outcome" where
  "producer_copy buf_size lg m data idx offset =
     andThen (logger_buf lg idx) (\<lambda>b.
     andThen (buf_ptr_mut b 0) (\<lambda>p.
     andThen (slice_from_raw b p buf_size) (\<lambda>s.
     andThen (slice_from s offset) (\<lambda>s.
     andThen (slice_upto s (length data)) (\<lambda>s.
     copy_from_slice m s data)))))"

fun producer_step ::
  "producer \<Rightarrow> bool \<Rightarrow> logger \<Rightarrow> memory \<Rightarrow> ppc \<Rightarrow> (logger \<times> memory \<times> ppc) outcome" where
  "producer_step p weak lg m (PLoad data) =
     (let curr_state = lg_state lg in
      andThen (rust_assert (curr_state AND INDEX_MASK \<le> 1)) (\<lambda>_.
      Inr (lg, m, PCas data curr_state)))"
| "producer_step p weak lg m (PCas data curr_state) =
     (let active_buffer_idx = curr_state AND INDEX_MASK;
          new_state = WRITER_BIT OR active_buffer_idx in
      if lg_state lg = curr_state \<and> weak
      then Inr (lg\<lparr>lg_state := new_state\<rparr>, m, POffset data (unat active_buffer_idx))
      else Inr (lg, m, PLoad data))"
| "producer_step p weak lg m (POffset data idx) =
     andThen (logger_offset lg idx) (\<lambda>offset.
     (case checked_add offset (length data) of
        None \<Rightarrow> Inr (lg, m, PReject idx)
      | Some e \<Rightarrow>
          if pr_buf_size p < e then Inr (lg, m, PReject idx)
          else Inr (lg, m, PCopy data idx offset)))"
| "producer_step p weak lg m (PReject idx) =
     Inr (lg\<lparr>lg_state := lg_state lg AND NOT WRITER_BIT\<rparr>, m, PDone (Inl PushError))"
| "producer_step p weak lg m (PCopy data idx offset) =
     andThen (producer_copy (pr_buf_size p) lg m data idx offset) (\<lambda>m. Inr (lg, m, PAdd data idx))"
| "producer_step p weak lg m (PAdd data idx) =
     andThen (logger_offset lg idx) (\<lambda>offset.
     andThen (logger_set_offset lg idx ((offset + length data) mod usize_limit)) (\<lambda>lg.
     Inr (lg, m, PRelease idx)))"
| "producer_step p weak lg m (PRelease idx) =
     Inr (lg\<lparr>lg_state := lg_state lg AND NOT WRITER_BIT\<rparr>, m, PDone (Inr ()))"
| "producer_step p weak lg m PIdle = Inr (lg, m, PIdle)"
| "producer_step p weak lg m (PDone r) = Inr (lg, m, PDone r)"

text \<open>One pass of \<open>panic_flush\<close> over a buffer, and the whole: the slices handed to the callback.\<close>

definition panic_flush_buf :: "logger \<Rightarrow> memory \<Rightarrow> usize \<Rightarrow> u8 list list outcome" where
  "panic_flush_buf lg m idx =
     andThen (logger_offset lg idx) (\<lambda>offset.
     if 0 < offset then
       andThen (logger_buf lg idx) (\<lambda>b.
       andThen (buf_ptr b 0) (\<lambda>p.
       andThen (slice_from_raw b p offset) (\<lambda>s. Inr [slice_bytes m s])))
     else Inr [])"

definition panic_flush :: "logger \<Rightarrow> memory \<Rightarrow> u8 list list outcome" where
  "panic_flush lg m =
     andThen (panic_flush_buf lg m 0) (\<lambda>a. andThen (panic_flush_buf lg m 1) (\<lambda>b. Inr (a @ b)))"


section \<open>The consumer\<close>

datatype cpc =
    CIdle
  | CLoad                           \<comment> \<open>at the head of the loop\<close>
  | CCas u16
  | COffset usize                   \<comment> \<open>buffers switched, this one to be drained\<close>
  | CRead usize usize
  | CReset usize
  | CDone

text \<open>The last component lists the slices handed to the callback in this step.\<close>

fun consumer_step ::
  "bool \<Rightarrow> logger \<Rightarrow> memory \<Rightarrow> cpc \<Rightarrow> (logger \<times> cpc \<times> u8 list list) outcome" where
  "consumer_step weak lg m CLoad =
     (let curr_state = lg_state lg in
      if curr_state AND WRITER_BIT \<noteq> 0 then Inr (lg, CLoad, [])
      else andThen (rust_assert (curr_state AND INDEX_MASK \<le> 1)) (\<lambda>_. Inr (lg, CCas curr_state, [])))"
| "consumer_step weak lg m (CCas curr_state) =
     (let active_buffer_idx = curr_state AND INDEX_MASK;
          new_state = INDEX_MASK AND (1 - active_buffer_idx) in
      if lg_state lg = curr_state \<and> weak
      then Inr (lg\<lparr>lg_state := new_state\<rparr>, COffset (unat active_buffer_idx), [])
      else Inr (lg, CLoad, []))"
| "consumer_step weak lg m (COffset idx) =
     andThen (logger_offset lg idx) (\<lambda>offset.
     if 0 < offset then Inr (lg, CRead idx offset, []) else Inr (lg, CReset idx, []))"
| "consumer_step weak lg m (CRead idx offset) =
     andThen (logger_buf lg idx) (\<lambda>b.
     andThen (buf_ptr b 0) (\<lambda>p.
     andThen (slice_from_raw b p offset) (\<lambda>s. Inr (lg, CReset idx, [slice_bytes m s]))))"
| "consumer_step weak lg m (CReset idx) =
     andThen (logger_set_offset lg idx 0) (\<lambda>lg. Inr (lg, CDone, []))"
| "consumer_step weak lg m CIdle = Inr (lg, CIdle, [])"
| "consumer_step weak lg m CDone = Inr (lg, CDone, [])"

lemmas logger_defs [run_defs] = logger_new_def logger_offset_def logger_set_offset_def
  logger_buf_def producer_copy_def panic_flush_buf_def panic_flush_def


section \<open>Interleaving\<close>

text \<open>
  Any number of producer threads and the one consumer thread. \<open>ls_out\<close> collects what the callback
  was given; \<open>ls_pushed\<close>, which no code reads, what producers have committed to a buffer, in order.
\<close>

record log_system =
  ls_logger :: logger
  ls_mem :: memory
  ls_prods :: "ppc list"
  ls_cons :: cpc
  ls_out :: "u8 list list"
  ls_pushed :: "u8 list list"

definition log_start :: "nat \<Rightarrow> memory \<Rightarrow> logger \<Rightarrow> log_system" where
  "log_start n m lg = \<lparr>ls_logger = lg, ls_mem = m, ls_prods = replicate n PIdle, ls_cons = CIdle,
     ls_out = [], ls_pushed = []\<rparr>"

datatype log_action =
    Push nat "u8 list"              \<comment> \<open>thread \<open>i\<close> calls \<open>push\<close>\<close>
  | Produce nat bool
  | Return nat                      \<comment> \<open>and returns from it\<close>
  | Consume                         \<comment> \<open>the consumer calls \<open>consume\<close>\<close>
  | Drain bool
  | Drained

fun committed :: "ppc \<Rightarrow> u8 list list" where
  "committed (PAdd data idx) = [data]"
| "committed _ = []"

fun log_act :: "producer \<Rightarrow> log_action \<Rightarrow> log_system \<Rightarrow> log_system outcome" where
  "log_act p (Push i data) s =
     (if i < length (ls_prods s) \<and> ls_prods s ! i = PIdle
      then Inr (s\<lparr>ls_prods := (ls_prods s)[i := PLoad data]\<rparr>) else Inr s)"
| "log_act p (Produce i weak) s =
     (if i < length (ls_prods s) then
        andThen (producer_step p weak (ls_logger s) (ls_mem s) (ls_prods s ! i)) (\<lambda>(lg, m, pc).
        Inr (s\<lparr>ls_logger := lg, ls_mem := m, ls_prods := (ls_prods s)[i := pc],
               ls_pushed := ls_pushed s @ committed (ls_prods s ! i)\<rparr>))
      else Inr s)"
| "log_act p (Return i) s =
     (if i < length (ls_prods s) then
        (case ls_prods s ! i of PDone _ \<Rightarrow> Inr (s\<lparr>ls_prods := (ls_prods s)[i := PIdle]\<rparr>) | _ \<Rightarrow> Inr s)
      else Inr s)"
| "log_act p Consume s =
     (if ls_cons s = CIdle then Inr (s\<lparr>ls_cons := CLoad\<rparr>) else Inr s)"
| "log_act p (Drain weak) s =
     andThen (consumer_step weak (ls_logger s) (ls_mem s) (ls_cons s)) (\<lambda>(lg, pc, cb).
     Inr (s\<lparr>ls_logger := lg, ls_cons := pc, ls_out := ls_out s @ cb\<rparr>))"
| "log_act p Drained s =
     (if ls_cons s = CDone then Inr (s\<lparr>ls_cons := CIdle\<rparr>) else Inr s)"

inductive log_reach :: "producer \<Rightarrow> log_system \<Rightarrow> log_system \<Rightarrow> bool" for p s0 where
  start: "log_reach p s0 s0"
| act: "log_reach p s0 s \<Longrightarrow> log_act p a s = Inr s' \<Longrightarrow> log_reach p s0 s'"

inductive_cases log_reachE: "log_reach p s0 s"

fun log_acts :: "producer \<Rightarrow> log_action list \<Rightarrow> log_system \<Rightarrow> log_system outcome" where
  "log_acts p [] s = Inr s"
| "log_acts p (a # as) s = andThen (log_act p a s) (log_acts p as)"

lemma log_acts_reach:
  "log_reach p s0 s \<Longrightarrow> log_acts p as s = Inr s' \<Longrightarrow> log_reach p s0 s'"
  by (induction "as" arbitrary: s) (auto simp: andThen_eq_Inr intro: log_reach.act)

end
