(* ===== verification/Logger_Invariant.thy ===== *)
theory Logger_Invariant
  imports Logger
begin

text \<open>
  The invariant of the log queue with one producer thread, the way the program uses it: the writer
  bit is set exactly while the producer holds the active buffer, the consumer holds the other one or
  none, and what was committed is what was delivered, then what is being drained, then what waits in
  the active buffer. With two producer threads it fails; \<open>Log_Properties\<close> has the runs.
\<close>

definition log_geom :: "producer \<Rightarrow> logger \<Rightarrow> bool" where
  "log_geom p lg \<longleftrightarrow>
     length (lg_bufs lg) = 2 \<and> length (lg_offsets lg) = 2 \<and> pr_buf_size p < usize_limit \<and>
     (\<forall>b \<in> set (lg_bufs lg). aligned_ok b \<and> ab_count b = 1 \<and> ab_buf_size b = pr_buf_size p) \<and>
     slice_range (buf_slice (lg_bufs lg ! 0) 0) \<inter> slice_range (buf_slice (lg_bufs lg ! 1) 0) = {} \<and>
     (\<forall>i < 2. lg_offsets lg ! i \<le> pr_buf_size p)"

definition log_ptr :: "logger \<Rightarrow> nat \<Rightarrow> addr" where
  "log_ptr lg i = ab_ptr (lg_bufs lg ! i)"

text \<open>The bytes waiting in buffer \<open>i\<close>.\<close>

definition log_content :: "logger \<Rightarrow> memory \<Rightarrow> nat \<Rightarrow> u8 list" where
  "log_content lg m i = slice_bytes m \<lparr>sl_ptr = log_ptr lg i, sl_len = lg_offsets lg ! i\<rparr>"

fun p_holds :: "ppc \<Rightarrow> nat option" where
  "p_holds (POffset data idx) = Some idx"
| "p_holds (PReject idx) = Some idx"
| "p_holds (PCopy data idx offset) = Some idx"
| "p_holds (PAdd data idx) = Some idx"
| "p_holds (PRelease idx) = Some idx"
| "p_holds _ = None"

fun c_holds :: "cpc \<Rightarrow> nat option" where
  "c_holds (COffset idx) = Some idx"
| "c_holds (CRead idx offset) = Some idx"
| "c_holds (CReset idx) = Some idx"
| "c_holds _ = None"

fun p_locals :: "producer \<Rightarrow> logger \<Rightarrow> memory \<Rightarrow> ppc \<Rightarrow> bool" where
  "p_locals p lg m (PCopy data idx offset) \<longleftrightarrow>
     offset = lg_offsets lg ! idx \<and> offset + length data \<le> pr_buf_size p"
| "p_locals p lg m (PAdd data idx) \<longleftrightarrow>
     lg_offsets lg ! idx + length data \<le> pr_buf_size p \<and>
     slice_bytes m \<lparr>sl_ptr = log_ptr lg idx + lg_offsets lg ! idx, sl_len = length data\<rparr> = data"
| "p_locals p lg m _ \<longleftrightarrow> True"

fun c_locals :: "logger \<Rightarrow> cpc \<Rightarrow> bool" where
  "c_locals lg (CCas curr_state) \<longleftrightarrow> curr_state \<in> {0, 1}"
| "c_locals lg (CRead idx offset) \<longleftrightarrow> offset = lg_offsets lg ! idx \<and> 0 < offset"
| "c_locals lg _ \<longleftrightarrow> True"

text \<open>What the consumer holds and has not delivered.\<close>

fun c_pending :: "logger \<Rightarrow> memory \<Rightarrow> cpc \<Rightarrow> u8 list" where
  "c_pending lg m (COffset idx) = log_content lg m idx"
| "c_pending lg m (CRead idx offset) = log_content lg m idx"
| "c_pending lg m _ = []"

text \<open>\<open>a\<close> is the active buffer.\<close>

definition log_parts ::
  "producer \<Rightarrow> nat \<Rightarrow> logger \<Rightarrow> memory \<Rightarrow> ppc \<Rightarrow> cpc \<Rightarrow> u8 list list \<Rightarrow> u8 list list \<Rightarrow> bool" where
  "log_parts p a lg m pc cc out pushed \<longleftrightarrow>
     log_geom p lg \<and> a < 2 \<and>
     lg_state lg = (if p_holds pc = None then 0 else WRITER_BIT) OR of_nat a \<and>
     (\<forall>i. p_holds pc = Some i \<longrightarrow> i = a) \<and> (\<forall>i. c_holds cc = Some i \<longrightarrow> i = 1 - a) \<and>
     (c_holds cc = None \<longrightarrow> lg_offsets lg ! (1 - a) = 0) \<and>
     p_locals p lg m pc \<and> c_locals lg cc \<and>
     concat pushed = concat out @ c_pending lg m cc @ log_content lg m a"

definition log_inv :: "producer \<Rightarrow> log_system \<Rightarrow> bool" where
  "log_inv p s \<longleftrightarrow>
     (\<exists>a pc. ls_prods s = [pc] \<and>
       log_parts p a (ls_logger s) (ls_mem s) pc (ls_cons s) (ls_out s) (ls_pushed s))"


section \<open>The buffers\<close>

lemma below_2: "i < 2 \<longleftrightarrow> i = 0 \<or> i = (1::nat)"
  by auto

lemma log_geom_buf:
  assumes "log_geom p lg" and "i < 2"
  shows "aligned_ok (lg_bufs lg ! i)" "ab_count (lg_bufs lg ! i) = 1"
    "ab_buf_size (lg_bufs lg ! i) = pr_buf_size p" "logger_buf lg i = Inr (lg_bufs lg ! i)"
    "logger_offset lg i = Inr (lg_offsets lg ! i)"
    "logger_set_offset lg i v = Inr (lg\<lparr>lg_offsets := (lg_offsets lg)[i := v]\<rparr>)"
    "lg_offsets lg ! i \<le> pr_buf_size p"
  using assms by (auto simp: log_geom_def logger_buf_def logger_offset_def logger_set_offset_def)

lemma log_geom_ptr:
  assumes "log_geom p lg" and "i < 2"
  shows "buf_ptr (lg_bufs lg ! i) 0 = Inr (log_ptr lg i)"
    "buf_ptr_mut (lg_bufs lg ! i) 0 = Inr (log_ptr lg i)"
    "n \<le> pr_buf_size p \<Longrightarrow>
       slice_from_raw (lg_bufs lg ! i) (log_ptr lg i) n = Inr \<lparr>sl_ptr = log_ptr lg i, sl_len = n\<rparr>"
proof -
  note b = log_geom_buf [OF assms]
  then show "buf_ptr (lg_bufs lg ! i) 0 = Inr (log_ptr lg i)"
    "buf_ptr_mut (lg_bufs lg ! i) 0 = Inr (log_ptr lg i)"
    by (simp_all add: buf_ptr_def buf_ptr_mut_def ptr_add_def log_ptr_def)
  have "ab_total_size (lg_bufs lg ! i) = pr_buf_size p"
    using b by (simp add: aligned_ok_def)
  then show "n \<le> pr_buf_size p \<Longrightarrow>
      slice_from_raw (lg_bufs lg ! i) (log_ptr lg i) n = Inr \<lparr>sl_ptr = log_ptr lg i, sl_len = n\<rparr>"
    by (simp add: slice_from_raw_def log_ptr_def)
qed

lemma producer_copy_ok:
  assumes "log_geom p lg" and "i < 2" and "offset + length data \<le> pr_buf_size p"
  shows "producer_copy (pr_buf_size p) lg m data i offset =
    Inr (store_bytes m (log_ptr lg i + offset) data)"
  using assms(3) log_geom_buf [OF assms(1,2)] log_geom_ptr [OF assms(1,2)]
  by (simp add: producer_copy_def slice_from_def slice_upto_def copy_from_slice_def)

text \<open>Bytes written after the end of buffer \<open>i\<close>'s content change neither content.\<close>

lemma log_content_store:
  assumes geom: "log_geom p lg" and i: "i < 2" and j: "j < 2"
    and fits: "lg_offsets lg ! i + length data \<le> pr_buf_size p"
  shows "log_content lg (store_bytes m (log_ptr lg i + lg_offsets lg ! i) data) j = log_content lg m j"
proof -
  let ?at = "log_ptr lg i + lg_offsets lg ! i"
  have range: "slice_range (buf_slice (lg_bufs lg ! k) 0) = {log_ptr lg k ..< log_ptr lg k + pr_buf_size p}"
    if "k < 2" for k
    using log_geom_buf [OF geom that] by (simp add: slice_range_def buf_slice_def log_ptr_def)
  have apart: "{log_ptr lg 0 ..< log_ptr lg 0 + pr_buf_size p} \<inter>
      {log_ptr lg 1 ..< log_ptr lg 1 + pr_buf_size p} = {}"
    using geom range [of 0] range [of 1] by (simp add: log_geom_def)
  have written: "{?at ..< ?at + length data} \<subseteq> {log_ptr lg i ..< log_ptr lg i + pr_buf_size p}"
    using fits by auto
  have content: "slice_range \<lparr>sl_ptr = log_ptr lg j, sl_len = lg_offsets lg ! j\<rparr> \<subseteq>
      {log_ptr lg j ..< log_ptr lg j + pr_buf_size p}"
    using log_geom_buf(7) [OF geom j] by (auto simp: slice_range_def)
  have "slice_range \<lparr>sl_ptr = log_ptr lg j, sl_len = lg_offsets lg ! j\<rparr> \<inter> {?at ..< ?at + length data} = {}"
  proof (cases "i = j")
    case True
    then show ?thesis by (auto simp: slice_range_def)
  next
    case False
    with i j have "i = 0 \<and> j = 1 \<or> i = 1 \<and> j = 0" by auto
    with apart written content show ?thesis by fast
  qed
  then show ?thesis
    unfolding log_content_def by (rule slice_bytes_store_disjoint)
qed

text \<open>Moving the offset over the bytes just written appends them to the content.\<close>

lemma log_content_add:
  assumes "slice_bytes m \<lparr>sl_ptr = log_ptr lg i + lg_offsets lg ! i, sl_len = length data\<rparr> = data"
    and "i < length (lg_offsets lg)"
  shows "log_content (lg\<lparr>lg_offsets := (lg_offsets lg)[i := lg_offsets lg ! i + length data]\<rparr>) m i =
    log_content lg m i @ data"
  using assms slice_bytes_split [of m "log_ptr lg i" "lg_offsets lg ! i" "length data"]
  by (simp add: log_content_def log_ptr_def)

lemma log_content_other:
  "i \<noteq> j \<Longrightarrow> log_content (lg\<lparr>lg_offsets := (lg_offsets lg)[i := v]\<rparr>) m j = log_content lg m j"
  by (simp add: log_content_def log_ptr_def)

lemma log_content_state [simp]: "log_content (lg\<lparr>lg_state := w\<rparr>) m i = log_content lg m i"
  by (simp add: log_content_def log_ptr_def)

lemma log_ptr_simps [simp]:
  "log_ptr (lg\<lparr>lg_state := w\<rparr>) i = log_ptr lg i" "log_ptr (lg\<lparr>lg_offsets := os\<rparr>) i = log_ptr lg i"
  by (simp_all add: log_ptr_def)

lemma log_geom_state [simp]: "log_geom p (lg\<lparr>lg_state := w\<rparr>) = log_geom p lg"
  by (simp add: log_geom_def)

lemma log_geom_offset:
  "log_geom p lg \<Longrightarrow> v \<le> pr_buf_size p \<Longrightarrow> log_geom p (lg\<lparr>lg_offsets := (lg_offsets lg)[i := v]\<rparr>)"
  by (cases "i < 2") (auto simp: log_geom_def nth_list_update)

lemma c_pending_state [simp]: "c_pending (lg\<lparr>lg_state := w\<rparr>) m cc = c_pending lg m cc"
  by (cases cc) simp_all

lemma c_locals_state [simp]: "c_locals (lg\<lparr>lg_state := w\<rparr>) cc = c_locals lg cc"
  by (cases cc) simp_all

lemma p_locals_state [simp]: "p_locals p (lg\<lparr>lg_state := w\<rparr>) m pc = p_locals p lg m pc"
  by (cases pc) simp_all

text \<open>The state word.\<close>

lemma state_word [simp]:
  assumes "a < 2"
  shows "unat (of_nat a AND INDEX_MASK :: u16) = a" "(of_nat a :: u16) AND INDEX_MASK = of_nat a"
    "unat (of_nat a :: u16) = a"
    "((WRITER_BIT OR of_nat a) AND NOT WRITER_BIT :: u16) = of_nat a"
    "((WRITER_BIT OR of_nat a) AND WRITER_BIT :: u16) = WRITER_BIT"
    "((WRITER_BIT OR of_nat a) AND INDEX_MASK :: u16) = of_nat a"
    "(of_nat a AND WRITER_BIT :: u16) = 0" "(of_nat a :: u16) \<le> 1"
    "((WRITER_BIT OR of_nat a) AND - 257 :: u16) = of_nat a"
    "(INDEX_MASK AND (1 - of_nat a) :: u16) = of_nat (1 - a)"
  using assms unfolding below_2 by auto


section \<open>Every step keeps the invariant\<close>

lemma produce_parts:
  assumes inv: "log_parts p a lg m pc cc out pushed"
  shows "\<exists>lg' m' pc'. producer_step p weak lg m pc = Inr (lg', m', pc') \<and>
    log_parts p a lg' m' pc' cc out (pushed @ committed pc)"
proof -
  have geom: "log_geom p lg" and a: "a < 2" using inv by (auto simp: log_parts_def)
  then have other: "1 - a < 2" "1 - a \<noteq> a" by presburger+
  note at = log_geom_buf [OF geom a]
  have held: "c_holds cc = Some i \<Longrightarrow> i = 1 - a" for i
    using inv by (auto simp: log_parts_def)
  show ?thesis
  proof (cases pc)
    case (PLoad data)
    with inv a show ?thesis by (auto simp: log_parts_def Let_def)
  next
    case (PCas data curr)
    with inv a show ?thesis by (auto simp: log_parts_def Let_def)
  next
    case (POffset data idx)
    then have "idx = a" using inv by (simp add: log_parts_def)
    with POffset inv at show ?thesis
      by (auto simp: log_parts_def checked_add_def)
  next
    case (PReject idx)
    with inv a show ?thesis by (auto simp: log_parts_def)
  next
    case (PCopy data idx offset)
    then have idx: "idx = a" "offset = lg_offsets lg ! a" "offset + length data \<le> pr_buf_size p"
      using inv by (auto simp: log_parts_def)
    let ?m = "store_bytes m (log_ptr lg a + lg_offsets lg ! a) data"
    have content: "log_content lg ?m j = log_content lg m j" if "j < 2" for j
      using log_content_store [OF geom a that] idx by simp
    then have pending: "c_pending lg ?m cc = c_pending lg m cc"
      using held other by (cases cc) auto
    have "p_locals p lg ?m (PAdd data a)"
      using idx by (simp add: slice_bytes_store_same)
    with PCopy idx inv producer_copy_ok [OF geom a, of offset data m] content [OF a] pending
    show ?thesis by (auto simp: log_parts_def)
  next
    case (PAdd data idx)
    then have idx: "idx = a" "lg_offsets lg ! a + length data \<le> pr_buf_size p"
      "slice_bytes m \<lparr>sl_ptr = log_ptr lg a + lg_offsets lg ! a, sl_len = length data\<rparr> = data"
      using inv by (auto simp: log_parts_def)
    let ?lg = "lg\<lparr>lg_offsets := (lg_offsets lg)[a := lg_offsets lg ! a + length data]\<rparr>"
    have range: "a < length (lg_offsets lg)" "lg_offsets lg ! a + length data < usize_limit"
      using geom a idx(2) by (auto simp: log_geom_def)
    have pending: "c_pending ?lg m cc = c_pending lg m cc" and locals: "c_locals ?lg cc = c_locals lg cc"
      using held other by (cases cc; simp add: log_content_other)+
    have "log_geom p ?lg" by (rule log_geom_offset [OF geom idx(2)])
    moreover have "log_content ?lg m a = log_content lg m a @ data"
      using idx(3) range(1) by (rule log_content_add)
    ultimately show ?thesis
      using PAdd idx(1) inv at range other pending locals by (auto simp: log_parts_def)
  next
    case (PRelease idx)
    with inv a show ?thesis by (auto simp: log_parts_def)
  qed (use inv in auto)
qed

lemma drain_parts:
  assumes inv: "log_parts p a lg m pc cc out pushed"
  shows "\<exists>a' lg' cc' cb. consumer_step weak lg m cc = Inr (lg', cc', cb) \<and>
    log_parts p a' lg' m pc cc' (out @ cb) pushed"
proof -
  have geom: "log_geom p lg" and a: "a < 2" using inv by (auto simp: log_parts_def)
  then have other: "1 - a < 2" "1 - a \<noteq> a" "1 - (1 - a) = a" by presburger+
  note at = log_geom_buf [OF geom other(1)] log_geom_ptr [OF geom other(1)]
  show ?thesis
  proof (cases cc)
    case CLoad
    have "(of_nat a :: u16) = 0 \<or> (of_nat a :: u16) = 1" using a unfolding below_2 by auto
    with CLoad inv a show ?thesis
      by (intro exI [of _ a]; cases "p_holds pc = None") (auto simp: log_parts_def Let_def)
  next
    case (CCas curr)
    show ?thesis
    proof (cases "lg_state lg = curr \<and> weak")
      case False
      with CCas inv show ?thesis by (intro exI [of _ a]) (auto simp: log_parts_def Let_def)
    next
      case True
      have free: "p_holds pc = None"
      proof (rule ccontr)
        assume "p_holds pc \<noteq> None"
        with inv have "lg_state lg = WRITER_BIT OR of_nat a" by (auto simp: log_parts_def)
        moreover have "curr = 0 \<or> curr = 1" using inv CCas by (auto simp: log_parts_def)
        ultimately show False using True a unfolding below_2 by auto
      qed
      then have curr: "curr = of_nat a" using inv True by (auto simp: log_parts_def)
      have zero: "lg_offsets lg ! (1 - a) = 0" using inv CCas by (simp add: log_parts_def)
      then have empty: "log_content lg m (1 - a) = []"
        by (simp add: log_content_def slice_bytes_def)
      have "p_locals p (lg\<lparr>lg_state := of_nat (1 - a)\<rparr>) m pc" using free by (cases pc) auto
      with CCas True free curr inv a zero empty other show ?thesis
        by (intro exI [of _ "1 - a"] exI [of _ "lg\<lparr>lg_state := of_nat (1 - a)\<rparr>"]
            exI [of _ "COffset a"] exI [of _ "[]"])
          (auto simp: log_parts_def Let_def)
    qed
  next
    case (COffset idx)
    then have "idx = 1 - a" using inv by (simp add: log_parts_def)
    with COffset inv at show ?thesis
      by (intro exI [of _ a]) (auto simp: log_parts_def log_content_def slice_bytes_def)
  next
    case (CRead idx offset)
    then have idx: "idx = 1 - a" "offset = lg_offsets lg ! (1 - a)"
      using inv by (auto simp: log_parts_def)
    with at have "consumer_step weak lg m cc = Inr (lg, CReset idx, [log_content lg m (1 - a)])"
      by (simp add: CRead log_content_def)
    with CRead idx inv show ?thesis
      by (intro exI [of _ a]) (auto simp: log_parts_def)
  next
    case (CReset idx)
    then have idx: "idx = 1 - a" using inv by (simp add: log_parts_def)
    let ?lg = "lg\<lparr>lg_offsets := (lg_offsets lg)[1 - a := 0]\<rparr>"
    have "log_geom p ?lg" by (rule log_geom_offset [OF geom]) simp
    moreover have "p_locals p ?lg m pc"
      using inv other by (cases pc) (auto simp: log_parts_def)
    moreover have "?lg\<lparr>lg_offsets := lg_offsets ?lg\<rparr> = ?lg" by simp
    moreover have "lg_offsets ?lg ! (1 - a) = 0"
      using geom other by (simp add: log_geom_def)
    ultimately show ?thesis
      using CReset idx inv at other
      by (intro exI [of _ a]) (auto simp: log_parts_def log_content_other)
  qed (use inv in auto)
qed

lemma log_act_inv:
  assumes inv: "log_inv p s"
  shows "\<exists>s'. log_act p act s = Inr s' \<and> log_inv p s'"
proof -
  from inv obtain a pc where prods: "ls_prods s = [pc]"
    and parts: "log_parts p a (ls_logger s) (ls_mem s) pc (ls_cons s) (ls_out s) (ls_pushed s)"
    by (auto simp: log_inv_def)
  show ?thesis
  proof (cases act)
    case (Push i data)
    with inv prods parts show ?thesis
      by (cases "i = 0 \<and> pc = PIdle") (auto simp: log_inv_def log_parts_def)
  next
    case (Produce i weak)
    from produce_parts [OF parts, of weak] obtain lg' m' pc' where
      "producer_step p weak (ls_logger s) (ls_mem s) pc = Inr (lg', m', pc')"
      "log_parts p a lg' m' pc' (ls_cons s) (ls_out s) (ls_pushed s @ committed pc)" by blast
    with Produce inv prods show ?thesis
      by (cases i) (auto simp: log_inv_def)
  next
    case (Return i)
    with inv prods parts show ?thesis
      by (cases i; cases pc) (auto simp: log_inv_def log_parts_def)
  next
    case Consume
    with inv prods parts show ?thesis
      by (cases "ls_cons s = CIdle") (auto simp: log_inv_def log_parts_def)
  next
    case (Drain weak)
    from drain_parts [OF parts, of weak] obtain a' lg' cc' cb where
      "consumer_step weak (ls_logger s) (ls_mem s) (ls_cons s) = Inr (lg', cc', cb)"
      "log_parts p a' lg' (ls_mem s) pc cc' (ls_out s @ cb) (ls_pushed s)" by blast
    with Drain prods show ?thesis by (auto simp: log_inv_def)
  next
    case Drained
    with inv prods parts show ?thesis
      by (cases "ls_cons s = CDone") (auto simp: log_inv_def log_parts_def)
  qed
qed

lemma log_reach_inv: "log_reach p s0 s \<Longrightarrow> log_inv p s0 \<Longrightarrow> log_inv p s"
proof (induction rule: log_reach.induct)
  case (act s a s')
  from log_act_inv [OF act.IH [OF act.prems], of a] act.hyps show ?case by auto
qed

lemma log_start_inv:
  assumes "log_geom p lg" and "lg_offsets lg = [0, 0]" and "lg_state lg = 0"
  shows "log_inv p (log_start 1 m lg)"
  using assms
  by (auto simp: log_inv_def log_start_def log_parts_def log_content_def slice_bytes_def
      intro!: exI [of _ 0])

end
