(* ===== verification/Fmt_Buf.thy ===== *)
theory Fmt_Buf
  imports Errors
begin

text \<open>
  The formatting half of \<open>hoarder-log/src/lib.rs\<close>: \<open>FmtBuf\<close>, the log levels and the line the logging
  macros build. Strings are their UTF-8 bytes. What \<open>core::fmt\<close> does with the arguments of a macro
  is the list of the pieces it writes, in order.
\<close>

datatype log_level = LogPrint | LogDebug | LogInfo | LogWarn | LogError

definition string_bytes :: "string \<Rightarrow> u8 list" where
  "string_bytes s = map of_char s"

fun log_level_prefix :: "log_level \<Rightarrow> u8 list" where
  "log_level_prefix LogPrint = []"
| "log_level_prefix LogDebug = string_bytes ''[DEBUG] ''"
| "log_level_prefix LogInfo = string_bytes ''[INFO] ''"
| "log_level_prefix LogWarn = string_bytes ''[WARN] ''"
| "log_level_prefix LogError = string_bytes ''[ERROR] ''"

abbreviation MAX_LOG_LINE :: usize where "MAX_LOG_LINE \<equiv> 512"

record fmt_buf =
  fb_buf :: "u8 list"
  fb_pos :: usize

definition fmt_new :: "u8 list \<Rightarrow> fmt_buf" where
  "fmt_new buf = \<lparr>fb_buf = buf, fb_pos = 0\<rparr>"

definition fmt_as_bytes :: "fmt_buf \<Rightarrow> u8 list outcome" where
  "fmt_as_bytes f =
     (if fb_pos f \<le> length (fb_buf f) then Inr (take (fb_pos f) (fb_buf f)) else Inl SliceBounds)"

definition fmt_clear :: "fmt_buf \<Rightarrow> fmt_buf" where
  "fmt_clear f = f\<lparr>fb_pos := 0\<rparr>"

definition fmt_len :: "fmt_buf \<Rightarrow> usize" where
  "fmt_len f = fb_pos f"

text \<open>\<open>self.buf[pos..pos + to_write].copy_from_slice(&bytes[..to_write])\<close>.\<close>

definition fmt_write_str :: "profile \<Rightarrow> u8 list \<Rightarrow> fmt_buf \<Rightarrow> fmt_buf outcome" where
  "fmt_write_str pr bytes f =
     andThen (usize_sub pr (length (fb_buf f)) (fb_pos f)) (\<lambda>available.
     let to_write = min (length bytes) available in
     if fb_pos f + to_write \<le> length (fb_buf f) then
       Inr (f\<lparr>fb_buf := take (fb_pos f) (fb_buf f) @ take to_write bytes @
                drop (fb_pos f + to_write) (fb_buf f),
              fb_pos := fb_pos f + to_write\<rparr>)
     else Inl SliceBounds)"

fun fmt_write_fmt :: "profile \<Rightarrow> u8 list list \<Rightarrow> fmt_buf \<Rightarrow> fmt_buf outcome" where
  "fmt_write_fmt pr [] f = Inr f"
| "fmt_write_fmt pr (p # ps) f = andThen (fmt_write_str pr p f) (fmt_write_fmt pr ps)"

text \<open>The line \<open>__hlog!\<close> hands to the producer.\<close>

definition hlog_line :: "profile \<Rightarrow> log_level \<Rightarrow> u8 list list \<Rightarrow> u8 list outcome" where
  "hlog_line pr level args =
     andThen (fmt_write_str pr (log_level_prefix level) (fmt_new (replicate MAX_LOG_LINE 0))) (\<lambda>f.
     andThen (fmt_write_fmt pr args f) (\<lambda>f.
     andThen (fmt_write_str pr (string_bytes [CHR 0x0A]) f) fmt_as_bytes))"

text \<open>
  The macro: nothing without a logger, otherwise a push whose result is thrown away. The logger
  pointer is an option of the producer, and \<open>push\<close> is what a push through it does.
\<close>

definition hlog ::
  "profile \<Rightarrow> ('p \<Rightarrow> u8 list \<Rightarrow> 's \<Rightarrow> (unit result \<times> 's) outcome) \<Rightarrow> 'p option \<Rightarrow> log_level \<Rightarrow>
     u8 list list \<Rightarrow> 's \<Rightarrow> 's outcome" where
  "hlog pr push logger_ptr level args s =
     (case logger_ptr of
        None \<Rightarrow> Inr s
      | Some producer \<Rightarrow>
          andThen (hlog_line pr level args) (\<lambda>line.
          andThen (push producer line s) (\<lambda>(_, s). Inr s)))"

lemmas fmt_defs [run_defs] = fmt_new_def fmt_as_bytes_def fmt_clear_def fmt_len_def
  fmt_write_str_def hlog_line_def hlog_def


section \<open>Truncation\<close>

definition fmt_ok :: "fmt_buf \<Rightarrow> bool" where
  "fmt_ok f \<longleftrightarrow> fb_pos f \<le> length (fb_buf f)"

text \<open>The text written so far.\<close>

definition fmt_text :: "fmt_buf \<Rightarrow> u8 list" where
  "fmt_text f = take (fb_pos f) (fb_buf f)"

lemma fmt_new_text [simp]: "fmt_ok (fmt_new buf)" "fmt_text (fmt_new buf) = []"
  "length (fb_buf (fmt_new buf)) = length buf"
  by (simp_all add: fmt_ok_def fmt_text_def fmt_new_def)

lemma fmt_as_bytes_text: "fmt_ok f \<Longrightarrow> fmt_as_bytes f = Inr (fmt_text f)"
  by (simp add: fmt_ok_def fmt_as_bytes_def fmt_text_def)

lemma fmt_write_str_text:
  assumes "fmt_ok f"
  shows "\<exists>f'. fmt_write_str pr s f = Inr f' \<and> fmt_ok f' \<and> length (fb_buf f') = length (fb_buf f) \<and>
    fmt_text f' = take (length (fb_buf f)) (fmt_text f @ s)"
proof (cases "length s \<le> length (fb_buf f) - fb_pos f")
  case True
  then show ?thesis
    using assms by (auto simp: fmt_write_str_def Let_def usize_sub_def fmt_ok_def fmt_text_def)
next
  case False
  then show ?thesis
    using assms by (auto simp: fmt_write_str_def Let_def usize_sub_def fmt_ok_def fmt_text_def min_def)
qed

lemma fmt_write_fmt_text:
  "fmt_ok f \<Longrightarrow> \<exists>f'. fmt_write_fmt pr ps f = Inr f' \<and> fmt_ok f' \<and>
     length (fb_buf f') = length (fb_buf f) \<and>
     fmt_text f' = take (length (fb_buf f)) (fmt_text f @ concat ps)"
proof (induction ps arbitrary: f)
  case Nil
  then show ?case by (auto simp: fmt_ok_def fmt_text_def)
next
  case (Cons p ps)
  from fmt_write_str_text [OF Cons.prems, of pr p] obtain f1 where
    f1: "fmt_write_str pr p f = Inr f1" "fmt_ok f1" "length (fb_buf f1) = length (fb_buf f)"
      "fmt_text f1 = take (length (fb_buf f)) (fmt_text f @ p)" by blast
  with Cons.IH [OF f1(2)] show ?case
    by (auto simp: min_def)
qed

text \<open>The line is the prefix, the pieces and the newline, cut off at the size of the buffer.\<close>

definition log_line :: "log_level \<Rightarrow> u8 list \<Rightarrow> u8 list" where
  "log_line level msg = take MAX_LOG_LINE (log_level_prefix level @ msg @ string_bytes [CHR 0x0A])"

lemma hlog_line_eq: "hlog_line pr level args = Inr (log_line level (concat args))"
proof -
  let ?f = "fmt_new (replicate MAX_LOG_LINE 0)"
  obtain f1 where f1: "fmt_write_str pr (log_level_prefix level) ?f = Inr f1" "fmt_ok f1"
      "length (fb_buf f1) = MAX_LOG_LINE" "fmt_text f1 = take MAX_LOG_LINE (log_level_prefix level)"
    using fmt_write_str_text [of ?f pr "log_level_prefix level"]
    by (auto simp del: replicate_numeral_eq)
  obtain f2 where f2: "fmt_write_fmt pr args f1 = Inr f2" "fmt_ok f2" "length (fb_buf f2) = MAX_LOG_LINE"
      "fmt_text f2 = take MAX_LOG_LINE (fmt_text f1 @ concat args)"
    using fmt_write_fmt_text [OF f1(2), of pr args] f1(3) by auto
  obtain f3 where f3: "fmt_write_str pr (string_bytes [CHR 0x0A]) f2 = Inr f3" "fmt_ok f3"
      "fmt_text f3 = take MAX_LOG_LINE (fmt_text f2 @ string_bytes [CHR 0x0A])"
    using fmt_write_str_text [OF f2(2), of pr "string_bytes [CHR 0x0A]"] f2(3) by auto
  have "take n (take n (take n xs @ ys) @ zs) = take n (xs @ ys @ zs)" for n and xs ys zs :: "u8 list"
    by (auto simp: min_def)
  then have "fmt_text f3 = log_line level (concat args)" using f1(4) f2(4) f3(3) by (simp add: log_line_def)
  with f1 f2 f3 show ?thesis by (simp add: hlog_line_def fmt_as_bytes_text)
qed

lemma log_line_length: "length (log_line level msg) \<le> MAX_LOG_LINE"
  by (simp add: log_line_def)

lemma log_line_not_empty: "log_line level msg \<noteq> []"
  unfolding log_line_def by (simp only: take_eq_Nil) (simp add: string_bytes_def)

end
