(* ===== verification/Logger_Calls.thy ===== *)
theory Logger_Calls
  imports Logger_Invariant Fmt_Buf
begin

text \<open>
  Whole calls of \<open>push\<close> and \<open>consume\<close> that no other thread disturbs: the steps of \<open>Logger\<close> taken one
  after the other, with no spurious failure of a compare-exchange. The fuel \<open>6\<close> is the length of the
  longest such call of either method; a finished call takes no further step.
\<close>

fun producer_run ::
  "nat \<Rightarrow> producer \<Rightarrow> logger \<Rightarrow> memory \<Rightarrow> ppc \<Rightarrow> (logger \<times> memory \<times> ppc) outcome" where
  "producer_run 0 p lg m pc = Inr (lg, m, pc)"
| "producer_run (Suc n) p lg m pc =
     andThen (producer_step p True lg m pc) (\<lambda>(lg, m, pc). producer_run n p lg m pc)"

definition producer_push ::
  "producer \<Rightarrow> u8 list \<Rightarrow> logger \<times> memory \<Rightarrow> (unit result \<times> logger \<times> memory) outcome" where
  "producer_push p data s =
     andThen (producer_run 6 p (fst s) (snd s) (PLoad data)) (\<lambda>(lg, m, pc).
     (case pc of PDone r \<Rightarrow> Inr (r, lg, m) | _ \<Rightarrow> Inl Unreachable))"

fun consumer_run ::
  "nat \<Rightarrow> logger \<Rightarrow> memory \<Rightarrow> cpc \<Rightarrow> u8 list list \<Rightarrow> (logger \<times> cpc \<times> u8 list list) outcome" where
  "consumer_run 0 lg m cc out = Inr (lg, cc, out)"
| "consumer_run (Suc n) lg m cc out =
     andThen (consumer_step True lg m cc) (\<lambda>(lg, cc, cb). consumer_run n lg m cc (out @ cb))"

definition consumer_consume :: "logger \<times> memory \<Rightarrow> (u8 list list \<times> logger \<times> memory) outcome" where
  "consumer_consume s =
     andThen (consumer_run 6 (fst s) (snd s) CLoad []) (\<lambda>(lg, cc, out).
     (case cc of CDone \<Rightarrow> Inr (out, lg, snd s) | _ \<Rightarrow> Inl Unreachable))"

lemma six: "6 = Suc (Suc (Suc (Suc (Suc (Suc 0)))))"
  by simp

text \<open>A queue at rest: nobody holds a buffer, and the inactive one is empty.\<close>

definition log_rest :: "producer \<Rightarrow> nat \<Rightarrow> logger \<Rightarrow> bool" where
  "log_rest p a lg \<longleftrightarrow>
     log_geom p lg \<and> a < 2 \<and> lg_state lg = of_nat a \<and> lg_offsets lg ! (1 - a) = 0"

definition log_waiting :: "nat \<Rightarrow> logger \<times> memory \<Rightarrow> u8 list" where
  "log_waiting a s = log_content (fst s) (snd s) a"

lemma logger_new_rest:
  assumes new: "logger_new raw0 raw1 buf_size = Inr (Inr (p, lg))"
    and contract: "alloc_contract raw0 \<lparr>lay_size = buf_size, lay_align = 0x1000\<rparr>"
      "alloc_contract raw1 \<lparr>lay_size = buf_size, lay_align = 0x1000\<rparr>"
    and apart: "{raw0 ..< raw0 + buf_size} \<inter> {raw1 ..< raw1 + buf_size} = {}"
  shows "log_rest p 0 lg \<and> lg_offsets lg = [0, 0] \<and> lg_state lg = 0 \<and> pr_buf_size p = buf_size"
proof -
  from new obtain b0 b1 where
    b: "aligned_new raw0 1 buf_size 0x1000 = Inr (Inr b0)" "aligned_new raw1 1 buf_size 0x1000 = Inr (Inr b1)"
    and p: "p = \<lparr>pr_buf_size = buf_size\<rparr>"
    and lg: "lg = \<lparr>lg_bufs = [b0, b1], lg_offsets = [0, 0], lg_state = 0\<rparr>"
    by (auto simp: logger_new_def outcome_simps)
  have b0: "aligned_ok b0 \<and> ab_ptr b0 = raw0 \<and> ab_count b0 = 1 \<and> ab_buf_size b0 = buf_size"
    using contract(1) by (intro aligned_new_ok [OF b(1)]) simp
  have b1: "aligned_ok b1 \<and> ab_ptr b1 = raw1 \<and> ab_count b1 = 1 \<and> ab_buf_size b1 = buf_size"
    using contract(2) by (intro aligned_new_ok [OF b(2)]) simp
  have "buf_size \<le> isize_max" using b0 by (auto simp: aligned_ok_def layout_valid_def)
  then have "buf_size < usize_limit" using isize_max_less_limit by simp
  with b0 b1 apart show ?thesis
    by (auto simp: log_rest_def log_geom_def p lg slice_range_def buf_slice_def below_2)
qed

lemma producer_run_step:
  "producer_step p True lg m pc = Inr (lg', m', pc') \<Longrightarrow>
     producer_run (Suc n) p lg m pc = producer_run n p lg' m' pc'"
  by simp

lemma producer_push_fits:
  assumes rest: "log_rest p a lg" and fits: "lg_offsets lg ! a + length data \<le> pr_buf_size p"
  shows "\<exists>lg' m'. producer_push p data (lg, m) = Inr (Inr (), lg', m') \<and> log_rest p a lg' \<and>
    log_waiting a (lg', m') = log_waiting a (lg, m) @ data \<and>
    lg_offsets lg' ! a = lg_offsets lg ! a + length data"
proof -
  have geom: "log_geom p lg" and a: "a < 2" and st: "lg_state lg = of_nat a"
    and zero: "lg_offsets lg ! (1 - a) = 0"
    using rest by (auto simp: log_rest_def)
  have limit: "lg_offsets lg ! a + length data < usize_limit" using geom fits by (simp add: log_geom_def)
  let ?m = "store_bytes m (log_ptr lg a + lg_offsets lg ! a) data"
  let ?held = "lg\<lparr>lg_state := WRITER_BIT OR of_nat a\<rparr>"
  let ?stop = "lg_offsets lg ! a + length data"
  let ?added = "?held\<lparr>lg_offsets := (lg_offsets lg)[a := ?stop]\<rparr>"
  let ?lg = "lg\<lparr>lg_offsets := (lg_offsets lg)[a := ?stop]\<rparr>"
  have range: "a < length (lg_offsets lg)" using geom a by (simp add: log_geom_def)
  have neq: "a \<noteq> 1 - a" using a by presburger
  have "producer_step p True lg m (PLoad data) = Inr (lg, m, PCas data (of_nat a))"
    using a st by simp
  moreover have "producer_step p True lg m (PCas data (of_nat a)) = Inr (?held, m, POffset data a)"
    using a st by simp
  moreover have "producer_step p True ?held m (POffset data a) =
      Inr (?held, m, PCopy data a (lg_offsets lg ! a))"
    using range limit fits by (simp add: logger_offset_def checked_add_def)
  moreover have "producer_step p True ?held m (PCopy data a (lg_offsets lg ! a)) =
      Inr (?held, ?m, PAdd data a)"
    using producer_copy_ok [of p ?held a "lg_offsets lg ! a" data m] geom a fits by simp
  moreover have "producer_step p True ?held ?m (PAdd data a) = Inr (?added, ?m, PRelease a)"
    using range limit by (simp add: logger_offset_def logger_set_offset_def)
  moreover have "producer_step p True ?added ?m (PRelease a) = Inr (?lg, ?m, PDone (Inr ()))"
    using a st by (cases lg) simp
  ultimately have "producer_run 6 p lg m (PLoad data) = Inr (?lg, ?m, PDone (Inr ()))"
    by (simp only: six producer_run_step producer_run.simps(1))
  then have "producer_push p data (lg, m) = Inr (Inr (), ?lg, ?m)"
    by (simp add: producer_push_def)
  moreover have "log_rest p a ?lg"
    using log_geom_offset [OF geom fits, of a] a st zero neq by (simp add: log_rest_def)
  moreover have "log_waiting a (?lg, ?m) = log_waiting a (lg, m) @ data"
    using log_content_add [OF slice_bytes_store_same range] log_content_store [OF geom a a fits, of m]
    by (simp add: log_waiting_def)
  ultimately show ?thesis using range by auto
qed

lemma producer_push_full:
  assumes rest: "log_rest p a lg" and full: "pr_buf_size p < lg_offsets lg ! a + length data"
  shows "producer_push p data (lg, m) = Inr (Inl PushError, lg, m)"
proof -
  have a: "a < 2" and st: "lg_state lg = of_nat a" using rest by (auto simp: log_rest_def)
  have "logger_offset (lg\<lparr>lg_state := s\<rparr>) a = Inr (lg_offsets lg ! a)" for s
    using rest by (auto simp: logger_offset_def log_rest_def log_geom_def)
  then have "producer_push p data (lg, m) = Inr (Inl PushError, lg\<lparr>lg_state := of_nat a\<rparr>, m)"
    using a st full
    by (simp add: producer_push_def eval_nat_numeral checked_add_def Let_def split: option.split)
  moreover have "lg\<lparr>lg_state := of_nat a\<rparr> = lg" using st by (cases lg) simp
  ultimately show ?thesis by (simp only:)
qed

lemma consumer_run_step:
  "consumer_step True lg m cc = Inr (lg', cc', cb) \<Longrightarrow>
     consumer_run (Suc n) lg m cc out = consumer_run n lg' m cc' (out @ cb)"
  by simp

lemma consumer_consume_rest:
  assumes rest: "log_rest p a lg"
  shows "\<exists>lg'. consumer_consume (lg, m) =
      Inr (if log_waiting a (lg, m) = [] then [] else [log_waiting a (lg, m)], lg', m) \<and>
    log_rest p (1 - a) lg' \<and> log_waiting (1 - a) (lg', m) = [] \<and> lg_offsets lg' ! (1 - a) = 0"
proof -
  have geom: "log_geom p lg" and a: "a < 2" and st: "lg_state lg = of_nat a"
    and zero: "lg_offsets lg ! (1 - a) = 0"
    using rest by (auto simp: log_rest_def)
  note at = log_geom_buf [OF geom a] log_geom_ptr [OF geom a]
  let ?off = "lg_offsets lg ! a"
  let ?flip = "lg\<lparr>lg_state := of_nat (1 - a)\<rparr>"
  let ?lg = "?flip\<lparr>lg_offsets := (lg_offsets lg)[a := 0]\<rparr>"
  have range: "a < length (lg_offsets lg)" using geom a by (simp add: log_geom_def)
  have neq: "a \<noteq> 1 - a" "1 - a < 2" "1 - (1 - a) = a" using a by presburger+
  have s1: "consumer_step True lg m CLoad = Inr (lg, CCas (of_nat a), [])"
    using a st by simp
  have s2: "consumer_step True lg m (CCas (of_nat a)) = Inr (?flip, COffset a, [])"
    using a st by simp
  have s3: "consumer_step True ?flip m (COffset a) =
      (if 0 < ?off then Inr (?flip, CRead a ?off, []) else Inr (?flip, CReset a, []))"
    using range by (simp add: logger_offset_def)
  have s4: "consumer_step True ?flip m (CRead a ?off) = Inr (?flip, CReset a, [log_waiting a (lg, m)])"
    using log_geom_buf(4) [of p ?flip a] log_geom_ptr(1,3) [of p ?flip a] geom a at(7)
    by (simp add: log_waiting_def log_content_def)
  have s5: "consumer_step True ?flip m (CReset a) = Inr (?lg, CDone, [])"
    using range by (simp add: logger_set_offset_def)
  have empty: "log_waiting a (lg, m) = [] \<longleftrightarrow> ?off = 0"
    by (auto simp: log_waiting_def log_content_def slice_bytes_def)
  have "consumer_run 6 lg m CLoad [] =
      Inr (?lg, CDone, if log_waiting a (lg, m) = [] then [] else [log_waiting a (lg, m)])"
  proof (cases "?off = 0")
    case True
    then have "consumer_step True ?flip m (COffset a) = Inr (?flip, CReset a, [])"
      using s3 by simp
    note steps = consumer_run_step [OF s1] consumer_run_step [OF s2] consumer_run_step [OF this]
      consumer_run_step [OF s5] consumer_run_step [OF consumer_step.simps(7)]
    show ?thesis
      unfolding empty using True
      by (simp only: six steps consumer_run.simps(1) append_Nil append_Nil2) simp
  next
    case False
    then have "consumer_step True ?flip m (COffset a) = Inr (?flip, CRead a ?off, [])"
      using s3 by simp
    note steps = consumer_run_step [OF s1] consumer_run_step [OF s2] consumer_run_step [OF this]
      consumer_run_step [OF s4] consumer_run_step [OF s5] consumer_run_step [OF consumer_step.simps(7)]
    show ?thesis
      unfolding empty using False
      by (simp only: six steps consumer_run.simps(1) append_Nil append_Nil2) simp
  qed
  then have "consumer_consume (lg, m) =
      Inr (if log_waiting a (lg, m) = [] then [] else [log_waiting a (lg, m)], ?lg, m)"
    by (simp add: consumer_consume_def)
  moreover have "log_rest p (1 - a) ?lg"
    using log_geom_offset [OF geom, of 0 a] a neq range
    by (simp add: log_rest_def log_geom_def)
  moreover have "log_waiting (1 - a) (?lg, m) = []"
    using zero neq by (simp add: log_waiting_def log_content_def slice_bytes_def)
  ultimately show ?thesis using zero neq by (intro exI [of _ ?lg]) simp
qed

text \<open>A macro's line, and a flush by the panic hook, on a queue at rest.\<close>

lemma hlog_rest:
  assumes rest: "log_rest p a lg" and room: "lg_offsets lg ! a + MAX_LOG_LINE \<le> pr_buf_size p"
  obtains lg' m' where "hlog pr producer_push (Some p) level args (lg, m) = Inr (lg', m')" "log_rest p a lg'"
    "log_waiting a (lg', m') = log_waiting a (lg, m) @ log_line level (concat args)"
    "lg_offsets lg' ! a \<le> lg_offsets lg ! a + MAX_LOG_LINE"
proof -
  let ?line = "log_line level (concat args)"
  have "lg_offsets lg ! a + length ?line \<le> pr_buf_size p"
    using room log_line_length [of level "concat args"] by simp
  from producer_push_fits [OF rest this, of m] obtain lg' m' where
    push: "producer_push p ?line (lg, m) = Inr (Inr (), lg', m')" "log_rest p a lg'"
      "log_waiting a (lg', m') = log_waiting a (lg, m) @ ?line"
    and off: "lg_offsets lg' ! a = lg_offsets lg ! a + length ?line" by blast
  have "hlog pr producer_push (Some p) level args (lg, m) = Inr (lg', m')"
    by (simp add: hlog_def hlog_line_eq push(1))
  moreover have "lg_offsets lg' ! a \<le> lg_offsets lg ! a + MAX_LOG_LINE"
    unfolding off by (rule add_left_mono) (rule log_line_length)
  ultimately show thesis using that push(2,3) by blast
qed

lemma panic_flush_buf_geom:
  assumes "log_geom p lg" and "i < 2"
  shows "panic_flush_buf lg m i = Inr (if log_content lg m i = [] then [] else [log_content lg m i])"
  using log_geom_buf [OF assms] log_geom_ptr [OF assms]
  by (cases "lg_offsets lg ! i") (simp_all add: panic_flush_buf_def log_content_def slice_bytes_def)

lemma panic_flush_rest:
  assumes rest: "log_rest p a lg"
  shows "panic_flush lg m = Inr (if log_waiting a (lg, m) = [] then [] else [log_waiting a (lg, m)])"
proof -
  have geom: "log_geom p lg" and a: "a = 0 \<or> a = 1" and "lg_offsets lg ! (1 - a) = 0"
    using rest by (auto simp: log_rest_def)
  then have "log_content lg m (1 - a) = []" by (simp add: log_content_def slice_bytes_def)
  with a panic_flush_buf_geom [OF geom, of 0 m] panic_flush_buf_geom [OF geom, of 1 m] show ?thesis
    by (auto simp: panic_flush_def log_waiting_def)
qed

text \<open>What the log queue asks of the allocator.\<close>

definition log_env_ok :: "addr \<Rightarrow> addr \<Rightarrow> usize \<Rightarrow> bool" where
  "log_env_ok raw0 raw1 n \<longleftrightarrow>
     alloc_contract raw0 \<lparr>lay_size = n, lay_align = 0x1000\<rparr> \<and>
     alloc_contract raw1 \<lparr>lay_size = n, lay_align = 0x1000\<rparr> \<and>
     (raw0 \<noteq> 0 \<and> raw1 \<noteq> 0 \<longrightarrow> {raw0 ..< raw0 + n} \<inter> {raw1 ..< raw1 + n} = {})"

lemma logger_new_env:
  assumes env: "log_env_ok raw0 raw1 n" and new: "logger_new raw0 raw1 n = Inr (Inr (p, lg))"
  shows "log_rest p 0 lg \<and> lg_offsets lg = [0, 0] \<and> lg_state lg = 0 \<and> pr_buf_size p = n"
proof -
  from new have "raw0 \<noteq> 0" "raw1 \<noteq> 0"
    by (auto simp: logger_new_def aligned_new_def Let_def raw_alloc_def outcome_simps split: if_splits option.splits)
  with env show ?thesis by (intro logger_new_rest [OF new]) (simp_all add: log_env_ok_def)
qed

end
