(* ===== verification/Blob_Main.thy ===== *)
theory Blob_Main
  imports Executor_Kernel Logger_Calls
begin

text \<open>
  The binary, \<open>hoarder-blob/src/main.rs\<close>: create the logger, the ring and the executor, and run.
  The consumer thread and the panic hook use the log queue through \<open>write_to_stdout\<close>; \<open>libc_write\<close>
  stands for the system call, which says how much it wrote (or fails) and is not asked again.
\<close>

definition write_to_stdout :: "(i32 \<Rightarrow> u8 list \<Rightarrow> 'w \<Rightarrow> int \<times> 'w) \<Rightarrow> u8 list \<Rightarrow> 'w \<Rightarrow> 'w" where
  "write_to_stdout libc_write buf w = snd (libc_write 1 buf w)"

text \<open>One turn of the consumer thread's loop: every slice consumed goes to standard output.\<close>

definition log_consumer_turn ::
  "(i32 \<Rightarrow> u8 list \<Rightarrow> 'w \<Rightarrow> int \<times> 'w) \<Rightarrow> logger \<times> memory \<Rightarrow> 'w \<Rightarrow> ((logger \<times> memory) \<times> 'w) outcome" where
  "log_consumer_turn libc_write s w =
     andThen (consumer_consume s) (\<lambda>(out, s). Inr (s, fold (write_to_stdout libc_write) out w))"

definition panic_hook ::
  "(i32 \<Rightarrow> u8 list \<Rightarrow> 'w \<Rightarrow> int \<times> 'w) \<Rightarrow> ('w \<Rightarrow> 'w) \<Rightarrow> logger \<times> memory \<Rightarrow> 'w \<Rightarrow> 'w outcome" where
  "panic_hook libc_write default_hook s w =
     andThen (panic_flush (fst s) (snd s)) (\<lambda>out.
     Inr (default_hook (fold (write_to_stdout libc_write) out w)))"

text \<open>\<open>init_logger\<close>: the value \<open>LOGGER_PTR\<close> has from then on; null before.\<close>

definition init_logger :: "producer \<Rightarrow> producer option" where
  "init_logger p = Some p"

text \<open>
  \<open>main\<close>, up to turn \<open>n\<close> of the loop, with the log queue it leaves: an error of \<open>Logger::new\<close> is its
  result. \<open>m\<close> is the memory the log buffers are in. The consumer thread may drain the queue at any
  point; here it has not run yet.
\<close>

definition blob_start ::
  "alloc_env \<Rightarrow> 'w ring_ops \<Rightarrow> profile \<Rightarrow> producer option \<Rightarrow> logger \<times> memory \<Rightarrow> 'w \<Rightarrow>
     ((logger \<times> memory) \<times> 'w executor) outcome" where
  "blob_start env ring pr logger_ptr s w =
     andThen (hlog pr producer_push logger_ptr LogInfo [string_bytes ''blob engine starting''] s) (\<lambda>s.
     andThen (uring_new ring 4096 False w) (\<lambda>(r, w).
     andThen (unwrap_result r) (\<lambda>_.
     andThen (executor_new env w 1 100 100) (\<lambda>ex.
     andThen (hlog pr producer_push logger_ptr LogInfo
               [string_bytes ''executor initialized, entering main loop''] s) (\<lambda>s.
     Inr (s, ex))))))"

definition blob_main ::
  "nat \<Rightarrow> alloc_env \<Rightarrow> addr \<Rightarrow> addr \<Rightarrow> 'w ring_ops \<Rightarrow> 'w host \<Rightarrow> memory \<Rightarrow> 'w \<Rightarrow>
     ((logger \<times> memory) \<times> 'w executor) result outcome option" where
  "blob_main n env raw0 raw1 ring host m w =
     (case logger_new raw0 raw1 (512 * 1000) of
        Inl f \<Rightarrow> Some (Inl f)
      | Inr (Inl e) \<Rightarrow> Some (Inr (Inl e))
      | Inr (Inr (producer, lg)) \<Rightarrow>
          (case blob_start env ring (host_profile host) (init_logger producer) (lg, m) w of
             Inl f \<Rightarrow> Some (Inl f)
           | Inr (s, ex) \<Rightarrow>
               map_option (\<lambda>r. andThen r (\<lambda>ex. Inr (Inr (s, ex)))) (executor_run n env host ex)))"

lemmas main_defs [run_defs] = write_to_stdout_def log_consumer_turn_def panic_hook_def init_logger_def
  blob_start_def blob_main_def


section \<open>Starting\<close>

definition startup_log :: "u8 list" where
  "startup_log = log_line LogInfo (string_bytes ''blob engine starting'') @
     log_line LogInfo (string_bytes ''executor initialized, entering main loop'')"

lemma logger_new_main_orderly: "orderly (logger_new raw0 raw1 (512 * 1000)) (\<lambda>_. True)"
  by (simp add: logger_new_def aligned_new_def Let_def checked_mul_def usize_limit_def is_power_of_two_def
      usize_rem_def from_size_align_unchecked_def layout_valid_def isize_max_def raw_alloc_def split: sum.split)

text \<open>Both lines fit in the log queue; then only the ring and the allocator decide.\<close>

lemma blob_start_steps:
  assumes env: "log_env_ok raw0 raw1 (512 * 1000)" and new: "logger_new raw0 raw1 (512 * 1000) = Inr (Inr (p, lg))"
  obtains lg' m' where "log_rest p 0 lg'" "log_waiting 0 (lg', m') = startup_log"
    "blob_start env ring pr (init_logger p) (lg, m) w =
       andThen (uring_new ring 4096 False w) (\<lambda>(r, w). andThen (unwrap_result r) (\<lambda>_.
       andThen (executor_new env w 1 100 100) (\<lambda>ex. Inr ((lg', m'), ex))))"
proof -
  note start = logger_new_env [OF env new]
  then have rest: "log_rest p 0 lg" and empty: "log_waiting 0 (lg, m) = []"
    and room: "lg_offsets lg ! 0 + MAX_LOG_LINE \<le> pr_buf_size p"
    by (simp_all add: log_waiting_def log_content_def slice_bytes_def)
  obtain lg1 m1 where one:
    "hlog pr producer_push (Some p) LogInfo [string_bytes ''blob engine starting''] (lg, m) = Inr (lg1, m1)"
    "log_rest p 0 lg1" "log_waiting 0 (lg1, m1) = log_line LogInfo (string_bytes ''blob engine starting'')"
    "lg_offsets lg1 ! 0 \<le> lg_offsets lg ! 0 + MAX_LOG_LINE"
    by (rule hlog_rest [OF rest room, of pr LogInfo "[string_bytes ''blob engine starting'']" m])
      (simp add: empty)
  have room1: "lg_offsets lg1 ! 0 + MAX_LOG_LINE \<le> pr_buf_size p"
    using one(4) start by simp
  obtain lg2 m2 where two:
    "hlog pr producer_push (Some p) LogInfo [string_bytes ''executor initialized, entering main loop''] (lg1, m1) =
       Inr (lg2, m2)" "log_rest p 0 lg2" "log_waiting 0 (lg2, m2) = startup_log"
    by (rule hlog_rest [OF one(2) room1, of pr LogInfo "[string_bytes ''executor initialized, entering main loop'']" m1])
      (simp add: one(3) startup_log_def)
  show thesis
    by (rule that [OF two(2,3)]) (simp add: blob_start_def init_logger_def one(1) two(1))
qed

lemma uring_new_orderly: "orderly (uring_new ring n b w) (\<lambda>_. True)"
  unfolding uring_new_def by (rule orderly_mono [OF map_os_error_orderly [of "\<lambda>_. True"]]) auto

text \<open>How \<open>main\<close> gets to the loop, or does not.\<close>

lemma blob_main_cases:
  assumes env: "env_sized env" "log_env_ok raw0 raw1 (512 * 1000)"
  obtains (stopped) f where "blob_main n env raw0 raw1 ring host m w = Some (Inl f)" "f \<in> panics"
  | (no_logger) e where "blob_main n env raw0 raw1 ring host m w = Some (Inr (Inl e))"
  | (running) p lg' m' w' ex where "log_rest p 0 lg'" "log_waiting 0 (lg', m') = startup_log"
      "uring_new ring 4096 False w = Inr (Inr (), w')" "executor_new env w' 1 100 100 = Inr ex"
      "blob_main n env raw0 raw1 ring host m w =
         map_option (\<lambda>r. andThen r (\<lambda>ex'. Inr (Inr ((lg', m'), ex')))) (executor_run n env host ex)"
proof (cases "logger_new raw0 raw1 (512 * 1000)")
  case (Inl f)
  with logger_new_main_orderly [of raw0 raw1] show thesis by (intro stopped) (simp_all add: blob_main_def)
next
  case new: (Inr l)
  show thesis
  proof (cases l)
    case (Inl e)
    with new show thesis by (intro no_logger) (simp add: blob_main_def)
  next
    case (Inr l')
    obtain p lg where l': "l' = (p, lg)" by (cases l')
    from blob_start_steps [OF env(2) new [unfolded Inr l'], of env ring "host_profile host" m w]
    obtain lg' m' where log: "log_rest p 0 lg'" "log_waiting 0 (lg', m') = startup_log"
      and boot: "blob_start env ring (host_profile host) (init_logger p) (lg, m) w =
        andThen (uring_new ring 4096 False w) (\<lambda>(r, w). andThen (unwrap_result r) (\<lambda>_.
        andThen (executor_new env w 1 100 100) (\<lambda>ex. Inr ((lg', m'), ex))))" by blast
    have main: "blob_main n env raw0 raw1 ring host m w =
        (case blob_start env ring (host_profile host) (init_logger p) (lg, m) w of
           Inl f \<Rightarrow> Some (Inl f)
         | Inr (s, ex) \<Rightarrow> map_option (\<lambda>r. andThen r (\<lambda>ex. Inr (Inr (s, ex)))) (executor_run n env host ex))"
      using new Inr l' by (simp add: blob_main_def)
    have orderly: "orderly (blob_start env ring (host_profile host) (init_logger p) (lg, m) w) (\<lambda>_. True)"
      unfolding boot
      by (rule orderly_andThen [OF uring_new_orderly])
        (auto intro!: orderly_unwrap_result orderly_andThen [OF executor_new_orderly [OF env(1)]])
    show thesis
    proof (cases "blob_start env ring (host_profile host) (init_logger p) (lg, m) w")
      case (Inl f)
      with orderly main show thesis by (intro stopped) simp_all
    next
      case (Inr r)
      then obtain w' ex where "uring_new ring 4096 False w = Inr (Inr (), w')"
        "executor_new env w' 1 100 100 = Inr ex" "r = ((lg', m'), ex)"
        unfolding boot by (auto simp: outcome_simps)
      with log main Inr show thesis by (intro running) simp_all
    qed
  qed
qed

end
