(* ===== verification/Log_Trace.thy ===== *)
theory Log_Trace
  imports Fmt_Buf
begin

text \<open>
  Code that logs. A call of a logging macro is an entry, the level and the pieces its format string
  and arguments write; \<open>'a logged\<close> is what a call returns together with the entries it wrote until it
  returned or stopped. Dropping the entries of a sequence gives the sequence of \<open>Prelude\<close>, so the
  models without logging are those with it, erased.
\<close>

datatype log_entry = LogEntry (le_level: log_level) (le_args: "u8 list list")

type_synonym 'a logged = "log_entry list \<times> 'a outcome"

definition hprint :: "u8 list list \<Rightarrow> log_entry" where
  "hprint args = LogEntry LogPrint args"

definition hdebug :: "u8 list list \<Rightarrow> log_entry" where
  "hdebug args = LogEntry LogDebug args"

definition hinfo :: "u8 list list \<Rightarrow> log_entry" where
  "hinfo args = LogEntry LogInfo args"

definition hwarn :: "u8 list list \<Rightarrow> log_entry" where
  "hwarn args = LogEntry LogWarn args"

definition herror :: "u8 list list \<Rightarrow> log_entry" where
  "herror args = LogEntry LogError args"

lemmas macro_defs [run_defs] = hprint_def hdebug_def hinfo_def hwarn_def herror_def

text \<open>The line an entry becomes.\<close>

definition entry_line :: "log_entry \<Rightarrow> u8 list" where
  "entry_line e = log_line (le_level e) (concat (le_args e))"

definition silent :: "'a outcome \<Rightarrow> 'a logged" where
  "silent m = ([], m)"

definition logThen :: "'a logged \<Rightarrow> ('a \<Rightarrow> 'b logged) \<Rightarrow> 'b logged" where
  "logThen m f =
     (case m of
        (es, Inl e) \<Rightarrow> (es, Inl e)
      | (es, Inr x) \<Rightarrow> (es @ fst (f x), snd (f x)))"

definition log_first :: "log_entry \<Rightarrow> 'a logged \<Rightarrow> 'a logged" where
  "log_first e m = (e # fst m, snd m)"

named_theorems erase_simps "what is left of logging code when the entries are dropped"

lemma erase_silent [simp, erase_simps]: "snd (silent m) = m"
  by (simp add: silent_def)

lemma entries_silent [simp]: "fst (silent m) = []"
  by (simp add: silent_def)

lemma erase_log_first [simp, erase_simps]: "snd (log_first e m) = snd m"
  by (simp add: log_first_def)

lemma entries_log_first [simp]: "fst (log_first e m) = e # fst m"
  by (simp add: log_first_def)

lemma erase_logThen [erase_simps]: "snd (logThen m f) = andThen (snd m) (\<lambda>x. snd (f x))"
  by (cases m; cases "snd m") (auto simp: logThen_def)

lemma erase_if [erase_simps]: "snd (if b then m else k) = (if b then snd m else snd k)"
  by simp

lemma entries_logThen:
  "fst (logThen m f) = fst m @ (case snd m of Inl _ \<Rightarrow> [] | Inr x \<Rightarrow> fst (f x))"
  by (cases m; cases "snd m") (auto simp: logThen_def)

lemma logThen_silent [simp]: "logThen (silent (Inr x)) f = f x"
  by (simp add: logThen_def silent_def)

lemma entries_logThen_last:
  "snd m = Inr x \<Longrightarrow> fst (f x) = [e] \<Longrightarrow> fst (logThen m f) \<noteq> [] \<and> last (fst (logThen m f)) = e"
  by (simp add: entries_logThen)

text \<open>A property of all entries.\<close>

definition entries_all :: "(log_entry \<Rightarrow> bool) \<Rightarrow> 'a logged \<Rightarrow> bool" where
  "entries_all P m \<longleftrightarrow> list_all P (fst m)"

lemma entries_all_silent [simp]: "entries_all P (silent m)"
  by (simp add: entries_all_def)

lemma entries_all_log_first [simp]: "entries_all P (log_first e m) \<longleftrightarrow> P e \<and> entries_all P m"
  by (simp add: entries_all_def)

lemma entries_all_logThen: "entries_all P m \<Longrightarrow> (\<And>x. entries_all P (f x)) \<Longrightarrow> entries_all P (logThen m f)"
  by (auto simp: entries_all_def entries_logThen split: sum.split)


section \<open>Lines that fit\<close>

text \<open>
  An entry that is one short line: with its level, its text and the newline it has at most 100 bytes,
  and the newline is at the end only.
\<close>

definition line_fits :: "log_entry \<Rightarrow> bool" where
  "line_fits e \<longleftrightarrow> length (log_level_prefix (le_level e) @ concat (le_args e)) < 100 \<and>
     10 \<notin> set (log_level_prefix (le_level e) @ concat (le_args e))"

lemma line_fits_line:
  assumes "line_fits e"
  shows "entry_line e = log_level_prefix (le_level e) @ concat (le_args e) @ [10]" "length (entry_line e) \<le> 100"
proof -
  from assms have short: "length (log_level_prefix (le_level e)) + length (concat (le_args e)) < 100"
    by (simp add: line_fits_def)
  then show "entry_line e = log_level_prefix (le_level e) @ concat (le_args e) @ [10]"
    by (simp add: entry_line_def log_line_def string_bytes_def)
  then show "length (entry_line e) \<le> 100" using assms by (simp add: line_fits_def)
qed

lemma string_bytes_simps [simp]:
  "string_bytes (s @ t) = string_bytes s @ string_bytes t" "length (string_bytes s) = length s"
  by (simp_all add: string_bytes_def)

lemma char_byte: "unat (of_char c :: u8) = of_char c"
proof -
  have "(of_char c :: u8) = of_nat (of_char c)" by (simp only: of_nat_of_char)
  then show ?thesis by (simp only: unat_of_nat) simp
qed

lemma char_byte_inj: "(of_char c :: u8) = of_char d \<longleftrightarrow> c = d"
proof
  assume "(of_char c :: u8) = of_char d"
  then have "unat (of_char c :: u8) = unat (of_char d :: u8)" by (rule arg_cong)
  then show "c = d" by (simp only: char_byte of_char_eq_iff)
qed simp

lemma string_bytes_inj: "string_bytes s = string_bytes t \<longleftrightarrow> s = t"
proof -
  have "inj (of_char :: char \<Rightarrow> u8)" by (rule injI) (simp only: char_byte_inj)
  then show ?thesis by (simp only: string_bytes_def inj_map_eq_map)
qed

lemma newline_string_bytes [simp]: "10 \<in> set (string_bytes s) \<longleftrightarrow> CHR 0x0A \<in> set s"
proof -
  have "(10 :: u8) = of_char (CHR 0x0A)" by simp
  then have "10 \<in> set (string_bytes s) \<longleftrightarrow> of_char (CHR 0x0A) \<in> (of_char :: char \<Rightarrow> u8) ` set s"
    by (simp only: string_bytes_def set_map)
  then show ?thesis by (simp only: image_iff char_byte_inj) blast
qed

lemma level_prefix_fits: "length (log_level_prefix level) \<le> 8" "10 \<notin> set (log_level_prefix level)"
  by (cases level; simp add: string_bytes_def)+

lemma line_fits_string:
  "line_fits (LogEntry level args) \<longleftrightarrow>
     length (log_level_prefix level) + length (concat args) < 100 \<and> 10 \<notin> set (concat args)"
  using level_prefix_fits(2) by (auto simp: line_fits_def)

end
