(* ===== verification/Debug_Text.thy ===== *)
theory Debug_Text
  imports Object_Pool Conn_Handler Log_Trace Decimal
begin

text \<open>
  What \<open>{:?}\<close> writes for the values the program logs: the derived \<open>Debug\<close> of the events, the handles and
  the states, over the decimal numbers of \<open>Decimal\<close>. The texts are short, have no line break, and
  an event and a handle can be read back from them.
\<close>

fun debug_machine_event :: "machine_event \<Rightarrow> string" where
  "debug_machine_event Spawn = ''Spawn''"
| "debug_machine_event (IoCompleted res flags) =
     ''IoCompleted('' @ show_int (sint res) @ '', '' @ show_nat (unat flags) @ '')''"

fun debug_object_handle :: "object_handle \<Rightarrow> string" where
  "debug_object_handle (ObjectHandle u) = ''ObjectHandle('' @ show_nat (unat u) @ '')''"

definition debug_msg_header :: "msg_header \<Rightarrow> string" where
  "debug_msg_header h =
     ''MsgHeader { magic: '' @ show_nat (unat (mh_magic h)) @ '', cmd: '' @ show_nat (unat (mh_cmd h)) @ '' }''"

fun debug_recv_phase :: "recv_phase \<Rightarrow> string" where
  "debug_recv_phase ReceivingHeader = ''ReceivingHeader''"
| "debug_recv_phase (ReceivingBody header) =
     ''ReceivingBody { header: '' @ debug_msg_header header @ '' }''"
| "debug_recv_phase Processing = ''Processing''"

fun debug_conn_state :: "conn_state \<Rightarrow> string" where
  "debug_conn_state ConnInit = ''Init''"
| "debug_conn_state (Recv phase) = ''Recv('' @ debug_recv_phase phase @ '')''"
| "debug_conn_state Closing = ''Closing''"
| "debug_conn_state Closed = ''Closed''"


section \<open>Length\<close>

lemma show_u8: "length (show_nat (unat (w :: u8))) \<le> 3"
proof -
  have "unat w < 2 ^ LENGTH(8)" by (rule unsigned_less)
  then show ?thesis by (intro show_nat_length) simp_all
qed

lemma show_u32: "length (show_nat (unat (w :: u32))) \<le> 10"
  using u32_unat_less [of w] by (intro show_nat_length) simp_all

lemma show_u64: "length (show_nat (unat (w :: u64))) \<le> 20"
proof -
  have "unat w < 2 ^ LENGTH(64)" by (rule unsigned_less)
  then show ?thesis by (intro show_nat_length) simp_all
qed

lemma show_i32: "length (show_int (sint (w :: i32))) \<le> 11"
proof -
  have "- (2 ^ 31) \<le> sint w" "sint w < 2 ^ 31"
    using sint_ge [of w] sint_lt [of w] by simp_all
  then have "\<bar>sint w\<bar> < 10 ^ 10" by simp
  from show_int_length [OF this] show ?thesis by simp
qed

lemma debug_machine_event_length: "length (debug_machine_event ev) \<le> 36"
proof (cases ev)
  case (IoCompleted res flags)
  with show_i32 [of res] show_u32 [of flags] show ?thesis by simp
qed simp

lemma debug_object_handle_length: "length (debug_object_handle h) \<le> 34"
  using show_u64 by (cases h) simp

lemma debug_conn_state_length: "length (debug_conn_state st) \<le> 73"
proof (cases st)
  case (Recv ph)
  then show ?thesis
  proof (cases ph)
    case (ReceivingBody h)
    with Recv show_u32 [of "mh_magic h"] show_u8 [of "mh_cmd h"] show ?thesis
      by (simp add: debug_msg_header_def)
  qed simp_all
qed simp_all


section \<open>No line break\<close>

lemma not_digit: "\<not> is_digit (CHR 0x0A)" "\<not> is_digit (CHR '','')" "\<not> is_digit (CHR '')'')"
  by (simp_all add: is_digit_def)

lemma show_nat_no_newline: "CHR 0x0A \<notin> set (show_nat n)"
  using show_nat_digits not_digit(1) by blast

lemma show_int_no_newline: "CHR 0x0A \<notin> set (show_int i)"
  using show_int_chars not_digit(1) by fastforce

lemma debug_no_newline:
  "CHR 0x0A \<notin> set (debug_machine_event ev)" "CHR 0x0A \<notin> set (debug_object_handle h)"
  "CHR 0x0A \<notin> set (debug_conn_state st)"
proof -
  note no = show_nat_no_newline show_int_no_newline
  show "CHR 0x0A \<notin> set (debug_machine_event ev)" by (cases ev) (simp_all add: no)
  show "CHR 0x0A \<notin> set (debug_object_handle h)" by (cases h) (simp add: no)
  have phase: "CHR 0x0A \<notin> set (debug_recv_phase p)" for p
    by (cases p) (simp_all add: no debug_msg_header_def)
  show "CHR 0x0A \<notin> set (debug_conn_state st)" by (cases st) (simp_all add: phase)
qed


section \<open>Reading back\<close>

lemma append_sep_inj:
  assumes "xs @ c # ys = xs' @ c # ys'" and "c \<notin> set xs" and "c \<notin> set xs'"
  shows "xs = xs' \<and> ys = ys'"
  using assms by (induction xs arbitrary: xs') (auto simp: append_eq_Cons_conv Cons_eq_append_conv)

lemma digits_no_sep:
  "CHR '','' \<notin> set (show_int i)" "CHR '')'' \<notin> set (show_nat n)"
  using show_int_chars show_nat_digits not_digit(2,3) by fastforce+

lemma debug_object_handle_inj:
  "debug_object_handle h @ s = debug_object_handle h' @ s' \<Longrightarrow> h = h' \<and> s = s'"
  by (cases h; cases h') (auto dest!: append_sep_inj simp: digits_no_sep show_nat_inj simp flip: word_unat_eq_iff)

lemma debug_machine_event_inj:
  assumes "debug_machine_event ev @ s = debug_machine_event ev' @ s'"
  shows "ev = ev' \<and> s = s'"
proof (cases ev; cases ev')
  fix r f r' f' assume ev: "ev = IoCompleted r f" "ev' = IoCompleted r' f'"
  with assms have "show_int (sint r) @ CHR '','' # CHR '' '' # show_nat (unat f) @ CHR '')'' # s =
      show_int (sint r') @ CHR '','' # CHR '' '' # show_nat (unat f') @ CHR '')'' # s'"
    by simp
  from append_sep_inj [OF this digits_no_sep(1) digits_no_sep(1)]
  have "show_int (sint r) = show_int (sint r')"
    and "show_nat (unat f) @ CHR '')'' # s = show_nat (unat f') @ CHR '')'' # s'" by simp_all
  with append_sep_inj [OF this(2) digits_no_sep(2) digits_no_sep(2)] ev show ?thesis
    by (simp add: show_int_inj show_nat_inj word_unat_eq_iff [symmetric] word_eq_iff_signed [symmetric])
qed (use assms in auto)

end
