(* ===== verification/Conn_Logged.thy ===== *)
theory Conn_Logged
  imports Debug_Text
begin

text \<open>
  The handlers of \<open>hoarder-blob/src/state_machine/conn_handler.rs\<close> that log, with the lines they
  write. Without the lines they are the handlers of \<open>Conn_Handler\<close>.
\<close>

definition conn_handle_io_error_logged ::
  "profile \<Rightarrow> conn_handler \<Rightarrow> i32 \<Rightarrow> exec_ctx \<Rightarrow> (conn_state \<times> conn_handler \<times> exec_ctx) logged" where
  "conn_handle_io_error_logged pr ch err ctx =
     logThen (silent (from_raw_syscall_error pr err)) (\<lambda>e.
     if e \<in> set errno_retry then
       silent (andThen (conn_recv ch ctx) (\<lambda>ctx. Inr (ch_state ch, ch, ctx)))
     else if e \<in> set errno_logic then silent (Inl ExplicitPanic)
     else if e \<in> set errno_close then
       silent (andThen (conn_close pr ch ctx) (\<lambda>(ch, ctx). Inr (Closing, ch, ctx)))
     else
       log_first (hwarn [string_bytes ''unexpected error err='', string_bytes (show_int (sint err))])
         (silent (Inr (ch_state ch, ch, ctx))))"

definition conn_on_recv_logged ::
  "profile \<Rightarrow> memory \<Rightarrow> conn_handler \<Rightarrow> exec_ctx \<Rightarrow> i32 \<Rightarrow>
     (conn_state \<times> conn_handler \<times> exec_ctx) logged" where
  "conn_on_recv_logged pr m ch ctx res =
     (if res = 0 then
        silent (andThen (conn_close pr ch ctx) (\<lambda>(ch, ctx). Inr (Closing, ch, ctx)))
      else
        logThen
          (if sint res < 0 then conn_handle_io_error_logged pr ch res ctx
           else
             silent (andThen (u32_add pr (ch_offset ch) res) (\<lambda>offset.
             let ch = ch\<lparr>ch_offset := offset\<rparr> in
             if MSG_HEADER_SIZE \<le> unat offset then
               andThen (conn_read_header m ch ctx) (\<lambda>hdr. Inr (Recv (ReceivingBody hdr), ch, ctx))
             else Inr (Recv ReceivingHeader, ch, ctx))))
          (\<lambda>(state, ch, ctx).
           silent (andThen (conn_recv ch ctx) (\<lambda>ctx. Inr (state, ch, ctx)))))"

text \<open>The line at the end shows the state the machine is in from then on.\<close>

definition conn_process_event_logged ::
  "profile \<Rightarrow> memory \<Rightarrow> conn_handler \<Rightarrow> exec_ctx \<Rightarrow> machine_event \<Rightarrow>
     (conn_handler \<times> exec_ctx) logged" where
  "conn_process_event_logged pr m ch ctx event =
     logThen
       (case (event, ch_state ch) of
          (Spawn, ConnInit) \<Rightarrow> silent (conn_on_init ch ctx)
        | (IoCompleted res _, Recv _) \<Rightarrow> conn_on_recv_logged pr m ch ctx res
        | (IoCompleted res _, Closing) \<Rightarrow> silent (conn_on_closing pr ch ctx res)
        | (_, Closed) \<Rightarrow>
            log_first (hdebug [string_bytes ''Received event while connection is closed''])
              (silent (Inr (Closed, ch, ctx)))
        | (_, _) \<Rightarrow> silent (Inl Unreachable))
       (\<lambda>(state, ch, ctx).
        let ch = ch\<lparr>ch_state := state\<rparr> in
        log_first (hdebug [string_bytes ''recv state - '', string_bytes (debug_conn_state (ch_state ch))])
          (silent (Inr (ch, ctx))))"

lemmas conn_logged_defs [run_defs] = conn_handle_io_error_logged_def conn_on_recv_logged_def
  conn_process_event_logged_def


section \<open>Erasure\<close>

lemma erase_conn_handle_io_error [erase_simps]:
  "snd (conn_handle_io_error_logged pr ch err ctx) = conn_handle_io_error pr ch err ctx"
  by (simp add: conn_handle_io_error_logged_def conn_handle_io_error_def erase_simps cong: if_cong)

lemma erase_conn_on_recv [erase_simps]:
  "snd (conn_on_recv_logged pr m ch ctx res) = conn_on_recv pr m ch ctx res"
  by (simp add: conn_on_recv_logged_def conn_on_recv_def erase_simps split_def)

lemma erase_conn_process_event [erase_simps]:
  "snd (conn_process_event_logged pr m ch ctx event) = conn_process_event pr m ch ctx event"
  by (cases event; cases "ch_state ch")
    (simp_all add: conn_process_event_logged_def conn_process_event_def erase_simps split_def Let_def)


section \<open>The lines\<close>

lemma conn_lines_fit:
  "entries_all line_fits (conn_handle_io_error_logged pr ch err ctx)"
  "entries_all line_fits (conn_on_recv_logged pr m ch ctx res)"
  "entries_all line_fits (conn_process_event_logged pr m ch ctx event)"
proof -
  have io_error: "entries_all line_fits (conn_handle_io_error_logged pr ch err ctx)" for ch err ctx
    using show_i32 [of err]
    by (auto simp: conn_handle_io_error_logged_def line_fits_string show_int_no_newline hwarn_def
        intro!: entries_all_logThen)
  have recv: "entries_all line_fits (conn_on_recv_logged pr m ch ctx res)" for res
    by (auto simp: conn_on_recv_logged_def io_error intro!: entries_all_logThen)
  have state: "line_fits (hdebug [string_bytes ''recv state - '', string_bytes (debug_conn_state st)])" for st
    using debug_conn_state_length [of st] by (simp add: hdebug_def line_fits_string debug_no_newline)
  have closed: "line_fits (hdebug [string_bytes ''Received event while connection is closed''])"
    by (simp add: hdebug_def line_fits_string)
  show "entries_all line_fits (conn_process_event_logged pr m ch ctx event)"
    unfolding conn_process_event_logged_def
    by (rule entries_all_logThen)
      (auto simp: state recv closed Let_def split: machine_event.split conn_state.split)
  show "entries_all line_fits (conn_handle_io_error_logged pr ch err ctx)" by (rule io_error)
  show "entries_all line_fits (conn_on_recv_logged pr m ch ctx res)" by (rule recv)
qed

text \<open>An event that is handled ends with the line that shows the new state; nothing else comes of it.\<close>

lemma conn_process_event_last_line:
  assumes "conn_process_event pr m ch ctx event = Inr (ch', ctx')"
  shows "fst (conn_process_event_logged pr m ch ctx event) \<noteq> [] \<and>
    last (fst (conn_process_event_logged pr m ch ctx event)) =
      hdebug [string_bytes ''recv state - '', string_bytes (debug_conn_state (ch_state ch'))]"
proof -
  let ?line = "\<lambda>st. hdebug [string_bytes ''recv state - '', string_bytes (debug_conn_state st)]"
  obtain k where k: "conn_process_event_logged pr m ch ctx event =
      logThen k (\<lambda>(state, ch, ctx).
        let ch = ch\<lparr>ch_state := state\<rparr> in log_first (?line (ch_state ch)) (silent (Inr (ch, ctx))))"
    unfolding conn_process_event_logged_def by blast
  with assms obtain s c where k': "snd k = Inr (s, c, ctx')" and ch': "ch' = c\<lparr>ch_state := s\<rparr>"
    unfolding erase_conn_process_event [symmetric] by (auto simp: erase_logThen andThen_eq_Inr Let_def)
  show ?thesis unfolding k by (rule entries_logThen_last [OF k']) (simp add: ch' Let_def)
qed

end
