(* ===== verification/Executor_Logged.thy ===== *)
theory Executor_Logged
  imports Executor Conn_Logged
begin

text \<open>
  The event loop of \<open>hoarder-blob/src/executor/mod.rs\<close> with the lines it logs: one per event, naming
  the machine it goes to or is missed by, and those of the connection machines. Erasing the lines
  gives the loop of \<open>Executor\<close>.
\<close>

text \<open>The arguments of \<open>"<name> {:?} {:?}", reason, handle\<close>.\<close>

definition event_args :: "string \<Rightarrow> machine_event \<Rightarrow> object_handle \<Rightarrow> u8 list list" where
  "event_args name reason handle =
     [string_bytes name, string_bytes (debug_machine_event reason), string_bytes '' '',
      string_bytes (debug_object_handle handle)]"

definition dispatch_logged ::
  "'w host \<Rightarrow> machine_event \<Rightarrow> object_handle \<Rightarrow> 'w executor \<Rightarrow> (usize \<times> 'w executor) logged" where
  "dispatch_logged host reason handle ex =
     (if handle_pool_id handle = TCP_SERVER then
        logThen (silent (object_pool_get_mut (ex_tcp_pool ex) handle)) (\<lambda>r.
        (case r of
           Some listener \<Rightarrow>
             log_first (hdebug (event_args ''TCP_SERVER '' reason handle)) (silent
               (andThen (tcp_process_event (host_net host) (host_more_io host) listener (ctx_of ex)
                          reason (ex_io ex)) (\<lambda>(listener, ctx, w).
               andThen (object_pool_store handle listener (ex_tcp_pool ex)) (\<lambda>pool.
               Inr (ctx_len ctx, (ctx_back ctx ex)\<lparr>ex_tcp_pool := pool, ex_io := w\<rparr>)))))
         | None \<Rightarrow>
             log_first (hwarn (event_args ''TCP_SERVER MISSING '' reason handle)) (silent (Inr (0, ex)))))
      else if handle_pool_id handle = CONN_HANDLER then
        logThen (silent (object_pool_get_mut (ex_conn_pool ex) handle)) (\<lambda>r.
        (case r of
           Some conn_handler \<Rightarrow>
             log_first (hdebug (event_args ''CONN_HANDLER '' reason handle))
               (logThen (conn_process_event_logged (host_profile host) (host_memory host (ex_io ex))
                           conn_handler (ctx_of ex) reason) (\<lambda>(conn_handler, ctx).
                silent (andThen (object_pool_store handle conn_handler (ex_conn_pool ex)) (\<lambda>pool.
                Inr (ctx_len ctx, (ctx_back ctx ex)\<lparr>ex_conn_pool := pool\<rparr>)))))
         | None \<Rightarrow>
             log_first (hwarn (event_args ''CONN_HANDLER MISSING '' reason handle)) (silent (Inr (0, ex)))))
      else silent (Inl Unreachable))"

definition process_queued_logged ::
  "'w host \<Rightarrow> run_queue_event \<Rightarrow> 'w executor \<Rightarrow> 'w executor logged" where
  "process_queued_logged host event ex =
     logThen (dispatch_logged host (rq_reason event) (rq_handle event) ex) (\<lambda>(intents, ex).
     silent (complete_intent host intents (rq_handle event) ex))"

text \<open>\<open>es\<close> is what has been logged so far.\<close>

partial_function (option) drain_run_queue_logged ::
  "'w host \<Rightarrow> log_entry list \<Rightarrow> 'w executor \<Rightarrow> 'w executor logged option" where
  "drain_run_queue_logged host es ex =
     (case run_queue_pop (ex_current ex) ex of
        Inl f \<Rightarrow> Some (es, Inl f)
      | Inr (r, ex) \<Rightarrow>
          (case r of
             None \<Rightarrow> Some (es, Inr ex)
           | Some event \<Rightarrow>
               (case process_queued_logged host event ex of
                  (new, r) \<Rightarrow>
                    (case r of
                       Inl f \<Rightarrow> Some (es @ new, Inl f)
                     | Inr ex \<Rightarrow> drain_run_queue_logged host (es @ new) ex))))"

definition executor_tick_logged ::
  "'w host \<Rightarrow> log_entry list \<Rightarrow> 'w executor \<Rightarrow> 'w executor logged option" where
  "executor_tick_logged host es ex =
     (case drain_run_queue_logged host es ex of
        None \<Rightarrow> None
      | Some (es, r) \<Rightarrow>
          (case andThen r (executor_wait host) of
             Inl f \<Rightarrow> Some (es, Inl f)
           | Inr ex \<Rightarrow>
               (case next_run_queue_idx (host_profile host) ex of
                  Inl f \<Rightarrow> Some (es, Inl f)
                | Inr i \<Rightarrow>
                    (case drain_completions host i ex of
                       None \<Rightarrow> None
                     | Some r \<Rightarrow> Some (es, andThen r (switch_run_queue (host_profile host)))))))"

fun executor_ticks_logged ::
  "nat \<Rightarrow> 'w host \<Rightarrow> log_entry list \<Rightarrow> 'w executor \<Rightarrow> 'w executor logged option" where
  "executor_ticks_logged 0 host es ex = Some (es, Inr ex)"
| "executor_ticks_logged (Suc n) host es ex =
     (case executor_tick_logged host es ex of
        Some (es, Inr ex) \<Rightarrow> executor_ticks_logged n host es ex
      | r \<Rightarrow> r)"

definition executor_run_logged ::
  "nat \<Rightarrow> alloc_env \<Rightarrow> 'w host \<Rightarrow> 'w executor \<Rightarrow> 'w executor logged option" where
  "executor_run_logged n env host ex =
     (case andThen (executor_setup env host ex) (\<lambda>(r, ex).
             andThen (unwrap_result r) (\<lambda>_. seed_run_queue ex)) of
        Inl f \<Rightarrow> Some ([], Inl f)
      | Inr ex \<Rightarrow> executor_ticks_logged n host [] ex)"

lemmas executor_logged_defs [run_defs] = event_args_def dispatch_logged_def process_queued_logged_def
  executor_tick_logged_def executor_run_logged_def


section \<open>Erasure\<close>

lemma erase_dispatch [erase_simps]:
  "snd (dispatch_logged host reason handle ex) = dispatch host reason handle ex"
  unfolding dispatch_logged_def dispatch_def
  by (auto simp: erase_simps split_def intro!: arg_cong2 [of _ _ _ _ andThen] split: option.split)

lemma erase_process_queued [erase_simps]:
  "snd (process_queued_logged host event ex) = process_queued host event ex"
  by (simp add: process_queued_logged_def process_queued_def erase_simps split_def)


section \<open>The lines\<close>

lemma event_line_fits:
  assumes "length name \<le> 21" and "CHR 0x0A \<notin> set name"
  shows "line_fits (hwarn (event_args name ev h))"
    "length name \<le> 13 \<Longrightarrow> line_fits (hdebug (event_args name ev h))"
  using assms debug_machine_event_length [of ev] debug_object_handle_length [of h]
  by (simp_all add: hwarn_def hdebug_def line_fits_string event_args_def debug_no_newline)

lemma process_queued_lines_fit: "entries_all line_fits (process_queued_logged host event ex)"
  unfolding process_queued_logged_def dispatch_logged_def
  by (intro entries_all_logThen)
    (auto simp: event_line_fits conn_lines_fit intro!: entries_all_logThen split: option.split)


section \<open>The loop\<close>

text \<open>
  \<open>extends es m r\<close>: from the log \<open>es\<close> on, the loop with logging does what \<open>r\<close> does and adds only lines
  that fit.
\<close>

definition extends :: "log_entry list \<Rightarrow> 'a logged option \<Rightarrow> 'a outcome option \<Rightarrow> bool" where
  "extends es m r \<longleftrightarrow>
     (case m of
        None \<Rightarrow> r = None
      | Some (es', x) \<Rightarrow> r = Some x \<and> (\<exists>new. es' = es @ new \<and> list_all line_fits new))"

lemma extends_None [simp]: "extends es None r \<longleftrightarrow> r = None"
  by (simp add: extends_def)

lemma extends_Some [simp]:
  "extends es (Some (es', x)) r \<longleftrightarrow> r = Some x \<and> (\<exists>new. es' = es @ new \<and> list_all line_fits new)"
  by (simp add: extends_def)

lemma extends_cases:
  assumes "extends es m r"
  obtains (diverges) "m = None" "r = None"
  | (returns) new x where "m = Some (es @ new, x)" "r = Some x" "list_all line_fits new"
  using assms by (cases m) auto

lemma extends_append: "extends (es @ new) m r \<Longrightarrow> list_all line_fits new \<Longrightarrow> extends es m r"
  by (erule extends_cases) auto

lemma drain_logged_sound:
  assumes "drain_run_queue_logged host es ex = Some y"
  shows "drain_run_queue host ex = Some (snd y) \<and> (\<exists>new. fst y = es @ new \<and> list_all line_fits new)"
proof (rule drain_run_queue_logged.raw_induct [OF _ assms, where P = "\<lambda>host es ex y.
    drain_run_queue host ex = Some (snd y) \<and> (\<exists>new. fst y = es @ new \<and> list_all line_fits new)"])
  fix drain host es and ex :: "'a executor" and y
  assume 1: "\<And>host es ex y. drain host es ex = Some y \<Longrightarrow>
      drain_run_queue host ex = Some (snd y) \<and> (\<exists>new. fst y = es @ new \<and> list_all line_fits new)"
    and body: "(case run_queue_pop (ex_current ex) ex of
        Inl f \<Rightarrow> Some (es, Inl f)
      | Inr (r, ex) \<Rightarrow>
          (case r of
             None \<Rightarrow> Some (es, Inr ex)
           | Some event \<Rightarrow>
               (case process_queued_logged host event ex of
                  (new, r) \<Rightarrow>
                    (case r of
                       Inl f \<Rightarrow> Some (es @ new, Inl f)
                     | Inr ex \<Rightarrow> drain host (es @ new) ex)))) = Some y"
  show "drain_run_queue host ex = Some (snd y) \<and> (\<exists>new. fst y = es @ new \<and> list_all line_fits new)"
  proof (cases "run_queue_pop (ex_current ex) ex")
    case pop: (Inr x)
    obtain r ex1 where x: "x = (r, ex1)" by (cases x)
    show ?thesis
    proof (cases r)
      case (Some event)
      obtain new q where q: "process_queued_logged host event ex1 = (new, q)"
        by (cases "process_queued_logged host event ex1")
      then have "process_queued host event ex1 = q" "list_all line_fits new"
        using erase_process_queued [of host event ex1] process_queued_lines_fit [of host event ex1]
        by (simp_all add: entries_all_def)
      with 1 [of host "es @ new"] body pop x Some q show ?thesis
        by (subst drain_run_queue.simps) (cases q; fastforce)
    qed (use body pop x in \<open>subst drain_run_queue.simps; auto\<close>)
  qed (use body in \<open>subst drain_run_queue.simps; auto\<close>)
qed

lemma drain_logged_complete:
  assumes "drain_run_queue host ex = Some r"
  shows "\<exists>es'. drain_run_queue_logged host es ex = Some (es', r)"
proof (rule spec [OF drain_run_queue.raw_induct [OF _ assms, where P = "\<lambda>host ex r.
    \<forall>es. \<exists>es'. drain_run_queue_logged host es ex = Some (es', r)"]], rule allI)
  fix drain host and ex :: "'a executor" and r es
  assume 1: "\<And>host ex r. drain host ex = Some r \<Longrightarrow> \<forall>es. \<exists>es'. drain_run_queue_logged host es ex = Some (es', r)"
    and body: "(case run_queue_pop (ex_current ex) ex of
        Inl f \<Rightarrow> Some (Inl f)
      | Inr (r, ex) \<Rightarrow>
          (case r of
             None \<Rightarrow> Some (Inr ex)
           | Some event \<Rightarrow>
               (case process_queued host event ex of
                  Inl f \<Rightarrow> Some (Inl f)
                | Inr ex \<Rightarrow> drain host ex))) = Some r"
  show "\<exists>es'. drain_run_queue_logged host es ex = Some (es', r)"
  proof (cases "run_queue_pop (ex_current ex) ex")
    case pop: (Inr x)
    obtain e ex1 where x: "x = (e, ex1)" by (cases x)
    show ?thesis
    proof (cases e)
      case (Some event)
      obtain new q where q: "process_queued_logged host event ex1 = (new, q)"
        by (cases "process_queued_logged host event ex1")
      then have "process_queued host event ex1 = q"
        using erase_process_queued [of host event ex1] by simp
      with 1 body pop x Some q show ?thesis
        by (subst drain_run_queue_logged.simps) (cases q; auto)
    qed (use body pop x in \<open>subst drain_run_queue_logged.simps; auto\<close>)
  qed (use body in \<open>subst drain_run_queue_logged.simps; auto\<close>)
qed

lemma extends_drain: "extends es (drain_run_queue_logged host es ex) (drain_run_queue host ex)"
proof (cases "drain_run_queue_logged host es ex")
  case None
  with drain_logged_complete [of host ex _ es] show ?thesis
    by (cases "drain_run_queue host ex") auto
next
  case (Some y)
  with drain_logged_sound [OF Some] show ?thesis by (cases y) auto
qed

lemma extends_tick: "extends es (executor_tick_logged host es ex) (executor_tick host ex)"
  using extends_drain [of es host ex]
  by (cases rule: extends_cases)
    (auto simp: executor_tick_logged_def executor_tick_def split: option.split sum.split)

lemma extends_ticks: "extends es (executor_ticks_logged n host es ex) (executor_ticks n host ex)"
proof (induction n arbitrary: es ex)
  case (Suc n)
  from extends_tick [of es host ex] show ?case
  proof (cases rule: extends_cases)
    case (returns new x)
    then show ?thesis
      using extends_append [OF Suc.IH [of "es @ new"]] by (cases x) auto
  qed simp
qed simp

lemma extends_run: "extends [] (executor_run_logged n env host ex) (executor_run n env host ex)"
  using extends_ticks [of "[]" n host]
  by (simp add: executor_run_logged_def executor_run_def split: sum.split)

end
