(* ===== verification/Server_Log.thy ===== *)
theory Server_Log
  imports Blob_Main Executor_Logged
begin

text \<open>
  The lines of the whole server on their way to standard output: \<open>main\<close> of \<open>hoarder-blob/src/main.rs\<close>
  with the entries it logs, and the log queue serving a schedule of log calls and of turns of the
  consumer thread. As a reference, a bounded byte buffer that drops a line it has no room for.
\<close>

section \<open>The entries of \<open>main\<close>\<close>

definition blob_start_logged :: "alloc_env \<Rightarrow> 'w ring_ops \<Rightarrow> 'w \<Rightarrow> 'w executor logged" where
  "blob_start_logged env ring w =
     log_first (hinfo [string_bytes ''blob engine starting''])
       (logThen (silent (uring_new ring 4096 False w)) (\<lambda>(r, w).
        logThen (silent (unwrap_result r)) (\<lambda>_.
        logThen (silent (executor_new env w 1 100 100)) (\<lambda>ex.
        log_first (hinfo [string_bytes ''executor initialized, entering main loop''])
          (silent (Inr ex))))))"

definition blob_main_logged ::
  "nat \<Rightarrow> alloc_env \<Rightarrow> addr \<Rightarrow> addr \<Rightarrow> 'w ring_ops \<Rightarrow> 'w host \<Rightarrow> 'w \<Rightarrow> 'w executor result logged option" where
  "blob_main_logged n env raw0 raw1 ring host w =
     (case logger_new raw0 raw1 (512 * 1000) of
        Inl f \<Rightarrow> Some ([], Inl f)
      | Inr (Inl e) \<Rightarrow> Some ([], Inr (Inl e))
      | Inr (Inr _) \<Rightarrow>
          (case blob_start_logged env ring w of
             (es, Inl f) \<Rightarrow> Some (es, Inl f)
           | (es, Inr ex) \<Rightarrow>
               map_option (\<lambda>(new, r). (es @ new, andThen r (\<lambda>ex. Inr (Inr ex))))
                 (executor_run_logged n env host ex)))"

lemmas main_logged_defs [run_defs] = blob_start_logged_def blob_main_logged_def

lemma blob_start_lines_fit: "entries_all line_fits (blob_start_logged env ring w)"
proof -
  have "line_fits (hinfo [string_bytes ''blob engine starting''])"
    "line_fits (hinfo [string_bytes ''executor initialized, entering main loop''])"
    by (simp_all add: hinfo_def line_fits_string)
  then show ?thesis by (auto simp: blob_start_logged_def intro!: entries_all_logThen)
qed

lemma blob_main_lines_fit:
  assumes "blob_main_logged n env raw0 raw1 ring host w = Some (es, r)"
  shows "list_all line_fits es"
proof -
  obtain es0 x where start: "blob_start_logged env ring w = (es0, x)" by fastforce
  then have es0: "list_all line_fits es0"
    using blob_start_lines_fit [of env ring w] by (simp add: entries_all_def)
  show ?thesis
  proof (cases "es = [] \<or> es = es0")
    case False
    with assms start obtain ex new y where run: "executor_run_logged n env host ex = Some (new, y)" "es = es0 @ new"
      by (auto simp: blob_main_logged_def split: sum.splits)
    from extends_run [of n env host ex] run(1) have "list_all line_fits new" by simp
    with run(2) es0 show ?thesis by simp
  qed (use es0 in auto)
qed


section \<open>The queue and its consumer\<close>

datatype log_job = LogCall log_entry | ConsumerTurn

fun log_jobs ::
  "profile \<Rightarrow> (i32 \<Rightarrow> u8 list \<Rightarrow> 'w \<Rightarrow> int \<times> 'w) \<Rightarrow> producer option \<Rightarrow> log_job list \<Rightarrow>
     (logger \<times> memory) \<times> 'w \<Rightarrow> ((logger \<times> memory) \<times> 'w) outcome" where
  "log_jobs pr libc_write logger_ptr [] sw = Inr sw"
| "log_jobs pr libc_write logger_ptr (LogCall e # jobs) (s, w) =
     andThen (hlog pr producer_push logger_ptr (le_level e) (le_args e) s) (\<lambda>s.
     log_jobs pr libc_write logger_ptr jobs (s, w))"
| "log_jobs pr libc_write logger_ptr (ConsumerTurn # jobs) (s, w) =
     andThen (log_consumer_turn libc_write s w) (log_jobs pr libc_write logger_ptr jobs)"

fun job_entries :: "log_job list \<Rightarrow> log_entry list" where
  "job_entries [] = []"
| "job_entries (LogCall e # jobs) = e # job_entries jobs"
| "job_entries (ConsumerTurn # jobs) = job_entries jobs"

text \<open>The reference: what is written out, turn by turn, and what is left waiting.\<close>

fun buffered :: "nat \<Rightarrow> log_job list \<Rightarrow> u8 list \<Rightarrow> u8 list list \<times> u8 list" where
  "buffered cap [] q = ([], q)"
| "buffered cap (LogCall e # jobs) q =
     buffered cap jobs (if length q + length (entry_line e) \<le> cap then q @ entry_line e else q)"
| "buffered cap (ConsumerTurn # jobs) q =
     (let (out, rest) = buffered cap jobs [] in (if q = [] then out else q # out, rest))"

lemma log_waiting_length: "length (log_waiting a (lg, m)) = lg_offsets lg ! a"
  by (simp add: log_waiting_def log_content_def slice_bytes_def)

lemma hlog_call_rest:
  fixes m :: memory and level :: log_level and args :: "u8 list list"
  assumes rest: "log_rest p a lg"
  defines "q \<equiv> log_waiting a (lg, m)"
  defines "line \<equiv> log_line level (concat args)"
  obtains lg' m' where "hlog pr producer_push (Some p) level args (lg, m) = Inr (lg', m')" "log_rest p a lg'"
    "log_waiting a (lg', m') = (if length q + length line \<le> pr_buf_size p then q @ line else q)"
proof (cases "length q + length line \<le> pr_buf_size p")
  case True
  then have "lg_offsets lg ! a + length line \<le> pr_buf_size p" by (simp add: q_def log_waiting_length)
  from producer_push_fits [OF rest this, of m] True that show thesis
    by (auto simp: hlog_def hlog_line_eq q_def line_def)
next
  case False
  then have "pr_buf_size p < lg_offsets lg ! a + length line" by (simp add: q_def log_waiting_length)
  from producer_push_full [OF rest this, of m] False rest that show thesis
    by (auto simp: hlog_def hlog_line_eq q_def line_def)
qed

lemma log_jobs_buffered:
  assumes "log_rest p a (fst s)" and "log_waiting a s = q"
  shows "\<exists>s' b. log_jobs pr libc_write (Some p) jobs (s, w) =
      Inr (s', fold (write_to_stdout libc_write) (fst (buffered (pr_buf_size p) jobs q)) w) \<and>
    log_rest p b (fst s') \<and> log_waiting b s' = snd (buffered (pr_buf_size p) jobs q)"
  using assms
proof (induction jobs arbitrary: a s q w)
  case (Cons job jobs)
  obtain lg m where s: "s = (lg, m)" by (cases s)
  show ?case
  proof (cases job)
    case (LogCall e)
    obtain lg' m' where call: "hlog pr producer_push (Some p) (le_level e) (le_args e) s = Inr (lg', m')"
      "log_rest p a lg'" "log_waiting a (lg', m') =
        (if length q + length (entry_line e) \<le> pr_buf_size p then q @ entry_line e else q)"
      using Cons.prems hlog_call_rest [where p = p and a = a and lg = lg and m = m and pr = pr and level = "le_level e" and args = "le_args e"]
      unfolding s entry_line_def
      by (metis fst_conv)
    from Cons.IH [of a "(lg', m')", OF _ call(3)] call(1,2) show ?thesis
      by (simp add: LogCall)
  next
    case ConsumerTurn
    from consumer_consume_rest [of p a lg m] Cons.prems obtain lg' where turn:
      "consumer_consume (lg, m) = Inr (if q = [] then [] else [q], lg', m)" "log_rest p (1 - a) lg'"
      "log_waiting (1 - a) (lg', m) = []"
      unfolding s by auto
    from Cons.IH [of "1 - a" "(lg', m)", OF _ turn(3)] turn(1,2) show ?thesis
      by (auto simp: ConsumerTurn s log_consumer_turn_def split_def Let_def)
  qed
qed auto

text \<open>
  At most \<open>k\<close> more lines before the consumer's next turn, and never more than \<open>limit\<close> between two: then
  nothing is dropped.
\<close>

fun paced :: "nat \<Rightarrow> nat \<Rightarrow> log_job list \<Rightarrow> bool" where
  "paced limit k [] \<longleftrightarrow> True"
| "paced limit k (LogCall e # jobs) \<longleftrightarrow> 0 < k \<and> paced limit (k - 1) jobs"
| "paced limit k (ConsumerTurn # jobs) \<longleftrightarrow> paced limit limit jobs"

lemma buffered_paced:
  assumes "paced limit k jobs" and "length q + 100 * k \<le> cap" and "100 * limit \<le> cap"
    and "list_all line_fits (job_entries jobs)"
  shows "concat (fst (buffered cap jobs q)) @ snd (buffered cap jobs q) =
    q @ concat (map entry_line (job_entries jobs))"
  using assms
proof (induction jobs arbitrary: k q)
  case (Cons job jobs)
  show ?case
  proof (cases job)
    case (LogCall e)
    with Cons.prems have fit: "length (entry_line e) \<le> 100" using line_fits_line(2) by simp
    from Cons.prems(1) LogCall obtain j where k: "k = Suc j" by (cases k) simp_all
    with Cons.prems LogCall fit have room: "length q + length (entry_line e) \<le> cap"
      "length (q @ entry_line e) + 100 * (k - 1) \<le> cap" by simp_all
    from Cons.IH [OF _ room(2)] Cons.prems room(1) LogCall show ?thesis by simp
  next
    case ConsumerTurn
    with Cons.IH [of limit "[]"] Cons.prems show ?thesis by (simp add: split_def Let_def)
  qed
qed simp

end
