(* ===== verification/Startup.thy ===== *)
theory Startup
  imports Blob_Main
begin

text \<open>
  The server does start: with memory to spare, a ring that can be set up and socket calls that
  succeed, \<open>main\<close> reaches its loop, and the first turn has the listener accept.
\<close>

section \<open>Allocations that succeed\<close>

text \<open>The allocator never fails, and \<open>n\<close> values of the type fit in one allocation.\<close>

definition ample :: "(layout \<Rightarrow> bool) \<Rightarrow> layout \<Rightarrow> nat \<Rightarrow> bool" where
  "ample oom ty n \<longleftrightarrow> (\<forall>l. \<not> oom l) \<and> 0 < lay_size ty \<and> n < isize_max \<and>
     lay_size ty * n \<le> isize_max - (lay_align ty - 1)"

lemma ample_alloc:
  assumes "ample oom ty n" and "0 < n"
  shows "\<exists>l. layout_array ty n = Some l \<and> alloc_or_abort oom l = Inr ()"
  using assms by (auto simp: ample_def layout_array_def outcome_simps)

lemma array_new_with_fn_ample:
  assumes "ample oom ty n" and "0 < n"
  shows "\<exists>a. array_new_with_fn oom ty init n = Inr a"
  using ample_alloc [OF assms] assms by (auto simp: array_new_with_fn_def ample_def)

lemma rb_new_ample:
  assumes "ample oom ty n" and "0 < n"
  shows "\<exists>b. rb_new oom ty n = Inr b"
  using ample_alloc [OF assms] assms by (auto simp: rb_new_def ample_def)

lemma gen_alloc_new_ample:
  fixes capacity msk :: u32
  assumes oom: "\<And>l. \<not> oom l" and cap: "0 < unat (capacity AND (if msk = 0 then - 1 else msk))"
  shows "\<exists>ga. gen_alloc_new oom capacity msk = Inr ga"
proof -
  let ?n = "unat (capacity AND (if msk = 0 then - 1 else msk))"
  have "?n < 2 ^ 32" by (rule u32_unat_less)
  with oom have ample: "ample oom u32_layout ?n" by (simp add: ample_def isize_max_def)
  obtain g where g: "array_new oom u32_layout (0 :: u32) ?n = Inr g"
    using ample_alloc [OF ample cap] ample cap by (auto simp: array_new_def ample_def)
  from rb_new_ample [OF ample cap] obtain b :: "u32 ring_buffer" where b: "rb_new oom u32_layout ?n = Inr b" ..
  from rb.enq_items_fit [of b ?n "rev (map of_nat [0..<?n])"] rb_new_ok [OF b] obtain f where
    "enq_items rb_push ?n (rev (map of_nat [0..<?n])) b = Inr f" by auto
  with g b show ?thesis by (simp add: gen_alloc_new_def Let_def rb_from_fixed_iter_def)
qed

lemma object_pool_new_ample:
  fixes capacity :: u32
  assumes "ample oom ty (unat capacity)" and "0 < unat (capacity AND POOL_MASK)" and "0 < unat capacity"
  shows "\<exists>p :: 'a object_pool. object_pool_new oom ty capacity = Inr p"
proof -
  have "\<not> oom l" for l using assms(1) by (simp add: ample_def)
  with gen_alloc_new_ample [of oom capacity POOL_MASK] assms(2) obtain ga where
    "gen_alloc_new oom capacity POOL_MASK = Inr ga" by auto
  moreover obtain a :: "'a option array" where "array_new_with_fn oom ty (\<lambda>_. None) (unat capacity) = Inr a"
    using array_new_with_fn_ample [OF assms(1,3)] by blast
  ultimately show ?thesis by (simp add: object_pool_new_def)
qed

lemma buffer_pool_new_ample:
  fixes count :: u32
  assumes oom: "\<And>l. \<not> oom l" and "raw \<noteq> 0" and "0 < count"
  shows "\<exists>b. buffer_pool_new oom raw POOL_BUF_SIZE POOL_ALIGN count = Inr b"
proof -
  have "unat count < 2 ^ 32" "0 < unat count"
    using u32_unat_less assms(3) by (auto simp: word_less_nat_alt)
  with assms(2) obtain ab where "aligned_new raw (unat count) POOL_BUF_SIZE POOL_ALIGN = Inr (Inr ab)"
    by (simp add: aligned_new_def Let_def checked_mul_def usize_limit_def is_power_of_two_def usize_rem_def
        from_size_align_unchecked_def layout_valid_def isize_max_def raw_alloc_def)
  moreover obtain ga where "gen_alloc_new oom count 0 = Inr ga"
    using gen_alloc_new_ample [of oom count 0] oom assms(3) by (auto simp: word_less_nat_alt)
  ultimately show ?thesis by (simp add: buffer_pool_new_def)
qed

definition env_ample :: "alloc_env \<Rightarrow> bool" where
  "env_ample env \<longleftrightarrow> ample (env_oom env) (env_tcp_layout env) 1 \<and> env_raw env \<noteq> 0 \<and>
     ample (env_oom env) (env_conn_layout env) 100 \<and> ample (env_oom env) (env_event_layout env) 200"

lemma env_ample_sized: "env_ample env \<Longrightarrow> env_sized env"
  by (simp add: env_ample_def ample_def env_sized_def)

lemma executor_new_ample:
  assumes "env_ample env"
  shows "\<exists>ex. executor_new env io 1 100 100 = Inr ex"
proof -
  have oom: "\<not> env_oom env l" for l using assms by (simp add: env_ample_def ample_def)
  obtain tp :: "tcp_server object_pool" where tp: "object_pool_new (env_oom env) (env_tcp_layout env) 1 = Inr tp"
    using object_pool_new_ample [of "env_oom env" "env_tcp_layout env" 1] assms by (auto simp: env_ample_def)
  obtain cp :: "conn_handler object_pool" where cp: "object_pool_new (env_oom env) (env_conn_layout env) 100 = Inr cp"
    using object_pool_new_ample [of "env_oom env" "env_conn_layout env" 100] assms by (auto simp: env_ample_def)
  obtain bp where bp: "buffer_pool_new (env_oom env) (env_raw env) POOL_BUF_SIZE POOL_ALIGN 100 = Inr bp"
    using buffer_pool_new_ample [of "env_oom env" "env_raw env" 100] oom assms by (auto simp: env_ample_def)
  obtain q :: "run_queue_event ring_buffer" where q: "rb_new (env_oom env) (env_event_layout env) 200 = Inr q"
    using rb_new_ample [of "env_oom env" "env_event_layout env" 200] assms by (auto simp: env_ample_def)
  show ?thesis by (simp add: executor_new_def Let_def tp cp bp q)
qed


section \<open>A ring that can be set up\<close>

text \<open>The set-up calls and the submission queue answer without an error.\<close>

definition ring_obliges :: "'w ring_ops \<Rightarrow> bool" where
  "ring_obliges ring \<longleftrightarrow> (\<forall>w. (\<forall>p n. \<exists>w'. ring_build ring p n w = (Inr (), w')) \<and>
     (\<forall>n. \<exists>w'. ring_register_files_sparse ring n w = (Inr (), w')) \<and>
     (\<forall>v. \<exists>w'. ring_register_buffers ring v w = (Inr (), w')) \<and>
     (\<forall>e. \<exists>w'. ring_sq_push ring e w = (Inr (), w')))"

lemma ring_obligesD:
  assumes "ring_obliges ring"
  shows "\<exists>w'. ring_build ring p n w = (Inr (), w')" "\<exists>w'. ring_register_files_sparse ring k w = (Inr (), w')"
    "\<exists>w'. ring_register_buffers ring v w = (Inr (), w')" "\<exists>w'. ring_sq_push ring e w = (Inr (), w')"
  using assms unfolding ring_obliges_def by blast+

lemma uring_new_obliges:
  assumes "ring_obliges ring"
  shows "\<exists>w'. uring_new ring n b w = Inr (Inr (), w')"
  using ring_obligesD(1) [OF assms, of "if b then Some 2000 else None" n w]
  by (auto simp: uring_new_def map_os_error_def)

lemma executor_setup_obliges:
  assumes ok: "exec_ok ex" and env: "env_ample env" and host: "host_io host = uring_io ring"
    and ring: "ring_obliges ring"
  shows "\<exists>w. executor_setup env host ex = Inr (Inr (), ex\<lparr>ex_io := w\<rparr>)"
proof -
  let ?ab = "bp_pool (ex_io_bufs ex)"
  have ab: "aligned_ok ?ab" and "ab_count ?ab = ga_cap (bp_alloc (ex_io_bufs ex))"
    and "ga_ok (bp_alloc (ex_io_bufs ex))"
    using ok by (simp_all add: exec_ok_def conn.shares_def bp_ok_def)
  then have count: "0 < ab_count ?ab" "ab_count ?ab < 2 ^ 32"
    by (auto simp: aligned_ok_def ga_ok_def)
  obtain items where items: "pool_iovecs ?ab [0..<ab_count ?ab] = Inr items" "length items = ab_count ?ab"
    using pool_iovecs_ok [OF ab, of "[0..<ab_count ?ab]"] by simp
  have "ample (env_oom env) iovec_layout (ab_count ?ab)"
    using env count by (simp add: ample_def env_ample_def isize_max_def)
  from ample_alloc [OF this count(1)] count items(2) obtain a where
    a: "array_from_fixed_iter (env_oom env) iovec_layout (ab_count ?ab) items = Inr a"
    by (auto simp: array_from_fixed_iter_def isize_max_def outcome_simps)
  have "array_deref a = Inr (take (arr_size a) (arr_cells a))"
    using array_from_fixed_iter_ok [OF a] items(2) by (simp add: array_deref_def)
  then obtain vs where vs: "array_deref a = Inr vs" ..
  obtain w1 where w1: "ring_register_files_sparse ring (object_pool_capacity (ex_conn_pool ex)) (ex_io ex) = (Inr (), w1)"
    using ring_obligesD [OF ring] by blast
  obtain w2 where w2: "ring_register_buffers ring vs w1 = (Inr (), w2)"
    using ring_obligesD [OF ring] by blast
  show ?thesis
    by (intro exI [of _ w2]) (simp add: executor_setup_def Let_def host uring_io_def uring_register_files_def
        uring_register_buffers_def map_os_error_def w1 w2 items(1) a vs)
qed


section \<open>The first event\<close>

text \<open>A slot and a place in the run queue are all that seeding needs.\<close>

lemma op_free_slot:
  assumes "op_ok op" and "op_map op = Map.empty" and "0 < op_cap op"
  obtains idx rest where "ga_free (op_alloc op) = idx # rest"
proof -
  from op_live_in_dom [OF assms(1)] assms(2) have "ga_live (op_alloc op) = {}" by simp
  with ga_card_live [of "op_alloc op"] assms(1,3) have "ga_free (op_alloc op) \<noteq> []"
    by (auto simp: op_ok_def op_cap_def)
  then show thesis using that by (cases "ga_free (op_alloc op)") auto
qed

lemma seed_run_queue_room:
  assumes ok: "exec_ok ex" and tcp: "op_map (ex_tcp_pool ex) = Map.empty" "0 < op_cap (ex_tcp_pool ex)"
    and queue: "ex_queue (ex_current ex) ex = []" "0 < ex_queue_cap (ex_current ex) ex"
  obtains gid ex' where "seed_run_queue ex = Inr ex'" "exec_ok ex'" "unat (gid_index gid) < 2 ^ 24"
    "op_map (ex_tcp_pool ex') = [gid \<mapsto> tcp_server_new ''0.0.0.0:3000'' 4096]"
    "ex_queue (ex_current ex) ex' = [\<lparr>rq_reason = Spawn, rq_handle = handle_new TCP_SERVER gid\<rparr>]"
    "ex_current ex' = ex_current ex" "ex_io ex' = ex_io ex"
proof -
  let ?ts = "tcp_server_new ''0.0.0.0:3000'' 4096"
  have pool: "op_ok (ex_tcp_pool ex)" and cur: "ex_current ex < 2"
    using ok by (simp_all add: exec_ok_def)
  obtain idx rest where "ga_free (op_alloc (ex_tcp_pool ex)) = idx # rest"
    by (rule op_free_slot [OF pool tcp])
  from object_pool_spawn_room [OF pool this, of TCP_SERVER ?ts] tcp(1) obtain gid p where
    p: "object_pool_spawn TCP_SERVER ?ts (ex_tcp_pool ex) = Inr (Some (handle_new TCP_SERVER gid), p)"
      "op_ok p" "unat (gid_index gid) < 2 ^ 24" "op_map p = [gid \<mapsto> ?ts]" by metis
  have ok': "exec_ok (ex\<lparr>ex_tcp_pool := p\<rparr>)" using ok p(2) by (simp add: exec_ok_def)
  have same: "ex_queue i (ex\<lparr>ex_tcp_pool := p\<rparr>) = ex_queue i ex" "ex_queue_cap i (ex\<lparr>ex_tcp_pool := p\<rparr>) = ex_queue_cap i ex"
    for i by (simp_all add: ex_queue_def ex_queue_cap_def)
  show thesis
  proof (cases rule: run_queue_push_cases [OF ok' cur, of
        "\<lparr>rq_reason = Spawn, rq_handle = handle_new TCP_SERVER gid\<rparr>", case_names pushed full])
    case (pushed ex')
    with p queue show thesis by (intro that [of ex' gid]) (simp_all add: seed_run_queue_def same)
  next
    case full
    with queue show thesis by (simp add: same)
  qed
qed


section \<open>The listener\<close>

text \<open>The socket calls succeed on the descriptor \<open>fd\<close>.\<close>

definition net_obliges :: "'w net_ops \<Rightarrow> i32 \<Rightarrow> bool" where
  "net_obliges net fd \<longleftrightarrow> (\<forall>w. (\<exists>w'. net_socket net INET w = (Inr fd, w')) \<and>
     (\<exists>w'. net_set_reuseaddr net fd True w = (Inr (), w')) \<and>
     (\<exists>w'. net_bind net fd (V4 [0, 0, 0, 0] 3000) w = (Inr (), w')) \<and>
     (\<exists>w'. net_listen net fd 4096 w = (Inr (), w')))"

lemma tcp_listen_obliges:
  assumes "net_obliges net fd"
  obtains w' where "tcp_listen net (tcp_server_new ''0.0.0.0:3000'' 4096) w =
    Inr (Inr (), (tcp_server_new ''0.0.0.0:3000'' 4096)\<lparr>ts_listener_fd := fd\<rparr>, w')"
proof -
  obtain w1 where 1: "net_socket net INET w = (Inr fd, w1)"
    using assms unfolding net_obliges_def by blast
  obtain w2 where 2: "net_set_reuseaddr net fd True w1 = (Inr (), w2)"
    using assms unfolding net_obliges_def by blast
  obtain w3 where 3: "net_bind net fd (V4 [0, 0, 0, 0] 3000) w2 = (Inr (), w3)"
    using assms unfolding net_obliges_def by blast
  obtain w4 where 4: "net_listen net fd 4096 w3 = (Inr (), w4)"
    using assms unfolding net_obliges_def by blast
  show thesis
    by (rule that [of w4]) (simp add: tcp_listen_def tcp_server_new_def socket_addr_from_str_def
        server_address 1 2 3 4)
qed

lemma first_event:
  assumes ok: "exec_ok ex" and host: "host_profile host = Checked" "host_io host = uring_io ring"
    and ring: "ring_obliges ring" and net: "net_obliges (host_net host) fd"
    and gid: "unat (gid_index gid) < 2 ^ 24"
    and tcp: "op_map (ex_tcp_pool ex) = [gid \<mapsto> tcp_server_new ''0.0.0.0:3000'' 4096]"
    and queue: "ex_queue (ex_current ex) ex = [\<lparr>rq_reason = Spawn, rq_handle = handle_new TCP_SERVER gid\<rparr>]"
  obtains ex' v where "drain_run_queue host ex = Some (Inr ex')" "exec_ok ex'"
    "op_map (ex_tcp_pool ex') = [gid \<mapsto> \<lparr>ts_state = TcpAccepting, ts_addr = ''0.0.0.0:3000'',
       ts_backlog = 4096, ts_listener_fd = fd\<rparr>]"
    "ring_sq_push ring (AcceptMulti (Fd fd) True (handle_into_u64 (handle_new TCP_SERVER gid))) v =
       (Inr (), ex_io ex')"
proof -
  let ?h = "handle_new TCP_SERVER gid" and ?ts = "tcp_server_new ''0.0.0.0:3000'' 4096"
  obtain ex1 where ok1: "exec_ok ex1" and ex1: "ex_queue (ex_current ex) ex1 = []" "ex_current ex1 = ex_current ex"
      "ex_tcp_pool ex1 = ex_tcp_pool ex" "ex_io ex1 = ex_io ex"
    and step: "\<And>ex2. process_queued host \<lparr>rq_reason = Spawn, rq_handle = ?h\<rparr> ex1 = Inr ex2 \<Longrightarrow>
      drain_run_queue host ex = drain_run_queue host ex2"
    by (rule drain_step [OF ok queue, of host]) (rule that; assumption)
  obtain w1 where listen: "tcp_listen (host_net host) ?ts (ex_io ex) = Inr (Inr (), ?ts\<lparr>ts_listener_fd := fd\<rparr>, w1)"
    by (rule tcp_listen_obliges [OF net])
  have room: "ctx_len (ctx_of ex1) < length (ctx_intents (ctx_of ex1))"
    using ok1 by (simp add: exec_ok_def)
  obtain ctx where sub: "submit_intent (SubmitMultishotAccept (Fd fd)) (ctx_of ex1) = Inr ctx"
    and emits: "emits [SubmitMultishotAccept (Fd fd)] (ctx_of ex1) ctx"
    by (rule submit_room_emits [OF room, of "SubmitMultishotAccept (Fd fd)"])
  let ?ts' = "?ts\<lparr>ts_listener_fd := fd, ts_state := TcpAccepting\<rparr>"
  have run: "tcp_process_event (host_net host) (host_more_io host) ?ts (ctx_of ex1) Spawn (ex_io ex1) =
      Inr (?ts', ctx, w1)"
    using listen sub by (simp add: tcp_process_event_def tcp_multishot_accept_def tcp_server_new_def ex1(4))
  have h: "handle_pool_id ?h = TCP_SERVER" "handle_gid ?h = gid" using gid by (simp_all add: handle_pack_pool_id)
  have ts: "op_map (ex_tcp_pool ex1) (handle_gid ?h) = Some ?ts" using tcp h ex1(3) by simp
  obtain ex2 where ex2: "dispatch host Spawn ?h ex1 = Inr (1, ex2)"
    "complete_intent host 1 ?h ex2 = complete_list host ?h [Some (SubmitMultishotAccept (Fd fd))] ex2"
    "ex_io ex2 = w1" "exec_ok ex2" "op_map (ex_tcp_pool ex2) = [gid \<mapsto> ?ts']"
    "ex_run_queues ex2 = ex_run_queues ex1" "ex_current ex2 = ex_current ex1"
    by (rule dispatch_tcp_Inr [OF ok1 host(1) h(1) ts run emits]) (use tcp h ex1(3) in auto)
  obtain w2 where push: "ring_sq_push ring (AcceptMulti (Fd fd) True (handle_into_u64 ?h)) w1 = (Inr (), w2)"
    using ring_obligesD [OF ring] by blast
  let ?ex3 = "ex2\<lparr>ex_io := w2\<rparr>"
  have run3: "process_queued host \<lparr>rq_reason = Spawn, rq_handle = ?h\<rparr> ex1 = Inr ?ex3"
    using ex2(1,2,3) push
    by (simp add: process_queued_def complete_one_def io_submit_def host(2) uring_io_def uring_enqueue_def)
  have "ex_queue (ex_current ?ex3) ?ex3 = []" "exec_ok ?ex3"
    using ex1(1,2) ex2(4,6,7) by (simp_all add: ex_queue_def)
  with step [OF run3] have "drain_run_queue host ex = Some (Inr ?ex3)" by (simp only: drain_done)
  with ex2(4,5) push show thesis
    by (intro that [of ?ex3 w1]) (simp_all add: tcp_server_new_def)
qed


section \<open>The way to the loop\<close>

lemma logger_new_succeeds:
  assumes "raw0 \<noteq> 0" and "raw1 \<noteq> 0"
  shows "\<exists>p lg. logger_new raw0 raw1 (512 * 1000) = Inr (Inr (p, lg))"
  using assms by (simp add: logger_new_def aligned_new_def Let_def checked_mul_def usize_limit_def is_power_of_two_def
      usize_rem_def from_size_align_unchecked_def layout_valid_def isize_max_def raw_alloc_def)

lemma blob_main_starts:
  assumes env: "env_ample env" "log_env_ok raw0 raw1 (512 * 1000)" and logger: "raw0 \<noteq> 0" "raw1 \<noteq> 0"
    and contract: "alloc_contract (env_raw env) \<lparr>lay_size = 100 * POOL_BUF_SIZE, lay_align = POOL_ALIGN\<rparr>"
    and host: "host_profile host = Checked" "host_io host = uring_io ring" and ring: "ring_obliges ring"
  obtains s ex gid where "blob_main 0 env raw0 raw1 ring host m w = Some (Inr (Inr (s, ex)))"
    "exec_ok ex" "unat (gid_index gid) < 2 ^ 24"
    "op_map (ex_tcp_pool ex) = [gid \<mapsto> tcp_server_new ''0.0.0.0:3000'' 4096]"
    "ex_queue (ex_current ex) ex = [\<lparr>rq_reason = Spawn, rq_handle = handle_new TCP_SERVER gid\<rparr>]"
proof -
  from logger_new_succeeds [OF logger] obtain p lg where new: "logger_new raw0 raw1 (512 * 1000) = Inr (Inr (p, lg))"
    by blast
  from uring_new_obliges [OF ring] obtain w' where w': "uring_new ring 4096 False w = Inr (Inr (), w')" by blast
  from executor_new_ample [OF env(1), of w'] obtain ex0 where ex0: "executor_new env w' 1 100 100 = Inr ex0" ..
  have "unat (100 :: u32) = 100" "unat (1 AND POOL_MASK) = 1" by simp_all
  with executor_new_ok [OF ex0] contract have ex0_ok: "exec_ok ex0" "ex_current ex0 = 0" "ex_queue 0 ex0 = []"
    "op_map (ex_tcp_pool ex0) = Map.empty" "ex_queue_cap 0 ex0 = 200" "op_cap (ex_tcp_pool ex0) = 1" by simp_all
  from executor_setup_obliges [OF ex0_ok(1) env(1) host(2) ring] obtain w1 where
    up: "executor_setup env host ex0 = Inr (Inr (), ex0\<lparr>ex_io := w1\<rparr>)" by blast
  let ?ex1 = "ex0\<lparr>ex_io := w1\<rparr>"
  have "exec_ok ?ex1" "op_map (ex_tcp_pool ?ex1) = Map.empty" "0 < op_cap (ex_tcp_pool ?ex1)"
    "ex_queue (ex_current ?ex1) ?ex1 = []" "0 < ex_queue_cap (ex_current ?ex1) ?ex1"
    using ex0_ok by (simp_all add: ex_queue_cap_def)
  then obtain gid ex where ex: "seed_run_queue ?ex1 = Inr ex" "exec_ok ex" "unat (gid_index gid) < 2 ^ 24"
    "op_map (ex_tcp_pool ex) = [gid \<mapsto> tcp_server_new ''0.0.0.0:3000'' 4096]"
    "ex_queue (ex_current ?ex1) ex = [\<lparr>rq_reason = Spawn, rq_handle = handle_new TCP_SERVER gid\<rparr>]"
    "ex_current ex = ex_current ?ex1"
    by (rule seed_run_queue_room)
  obtain lg' m' where "blob_start env ring (host_profile host) (init_logger p) (lg, m) w =
      Inr ((lg', m'), ex0)"
    by (rule blob_start_steps [OF env(2) new, of env ring "host_profile host" m w]) (simp add: w' ex0)
  with new up ex(1) have "blob_main 0 env raw0 raw1 ring host m w = Some (Inr (Inr ((lg', m'), ex)))"
    by (simp add: blob_main_def executor_run_def)
  with ex show thesis by (intro that [of "(lg', m')" ex gid]) simp_all
qed

end
