(* ===== verification/Connection_Start.thy ===== *)
theory Connection_Start
  imports Startup
begin

text \<open>
  The way of a new connection through the event loop: the completion of an accept makes the listener
  spawn a connection machine, whose first event takes a buffer from the pool and submits a receive.
\<close>

section \<open>The listener's event\<close>

lemma op_room:
  assumes "op_ok op" and "card (dom (op_map op)) < op_cap op"
  obtains idx rest where "ga_free (op_alloc op) = idx # rest"
proof -
  from ga_card_live [of "op_alloc op"] assms op_live_in_dom [OF assms(1)] have "ga_free (op_alloc op) \<noteq> []"
    by (auto simp: op_ok_def op_cap_def)
  then show thesis using that by (cases "ga_free (op_alloc op)") auto
qed

lemma spawn_connection:
  assumes ok: "exec_ok ex" and room: "card (dom (op_map (ex_conn_pool ex))) < op_cap (ex_conn_pool ex)"
    and queue: "length (ex_queue (ex_current ex) ex) < ex_queue_cap (ex_current ex) ex"
  obtains gid ex' where "complete_one host h (SpawnConnHandler (Fixed d)) ex = Inr ex'" "exec_ok ex'"
    "unat (gid_index gid) < 2 ^ 24" "op_map (ex_conn_pool ex) gid = None"
    "op_map (ex_conn_pool ex') = (op_map (ex_conn_pool ex))(gid \<mapsto> conn_new d)"
    "ex_queue (ex_current ex) ex' = ex_queue (ex_current ex) ex @
       [\<lparr>rq_reason = Spawn, rq_handle = handle_new CONN_HANDLER gid\<rparr>]"
    "ex_current ex' = ex_current ex" "ex_io ex' = ex_io ex" "ex_io_bufs ex' = ex_io_bufs ex"
    "ex_tcp_pool ex' = ex_tcp_pool ex"
proof -
  have pool: "op_ok (ex_conn_pool ex)" and cur: "ex_current ex < 2"
    using ok by (simp_all add: exec_ok_def)
  obtain idx rest where "ga_free (op_alloc (ex_conn_pool ex)) = idx # rest" by (rule op_room [OF pool room])
  from object_pool_spawn_room [OF pool this, of CONN_HANDLER "conn_new d"] obtain gid p where
    p: "object_pool_spawn CONN_HANDLER (conn_new d) (ex_conn_pool ex) = Inr (Some (handle_new CONN_HANDLER gid), p)"
      "op_ok p" "unat (gid_index gid) < 2 ^ 24" "gid \<notin> ga_live (op_alloc (ex_conn_pool ex))"
      "op_map p = (op_map (ex_conn_pool ex))(gid \<mapsto> conn_new d)"
    by blast
  then have fresh: "op_map (ex_conn_pool ex) gid = None" by (simp add: op_map_def)
  have "conn.shares {} (ex_io_bufs ex) (op_map p)"
    unfolding p(5)
    by (rule conn.shares_spawn)
      (use ok fresh in \<open>auto simp: exec_ok_def conn_ok_def conn_owned_def conn_new_def\<close>)
  with ok p have ok': "exec_ok (ex\<lparr>ex_conn_pool := p\<rparr>)" by (simp add: exec_ok_def)
  have same: "ex_queue i (ex\<lparr>ex_conn_pool := p\<rparr>) = ex_queue i ex"
    "ex_queue_cap i (ex\<lparr>ex_conn_pool := p\<rparr>) = ex_queue_cap i ex" for i
    by (simp_all add: ex_queue_def ex_queue_cap_def)
  show thesis
  proof (cases rule: run_queue_push_cases [OF ok' cur, of
        "\<lparr>rq_reason = Spawn, rq_handle = handle_new CONN_HANDLER gid\<rparr>", case_names pushed full])
    case (pushed ex')
    with p fresh show thesis by (intro that [of ex' gid]) (simp_all add: complete_one_def same)
  next
    case full
    with queue show thesis by (simp add: same)
  qed
qed

lemma accept_event:
  assumes ok: "exec_ok ex" and host: "host_profile host = Checked" and more: "host_more_io host flags"
    and h: "handle_pool_id h = TCP_SERVER" "op_map (ex_tcp_pool ex) (handle_gid h) = Some ts" "ts_state ts = TcpAccepting"
    and res: "0 \<le> sint res"
    and room: "card (dom (op_map (ex_conn_pool ex))) < op_cap (ex_conn_pool ex)"
    and queue: "length (ex_queue (ex_current ex) ex) < ex_queue_cap (ex_current ex) ex"
  obtains gid ex' where "process_queued host \<lparr>rq_reason = IoCompleted res flags, rq_handle = h\<rparr> ex = Inr ex'"
    "exec_ok ex'" "unat (gid_index gid) < 2 ^ 24" "op_map (ex_conn_pool ex) gid = None"
    "op_map (ex_conn_pool ex') = (op_map (ex_conn_pool ex))(gid \<mapsto> conn_new res)"
    "ex_queue (ex_current ex) ex' = ex_queue (ex_current ex) ex @
       [\<lparr>rq_reason = Spawn, rq_handle = handle_new CONN_HANDLER gid\<rparr>]"
    "ex_current ex' = ex_current ex" "ex_io ex' = ex_io ex" "ex_io_bufs ex' = ex_io_bufs ex"
    "op_map (ex_tcp_pool ex') = op_map (ex_tcp_pool ex)"
proof -
  have "ctx_len (ctx_of ex) < length (ctx_intents (ctx_of ex))" using ok by (simp add: exec_ok_def)
  then obtain ctx where sub: "submit_intent (SpawnConnHandler (Fixed res)) (ctx_of ex) = Inr ctx"
    and emits: "emits [SpawnConnHandler (Fixed res)] (ctx_of ex) ctx"
    by (rule submit_room_emits [of _ "SpawnConnHandler (Fixed res)"])
  have run: "tcp_process_event (host_net host) (host_more_io host) ts (ctx_of ex) (IoCompleted res flags) (ex_io ex) =
      Inr (ts, ctx, ex_io ex)"
    using h(3) res more sub by (simp add: tcp_process_event_def)
  obtain ex1 where ex1: "dispatch host (IoCompleted res flags) h ex = Inr (length [SpawnConnHandler (Fixed res)], ex1)"
    "complete_intent host (length [SpawnConnHandler (Fixed res)]) h ex1 =
       complete_list host h (map Some [SpawnConnHandler (Fixed res)]) ex1"
    "ex_io_bufs ex1 = ex_io_bufs ex" "ex_io ex1 = ex_io ex" "exec_ok ex1"
    "op_map (ex_tcp_pool ex1) = (op_map (ex_tcp_pool ex))(handle_gid h \<mapsto> ts)"
    "ex_run_queues ex1 = ex_run_queues ex" "ex_conn_pool ex1 = ex_conn_pool ex" "ex_current ex1 = ex_current ex"
    by (rule dispatch_tcp_Inr [OF ok host h(1,2) run emits])
  have same: "ex_queue i ex1 = ex_queue i ex" "ex_queue_cap i ex1 = ex_queue_cap i ex" for i
    using ex1(7) by (simp_all add: ex_queue_def ex_queue_cap_def)
  obtain gid ex' where ex': "complete_one host h (SpawnConnHandler (Fixed res)) ex1 = Inr ex'" "exec_ok ex'"
    "unat (gid_index gid) < 2 ^ 24" "op_map (ex_conn_pool ex1) gid = None"
    "op_map (ex_conn_pool ex') = (op_map (ex_conn_pool ex1))(gid \<mapsto> conn_new res)"
    "ex_queue (ex_current ex1) ex' = ex_queue (ex_current ex1) ex1 @
       [\<lparr>rq_reason = Spawn, rq_handle = handle_new CONN_HANDLER gid\<rparr>]"
    "ex_current ex' = ex_current ex1" "ex_io ex' = ex_io ex1" "ex_io_bufs ex' = ex_io_bufs ex1"
    "ex_tcp_pool ex' = ex_tcp_pool ex1"
    by (rule spawn_connection [OF ex1(5), of host h res]) (use room queue ex1(8,9) same in auto)
  from ex1(1,2) ex'(1) have step: "process_queued host \<lparr>rq_reason = IoCompleted res flags, rq_handle = h\<rparr> ex = Inr ex'"
    by (simp add: process_queued_def)
  have "op_map (ex_tcp_pool ex') = op_map (ex_tcp_pool ex)"
    using ex'(10) ex1(6) h(2) by (simp add: map_upd_triv)
  with step ex' ex1 same show thesis by (intro that [of ex' gid]) simp_all
qed


section \<open>The connection's first event\<close>

lemma start_event:
  assumes ok: "exec_ok ex" and host: "host_profile host = Checked" "host_io host = uring_io ring"
    and ring: "ring_obliges ring"
    and h: "handle_pool_id h = CONN_HANDLER" "op_map (ex_conn_pool ex) (handle_gid h) = Some (conn_new d)"
    and room: "card (bp_live (ex_io_bufs ex)) < bp_cap (ex_io_bufs ex)"
  obtains b ex' where "process_queued host \<lparr>rq_reason = Spawn, rq_handle = h\<rparr> ex = Inr ex'" "exec_ok ex'"
    "op_map (ex_conn_pool ex') = (op_map (ex_conn_pool ex))(handle_gid h \<mapsto>
       \<lparr>ch_state = Recv ReceivingHeader, ch_socket = Fixed d, ch_buf_handle = Some b, ch_offset = 0\<rparr>)"
    "b \<notin> bp_live (ex_io_bufs ex)" "bp_live (ex_io_bufs ex') = insert b (bp_live (ex_io_bufs ex))"
    "ring_sq_push ring (ReadFixed (Fixed d) (sl_ptr (bp_slice (ex_io_bufs ex') b)) 4096
       (ucast (gid_index (bh_gid b))) (handle_into_u64 h)) (ex_io ex) = (Inr (), ex_io ex')"
    "ex_current ex' = ex_current ex" "\<And>i. ex_queue i ex' = ex_queue i ex"
proof -
  have bufs: "bp_ok POOL_BUF_SIZE (ex_io_bufs ex)" using ok by (simp add: exec_ok_def conn.shares_def)
  obtain b p where b: "buffer_pool_alloc (ex_io_bufs ex) = Inr (Some b, p)" "b \<notin> bp_live (ex_io_bufs ex)"
      "bp_live p = insert b (bp_live (ex_io_bufs ex))"
    by (rule bp.acquire_cases [OF bufs]) (use room in auto)
  let ?ch = "\<lparr>ch_state = Recv ReceivingHeader, ch_socket = Fixed d, ch_buf_handle = Some b, ch_offset = 0\<rparr>"
  let ?new = "[SubmitRecv (Fixed d) b 0]" and ?ctx = "(ctx_of ex)\<lparr>ctx_buffers := p\<rparr>"
  have "ctx_len ?ctx < length (ctx_intents ?ctx)" using ok by (simp add: exec_ok_def)
  then obtain ctx where sub: "submit_intent (SubmitRecv (Fixed d) b 0) ?ctx = Inr ctx"
    and emits: "emits ?new ?ctx ctx" and ctx: "ctx_buffers ctx = p"
    by (rule submit_room_emits [of _ "SubmitRecv (Fixed d) b 0"]) auto
  have run: "conn_process_event Checked (host_memory host (ex_io ex)) (conn_new d) (ctx_of ex) Spawn = Inr (?ch, ctx)"
    using b(1) sub by (simp add: conn_process_event_def conn_on_init_def conn_recv_def conn_buf_handle_def conn_new_def)
  have emits': "emits ?new (ctx_of ex) ctx" using emits by simp
  obtain ex1 where ex1: "dispatch host Spawn h ex = Inr (length ?new, ex1)"
    "complete_intent host (length ?new) h ex1 = complete_list host h (map Some ?new) ex1"
    "ex_io_bufs ex1 = ctx_buffers ctx" "ex_io ex1 = ex_io ex" "exec_ok ex1"
    "op_map (ex_conn_pool ex1) = (op_map (ex_conn_pool ex))(handle_gid h \<mapsto> ?ch)"
    "ex_run_queues ex1 = ex_run_queues ex" "ex_current ex1 = ex_current ex"
    by (rule dispatch_conn_Inr [OF ok host(1) h run emits'])
  have ok1: "bp_ok POOL_BUF_SIZE (ex_io_bufs ex1)" using ex1(5) by (simp add: exec_ok_def conn.shares_def)
  have "b \<in> bp_live (ex_io_bufs ex1)" using b(3) ex1(3) ctx by simp
  then have get: "buffer_pool_get_mut POOL_BUF_SIZE (ex_io_bufs ex1) b = Inr (Some (bp_slice (ex_io_bufs ex1) b))"
    using buffer_pool_get_valid [OF ok1] bp.valid_live [OF ok1] by blast
  have size: "ab_buf_size (bp_pool (ex_io_bufs ex1)) = POOL_BUF_SIZE" using ok1 by (simp add: bp_ok_def)
  obtain w where push: "ring_sq_push ring (ReadFixed (Fixed d) (sl_ptr (bp_slice (ex_io_bufs ex1) b)) 4096
      (ucast (gid_index (bh_gid b))) (handle_into_u64 h)) (ex_io ex) = (Inr (), w)"
    using ring_obligesD [OF ring] by blast
  have "complete_one host h (SubmitRecv (Fixed d) b 0) ex1 = Inr (ex1\<lparr>ex_io := w\<rparr>)"
    using get size push ex1(4)
    by (simp add: complete_one_def Let_def slice_from_def io_submit_def host(2) uring_io_def uring_enqueue_def)
  with ex1(1,2) have "process_queued host \<lparr>rq_reason = Spawn, rq_handle = h\<rparr> ex = Inr (ex1\<lparr>ex_io := w\<rparr>)"
    by (simp add: process_queued_def)
  with ex1 b ctx push show thesis
    by (intro that [of "ex1\<lparr>ex_io := w\<rparr>" b]) (simp_all add: ex_queue_def)
qed


section \<open>Both events from the queue\<close>

lemma accept_drains:
  assumes ok: "exec_ok ex" and host: "host_profile host = Checked" and more: "host_more_io host flags"
    and h: "handle_pool_id h = TCP_SERVER" "op_map (ex_tcp_pool ex) (handle_gid h) = Some ts" "ts_state ts = TcpAccepting"
    and res: "0 \<le> sint res"
    and room: "card (dom (op_map (ex_conn_pool ex))) < op_cap (ex_conn_pool ex)"
    and queue: "ex_queue (ex_current ex) ex = [\<lparr>rq_reason = IoCompleted res flags, rq_handle = h\<rparr>]"
  obtains gid ex' where "drain_run_queue host ex = drain_run_queue host ex'"
    "exec_ok ex'" "unat (gid_index gid) < 2 ^ 24" "op_map (ex_conn_pool ex) gid = None"
    "op_map (ex_conn_pool ex') = (op_map (ex_conn_pool ex))(gid \<mapsto> conn_new res)"
    "ex_queue (ex_current ex') ex' = [\<lparr>rq_reason = Spawn, rq_handle = handle_new CONN_HANDLER gid\<rparr>]"
    "ex_io ex' = ex_io ex" "ex_io_bufs ex' = ex_io_bufs ex"
proof -
  obtain ex1 where ex1: "exec_ok ex1" "ex_queue (ex_current ex) ex1 = []" "ex_current ex1 = ex_current ex"
    "ex_conn_pool ex1 = ex_conn_pool ex" "ex_tcp_pool ex1 = ex_tcp_pool ex" "ex_io_bufs ex1 = ex_io_bufs ex"
    "ex_io ex1 = ex_io ex" and step: "\<And>ex2. process_queued host \<lparr>rq_reason = IoCompleted res flags, rq_handle = h\<rparr> ex1 = Inr ex2 \<Longrightarrow>
      drain_run_queue host ex = drain_run_queue host ex2"
    by (rule drain_step [OF ok queue, of host]) (rule that; assumption)
  have cap: "length (ex_queue (ex_current ex1) ex1) < ex_queue_cap (ex_current ex1) ex1"
    using ex1(1-3) exec_ok_queue [OF ex1(1), of "ex_current ex1"]
    by (simp add: exec_ok_def ex_queue_cap_def rb_ok_def)
  have listener: "op_map (ex_tcp_pool ex1) (handle_gid h) = Some ts" using h(2) ex1(5) by simp
  have slot: "card (dom (op_map (ex_conn_pool ex1))) < op_cap (ex_conn_pool ex1)" using room ex1(4) by simp
  show thesis
  proof (rule accept_event [OF ex1(1) host more h(1) listener h(3) res slot cap])
    fix gid ex2 assume "process_queued host \<lparr>rq_reason = IoCompleted res flags, rq_handle = h\<rparr> ex1 = Inr ex2"
    note drain = step [OF this]
    assume "exec_ok ex2" "unat (gid_index gid) < 2 ^ 24" "op_map (ex_conn_pool ex1) gid = None"
      "op_map (ex_conn_pool ex2) = (op_map (ex_conn_pool ex1))(gid \<mapsto> conn_new res)"
      "ex_queue (ex_current ex1) ex2 = ex_queue (ex_current ex1) ex1 @
         [\<lparr>rq_reason = Spawn, rq_handle = handle_new CONN_HANDLER gid\<rparr>]"
      "ex_current ex2 = ex_current ex1" "ex_io ex2 = ex_io ex1" "ex_io_bufs ex2 = ex_io_bufs ex1"
    with drain ex1 show thesis by (intro that [of ex2 gid]) simp_all
  qed
qed

lemma start_drains:
  assumes ok: "exec_ok ex" and host: "host_profile host = Checked" "host_io host = uring_io ring"
    and ring: "ring_obliges ring"
    and h: "handle_pool_id h = CONN_HANDLER" "op_map (ex_conn_pool ex) (handle_gid h) = Some (conn_new d)"
    and room: "card (bp_live (ex_io_bufs ex)) < bp_cap (ex_io_bufs ex)"
    and queue: "ex_queue (ex_current ex) ex = [\<lparr>rq_reason = Spawn, rq_handle = h\<rparr>]"
  obtains b ex' where "drain_run_queue host ex = Some (Inr ex')"
    "op_map (ex_conn_pool ex') = (op_map (ex_conn_pool ex))(handle_gid h \<mapsto>
       \<lparr>ch_state = Recv ReceivingHeader, ch_socket = Fixed d, ch_buf_handle = Some b, ch_offset = 0\<rparr>)"
    "b \<notin> bp_live (ex_io_bufs ex)" "bp_live (ex_io_bufs ex') = insert b (bp_live (ex_io_bufs ex))"
    "ring_sq_push ring (ReadFixed (Fixed d) (sl_ptr (bp_slice (ex_io_bufs ex') b)) 4096
       (ucast (gid_index (bh_gid b))) (handle_into_u64 h)) (ex_io ex) = (Inr (), ex_io ex')"
proof -
  obtain ex1 where ex1: "exec_ok ex1" "ex_queue (ex_current ex) ex1 = []" "ex_current ex1 = ex_current ex"
    "ex_conn_pool ex1 = ex_conn_pool ex" "ex_io_bufs ex1 = ex_io_bufs ex" "ex_io ex1 = ex_io ex"
    and step: "\<And>ex2. process_queued host \<lparr>rq_reason = Spawn, rq_handle = h\<rparr> ex1 = Inr ex2 \<Longrightarrow>
      drain_run_queue host ex = drain_run_queue host ex2"
    by (rule drain_step [OF ok queue, of host]) (rule that; assumption)
  have new: "op_map (ex_conn_pool ex1) (handle_gid h) = Some (conn_new d)"
    and buffer: "card (bp_live (ex_io_bufs ex1)) < bp_cap (ex_io_bufs ex1)"
    using h(2) room ex1(4,5) by simp_all
  show thesis
  proof (rule start_event [OF ex1(1) host ring h(1) new buffer])
    fix b ex2 assume run: "process_queued host \<lparr>rq_reason = Spawn, rq_handle = h\<rparr> ex1 = Inr ex2"
      and ex2: "exec_ok ex2" "ex_current ex2 = ex_current ex1" "\<And>i. ex_queue i ex2 = ex_queue i ex1"
      and rest: "op_map (ex_conn_pool ex2) = (op_map (ex_conn_pool ex1))(handle_gid h \<mapsto>
       \<lparr>ch_state = Recv ReceivingHeader, ch_socket = Fixed d, ch_buf_handle = Some b, ch_offset = 0\<rparr>)"
      "b \<notin> bp_live (ex_io_bufs ex1)" "bp_live (ex_io_bufs ex2) = insert b (bp_live (ex_io_bufs ex1))"
      "ring_sq_push ring (ReadFixed (Fixed d) (sl_ptr (bp_slice (ex_io_bufs ex2) b)) 4096
       (ucast (gid_index (bh_gid b))) (handle_into_u64 h)) (ex_io ex1) = (Inr (), ex_io ex2)"
    have "drain_run_queue host ex2 = Some (Inr ex2)" using ex2 ex1(2,3) by (intro drain_done) simp_all
    with step [OF run] rest ex1 show thesis by (intro that [of ex2 b]) simp_all
  qed
qed

end
