(* ===== verification/Connection_Life.thy ===== *)
theory Connection_Life
  imports Connection_Start
begin

text \<open>
  The rest of a connection's life in the event loop: completed receives, the end of the stream and the
  completed close, one event after the other, with what each submits to the ring.
\<close>

text \<open>The world after some entries have been pushed to the submission queue.\<close>

fun pushed :: "'w ring_ops \<Rightarrow> sqe list \<Rightarrow> 'w \<Rightarrow> 'w" where
  "pushed ring [] w = w"
| "pushed ring (e # es) w = pushed ring es (snd (ring_sq_push ring e w))"

lemma pushed_append: "pushed ring (es @ fs) w = pushed ring fs (pushed ring es w)"
  by (induction es arbitrary: w) simp_all

lemma io_submit_obliges:
  assumes "host_io host = uring_io ring" and "ring_obliges ring"
  shows "io_submit host entry ex = Inr (ex\<lparr>ex_io := pushed ring [entry] (ex_io ex)\<rparr>)"
proof -
  obtain w where "ring_sq_push ring entry (ex_io ex) = (Inr (), w)" using ring_obligesD [OF assms(2)] by blast
  with assms(1) show ?thesis by (simp add: io_submit_def uring_io_def uring_enqueue_def)
qed

text \<open>The receives that completed receives of sizes \<open>rs\<close> lead to, from offset \<open>off\<close> on.\<close>

fun conn_reads :: "fixed \<Rightarrow> addr \<Rightarrow> buffer_handle \<Rightarrow> object_handle \<Rightarrow> nat \<Rightarrow> i32 list \<Rightarrow> sqe list" where
  "conn_reads file p b handle off [] = []"
| "conn_reads file p b handle off (r # rs) =
     ReadFixed file (p + (off + unat r)) (of_nat (POOL_BUF_SIZE - (off + unat r)))
       (ucast (gid_index (bh_gid b))) (handle_into_u64 handle) #
     conn_reads file p b handle (off + unat r) rs"

text \<open>A list of events of one machine.\<close>

fun process_all :: "'w host \<Rightarrow> run_queue_event list \<Rightarrow> 'w executor \<Rightarrow> 'w executor outcome" where
  "process_all host [] ex = Inr ex"
| "process_all host (e # es) ex = andThen (process_queued host e ex) (process_all host es)"

lemma process_all_append:
  "process_all host (es @ fs) ex = andThen (process_all host es ex) (process_all host fs)"
  by (induction es arbitrary: ex) (simp_all add: andThen_assoc cong: andThen_cong)


section \<open>One event\<close>

lemma data_event:
  assumes ok: "exec_ok ex" and host: "host_profile host = Checked" "host_io host = uring_io ring"
    and ring: "ring_obliges ring"
    and conn: "handle_pool_id handle = CONN_HANDLER" "op_map (ex_conn_pool ex) (handle_gid handle) = Some ch"
      "ch_state ch = Recv p" "ch_buf_handle ch = Some b"
    and res: "0 < sint res" "unat (ch_offset ch) + unat res < POOL_BUF_SIZE"
  obtains ex' ch' q where "process_queued host \<lparr>rq_reason = IoCompleted res flags, rq_handle = handle\<rparr> ex = Inr ex'"
    "exec_ok ex'" "op_map (ex_conn_pool ex') = (op_map (ex_conn_pool ex))(handle_gid handle \<mapsto> ch')"
    "ch_state ch' = Recv q" "ch_buf_handle ch' = Some b" "ch_socket ch' = ch_socket ch"
    "unat (ch_offset ch') = unat (ch_offset ch) + unat res"
    "ex_io_bufs ex' = ex_io_bufs ex" "ex_tcp_pool ex' = ex_tcp_pool ex" "ex_run_queues ex' = ex_run_queues ex"
    "ex_io ex' = pushed ring (conn_reads (ch_socket ch) (sl_ptr (bp_slice (ex_io_bufs ex) b)) b handle
       (unat (ch_offset ch)) [res]) (ex_io ex)"
proof -
  have live: "b \<in> bp_live (ctx_buffers (ctx_of ex))"
    using exec_ok_conn(2) [OF ok conn(2)] conn(3,4) by (auto simp: conn_ok_def)
  have range: "unat (ch_offset ch) + unat res < 2 ^ 32" using res(2) by simp
  then have sum: "unat (ch_offset ch + res) = unat (ch_offset ch) + unat res"
    using u32_add_no_overflow by blast
  let ?off = "unat (ch_offset ch) + unat res"
  let ?new = "[SubmitRecv (ch_socket ch) b (ucast (ch_offset ch + res))]"
  obtain ctx' hdr where run: "conn_process_event Checked (host_memory host (ex_io ex)) ch (ctx_of ex)
        (IoCompleted res flags) = Inr (ch\<lparr>ch_offset := ch_offset ch + res,
          ch_state := Recv (if MSG_HEADER_SIZE \<le> ?off then ReceivingBody hdr else ReceivingHeader)\<rparr>, ctx')"
    and new: "emits ?new (ctx_of ex) ctx'" and bufs: "ctx_buffers ctx' = ctx_buffers (ctx_of ex)"
    by (rule conn_recv_data [OF exec_ok_conn(1) [OF ok conn(2)] live conn(3,4) res(1) range
        exec_ok_conn(4) [OF ok conn(2)], of Checked "host_memory host (ex_io ex)" flags])
  let ?ch = "ch\<lparr>ch_offset := ch_offset ch + res,
    ch_state := Recv (if MSG_HEADER_SIZE \<le> ?off then ReceivingBody hdr else ReceivingHeader)\<rparr>"
  obtain ex1 where ex1: "dispatch host (IoCompleted res flags) handle ex = Inr (length ?new, ex1)"
      "complete_intent host (length ?new) handle ex1 = complete_list host handle (map Some ?new) ex1"
      "ex_io_bufs ex1 = ctx_buffers ctx'" "ex_io ex1 = ex_io ex" "exec_ok ex1"
      "op_map (ex_conn_pool ex1) = (op_map (ex_conn_pool ex))(handle_gid handle \<mapsto> ?ch)"
      "ex_run_queues ex1 = ex_run_queues ex" "ex_tcp_pool ex1 = ex_tcp_pool ex"
    by (rule dispatch_conn_Inr [OF ok host(1) conn(1,2) run new])
  have same: "ex_io_bufs ex1 = ex_io_bufs ex" using ex1(3) bufs by simp
  have pool: "bp_ok POOL_BUF_SIZE (ex_io_bufs ex)" using ok by (simp add: exec_ok_def conn.shares_def)
  have get: "buffer_pool_get_mut POOL_BUF_SIZE (ex_io_bufs ex) b = Inr (Some (bp_slice (ex_io_bufs ex) b))"
    using buffer_pool_get_valid [OF pool] bp.valid_live [OF pool] live by simp
  have size: "ab_buf_size (bp_pool (ex_io_bufs ex)) = POOL_BUF_SIZE" using pool by (simp add: bp_ok_def)
  have off: "unat (ucast (ch_offset ch + res) :: u16) = ?off"
    using res(2) sum by (simp add: unsigned_ucast_eq take_bit_nat_eq_self)
  let ?ex' = "ex1\<lparr>ex_io := pushed ring (conn_reads (ch_socket ch) (sl_ptr (bp_slice (ex_io_bufs ex) b)) b handle
       (unat (ch_offset ch)) [res]) (ex_io ex)\<rparr>"
  have "complete_one host handle (SubmitRecv (ch_socket ch) b (ucast (ch_offset ch + res))) ex1 = Inr ?ex'"
    using get size off same res(2) ex1(4) bp_slice_len [OF pool, of b]
    by (simp add: complete_one_def Let_def slice_from_def io_submit_obliges [OF host(2) ring])
  then have "process_queued host \<lparr>rq_reason = IoCompleted res flags, rq_handle = handle\<rparr> ex = Inr ?ex'"
    using ex1(1,2) by (simp add: process_queued_def)
  with ex1 same sum conn show thesis by (intro that [of ?ex' ?ch]) simp_all
qed

lemma eof_event:
  assumes ok: "exec_ok ex" and host: "host_profile host = Checked" "host_io host = uring_io ring"
    and ring: "ring_obliges ring"
    and conn: "handle_pool_id handle = CONN_HANDLER" "op_map (ex_conn_pool ex) (handle_gid handle) = Some ch"
      "ch_state ch = Recv p" "ch_buf_handle ch = Some b"
  obtains (overflow) "process_queued host \<lparr>rq_reason = IoCompleted 0 flags, rq_handle = handle\<rparr> ex = Inl ArithOverflow"
  | (closing) ex' where "process_queued host \<lparr>rq_reason = IoCompleted 0 flags, rq_handle = handle\<rparr> ex = Inr ex'"
    "exec_ok ex'" "op_map (ex_conn_pool ex') = (op_map (ex_conn_pool ex))(handle_gid handle \<mapsto>
       ch\<lparr>ch_state := Closing, ch_offset := 0\<rparr>)"
    "bp_live (ex_io_bufs ex') = bp_live (ex_io_bufs ex) - {b}" "ex_tcp_pool ex' = ex_tcp_pool ex"
    "ex_run_queues ex' = ex_run_queues ex"
    "ex_io ex' = pushed ring [CloseFile (ch_socket ch) (handle_into_u64 handle)] (ex_io ex)"
proof -
  have live: "b \<in> bp_live (ctx_buffers (ctx_of ex))"
    using exec_ok_conn(2) [OF ok conn(2)] conn(3,4) by (auto simp: conn_ok_def)
  then have known: "b \<in> bp_live (ctx_buffers (ctx_of ex)) \<union> bp_dead (ctx_buffers (ctx_of ex))" by simp
  let ?m = "host_memory host (ex_io ex)"
  show thesis
  proof (cases rule: conn_close_room [OF exec_ok_conn(1) [OF ok conn(2)] conn(4) known exec_ok_conn(4) [OF ok conn(2)],
        case_names overflow closed])
    case o: overflow
    have "object_pool_get_mut (ex_conn_pool ex) handle = Inr (Some ch)"
      using object_pool_get_eq [of "ex_conn_pool ex" handle] ok conn(2) by (simp add: exec_ok_def)
    with o conn(1,3) host(1) show thesis
      by (intro overflow) (simp add: process_queued_def dispatch_def conn_process_event_def conn_on_recv_def)
  next
    case (closed ctx')
    let ?ch = "ch\<lparr>ch_state := Closing, ch_offset := 0\<rparr>" and ?new = "[CloseFixed (ch_socket ch)]"
    have run: "conn_process_event Checked ?m ch (ctx_of ex) (IoCompleted 0 flags) = Inr (?ch, ctx')"
      using closed(1) conn(3) by (simp add: conn_process_event_def conn_on_recv_def)
    obtain ex1 where ex1: "dispatch host (IoCompleted 0 flags) handle ex = Inr (length ?new, ex1)"
        "complete_intent host (length ?new) handle ex1 = complete_list host handle (map Some ?new) ex1"
        "ex_io_bufs ex1 = ctx_buffers ctx'" "ex_io ex1 = ex_io ex" "exec_ok ex1"
        "op_map (ex_conn_pool ex1) = (op_map (ex_conn_pool ex))(handle_gid handle \<mapsto> ?ch)"
        "ex_run_queues ex1 = ex_run_queues ex" "ex_tcp_pool ex1 = ex_tcp_pool ex"
      by (rule dispatch_conn_Inr [OF ok host(1) conn(1,2) run closed(2)])
    let ?ex' = "ex1\<lparr>ex_io := pushed ring [CloseFile (ch_socket ch) (handle_into_u64 handle)] (ex_io ex)\<rparr>"
    have "process_queued host \<lparr>rq_reason = IoCompleted 0 flags, rq_handle = handle\<rparr> ex = Inr ?ex'"
      using ex1(1,2,4) by (simp add: process_queued_def complete_one_def io_submit_obliges [OF host(2) ring])
    with ex1 closed(5) show thesis by (intro closing [of ?ex']) simp_all
  qed
qed

text \<open>
  Once the close has succeeded, the connection's slot is given back; no other connection and no buffer
  is touched, nothing is submitted, and the handle finds nothing from then on.
\<close>

lemma closed_connection_disappears:
  assumes ok: "exec_ok ex" and host: "host_profile host = Checked"
    and conn: "handle_pool_id handle = CONN_HANDLER" "op_map (ex_conn_pool ex) (handle_gid handle) = Some ch"
      "ch_state ch = Closing"
  shows "process_queued host \<lparr>rq_reason = IoCompleted 0 flags, rq_handle = handle\<rparr> ex = Inl ArithOverflow \<or>
    (\<exists>ex'. process_queued host \<lparr>rq_reason = IoCompleted 0 flags, rq_handle = handle\<rparr> ex = Inr ex' \<and>
       op_map (ex_conn_pool ex') = (op_map (ex_conn_pool ex))(handle_gid handle := None) \<and>
       object_pool_get (ex_conn_pool ex') handle = Inr None \<and>
       ex_io_bufs ex' = ex_io_bufs ex \<and> ex_io ex' = ex_io ex \<and> ex_run_queues ex' = ex_run_queues ex \<and>
       ex_tcp_pool ex' = ex_tcp_pool ex)"
proof -
  let ?m = "host_memory host (ex_io ex)"
  obtain ctx' where run: "conn_process_event Checked ?m ch (ctx_of ex) (IoCompleted 0 flags) =
        Inr (ch\<lparr>ch_state := Closed\<rparr>, ctx')"
    and new: "emits [Terminate] (ctx_of ex) ctx'" and bufs: "ctx_buffers ctx' = ctx_buffers (ctx_of ex)"
    using conn_closing_step [OF exec_ok_conn(1,2,4) [OF ok conn(2)], where m = ?m and res = 0 and flags = flags]
      conn(3) by auto
  obtain ex' where ex': "dispatch host (IoCompleted 0 flags) handle ex = Inr (length [Terminate], ex')"
      "complete_intent host (length [Terminate]) handle ex' = complete_list host handle (map Some [Terminate]) ex'"
      "ex_io_bufs ex' = ctx_buffers ctx'" "ex_io ex' = ex_io ex" "exec_ok ex'"
      "op_map (ex_conn_pool ex') = (op_map (ex_conn_pool ex))(handle_gid handle \<mapsto> ch\<lparr>ch_state := Closed\<rparr>)"
      "ex_run_queues ex' = ex_run_queues ex" "ex_tcp_pool ex' = ex_tcp_pool ex"
    by (rule dispatch_conn_Inr [OF ok host conn(1,2) run new])
  have pool: "op_ok (ex_conn_pool ex')" using ex'(5) by (simp add: exec_ok_def)
  have "handle_gid handle \<in> ga_live (op_alloc (ex_conn_pool ex'))"
    using fun_cong [OF ex'(6), of "handle_gid handle"] by (simp add: op_map_def split: if_splits)
  from object_pool_despawn_live [OF pool this] show ?thesis
  proof (elim disjE exE)
    fix q assume q: "object_pool_despawn Checked handle (ex_conn_pool ex') = Inr (True, q) \<and> op_ok q \<and>
      ga_live (op_alloc q) = ga_live (op_alloc (ex_conn_pool ex')) - {handle_gid handle} \<and>
      ga_dead (op_alloc q) = insert (handle_gid handle) (ga_dead (op_alloc (ex_conn_pool ex'))) \<and>
      op_cap q = op_cap (ex_conn_pool ex') \<and> op_map q = (op_map (ex_conn_pool ex'))(handle_gid handle := None)"
    then have "process_queued host \<lparr>rq_reason = IoCompleted 0 flags, rq_handle = handle\<rparr> ex =
        Inr (ex'\<lparr>ex_conn_pool := q\<rparr>)"
      using ex'(1,2) conn(1) host by (simp add: process_queued_def complete_one_def)
    with q ex' bufs object_pool_get_eq [of q handle] show ?thesis by simp
  qed (use ex'(1,2) conn(1) host in \<open>simp add: process_queued_def complete_one_def\<close>)
qed


section \<open>A whole connection\<close>

definition completions :: "object_handle \<Rightarrow> (i32 \<times> u32) list \<Rightarrow> run_queue_event list" where
  "completions handle rs = map (\<lambda>(r, flags). \<lparr>rq_reason = IoCompleted r flags, rq_handle = handle\<rparr>) rs"

lemma data_events:
  assumes host: "host_profile host = Checked" "host_io host = uring_io ring"
    and ring: "ring_obliges ring" and h: "handle_pool_id handle = CONN_HANDLER"
  shows "exec_ok ex \<Longrightarrow> op_map (ex_conn_pool ex) (handle_gid handle) = Some ch \<Longrightarrow>
    ch_state ch = Recv p \<Longrightarrow> ch_buf_handle ch = Some b \<Longrightarrow> \<forall>r \<in> set rs. 0 < sint (fst r) \<Longrightarrow>
    unat (ch_offset ch) + sum_list (map (unat \<circ> fst) rs) < POOL_BUF_SIZE \<Longrightarrow>
    \<exists>ex' ch' q. process_all host (completions handle rs) ex = Inr ex' \<and> exec_ok ex' \<and>
      op_map (ex_conn_pool ex') = (op_map (ex_conn_pool ex))(handle_gid handle \<mapsto> ch') \<and>
      ch_state ch' = Recv q \<and> ch_buf_handle ch' = Some b \<and> ch_socket ch' = ch_socket ch \<and>
      ex_io_bufs ex' = ex_io_bufs ex \<and> ex_tcp_pool ex' = ex_tcp_pool ex \<and>
      ex_run_queues ex' = ex_run_queues ex \<and>
      ex_io ex' = pushed ring (conn_reads (ch_socket ch) (sl_ptr (bp_slice (ex_io_bufs ex) b)) b handle
        (unat (ch_offset ch)) (map fst rs)) (ex_io ex)"
proof (induction rs arbitrary: ex ch p)
  case Nil
  then show ?case
    by (intro exI [of _ ex] exI [of _ ch] exI [of _ p]) (simp add: completions_def map_upd_triv)
next
  case (Cons r rs)
  obtain res flags where r: "r = (res, flags)" by (cases r)
  from Cons.prems(5,6) r have res: "0 < sint res" "unat (ch_offset ch) + unat res < POOL_BUF_SIZE" by auto
  obtain ex1 ch1 q1 where step: "process_queued host \<lparr>rq_reason = IoCompleted res flags, rq_handle = handle\<rparr> ex = Inr ex1"
    and ok1: "exec_ok ex1" and map1: "op_map (ex_conn_pool ex1) = (op_map (ex_conn_pool ex))(handle_gid handle \<mapsto> ch1)"
    and ch1: "ch_state ch1 = Recv q1" "ch_buf_handle ch1 = Some b" "ch_socket ch1 = ch_socket ch"
      "unat (ch_offset ch1) = unat (ch_offset ch) + unat res"
    and same1: "ex_io_bufs ex1 = ex_io_bufs ex" "ex_tcp_pool ex1 = ex_tcp_pool ex" "ex_run_queues ex1 = ex_run_queues ex"
    and io1: "ex_io ex1 = pushed ring (conn_reads (ch_socket ch) (sl_ptr (bp_slice (ex_io_bufs ex) b)) b handle
       (unat (ch_offset ch)) [res]) (ex_io ex)"
    by (rule data_event [OF Cons.prems(1) host ring h Cons.prems(2-4) res])
  have "op_map (ex_conn_pool ex1) (handle_gid handle) = Some ch1" using map1 by simp
  moreover have "\<forall>r \<in> set rs. 0 < sint (fst r)"
    "unat (ch_offset ch1) + sum_list (map (unat \<circ> fst) rs) < POOL_BUF_SIZE"
    using Cons.prems(5,6) r ch1(4) by (simp_all add: comp_def)
  ultimately obtain ex' ch' q where rest: "process_all host (completions handle rs) ex1 = Inr ex'" "exec_ok ex'"
      "op_map (ex_conn_pool ex') = (op_map (ex_conn_pool ex1))(handle_gid handle \<mapsto> ch')"
      "ch_state ch' = Recv q" "ch_buf_handle ch' = Some b" "ch_socket ch' = ch_socket ch1"
      "ex_io_bufs ex' = ex_io_bufs ex1" "ex_tcp_pool ex' = ex_tcp_pool ex1"
      "ex_run_queues ex' = ex_run_queues ex1"
      "ex_io ex' = pushed ring (conn_reads (ch_socket ch1) (sl_ptr (bp_slice (ex_io_bufs ex1) b)) b handle
        (unat (ch_offset ch1)) (map fst rs)) (ex_io ex1)"
    using Cons.IH [OF ok1 _ ch1(1,2)] by blast
  have "process_all host (completions handle (r # rs)) ex = Inr ex'"
    using step rest(1) r by (simp add: completions_def)
  with rest map1 ch1(3,4) same1 io1 r show ?case
    by (intro exI [of _ ex'] exI [of _ ch'] exI [of _ q]) simp
qed

end
