(* ===== verification/Machine_Properties.thy ===== *)
theory Machine_Properties
  imports Conn_Outcomes Tcp_Server Io
begin

text \<open>
  The properties of the protocol, of the two state machines and of the \<open>io_uring\<close> wrapper. Events are
  delivered the way the executor does it, with an empty intent list.
\<close>



section \<open>The connection machine\<close>

text \<open>A sequence of completions, each handled with an empty intent list.\<close>

fun conn_events ::
  "profile \<Rightarrow> memory \<Rightarrow> conn_handler \<Rightarrow> exec_ctx \<Rightarrow> i32 list \<Rightarrow> (conn_handler \<times> exec_ctx) outcome" where
  "conn_events pr m ch ctx [] = Inr (ch, ctx)"
| "conn_events pr m ch ctx (res # rs) =
     andThen (conn_process_event pr m ch (ctx\<lparr>ctx_len := 0\<rparr>) (IoCompleted res 0)) (\<lambda>(ch, ctx).
     conn_events pr m ch ctx rs)"

lemma conn_events_offset:
  "bp_ok POOL_BUF_SIZE (ctx_buffers ctx) \<Longrightarrow> h \<in> bp_live (ctx_buffers ctx) \<Longrightarrow>
   ch_state ch = Recv (if MSG_HEADER_SIZE \<le> unat (ch_offset ch) then ReceivingBody hdr else ReceivingHeader) \<Longrightarrow>
   msg_header_read (take MSG_HEADER_SIZE (slice_bytes m (bp_slice (ctx_buffers ctx) h))) = Some hdr \<Longrightarrow>
   ch_buf_handle ch = Some h \<Longrightarrow> ctx_intents ctx \<noteq> [] \<Longrightarrow> \<forall>r \<in> set rs. 0 < sint r \<Longrightarrow>
   unat (ch_offset ch) + sum_list (map unat rs) < 2 ^ 32 \<Longrightarrow>
   \<exists>ctx' off. conn_events pr m ch ctx rs =
       Inr (ch\<lparr>ch_offset := off,
               ch_state := Recv (if MSG_HEADER_SIZE \<le> unat off then ReceivingBody hdr else ReceivingHeader)\<rparr>, ctx') \<and>
     unat off = unat (ch_offset ch) + sum_list (map unat rs) \<and> ctx_buffers ctx' = ctx_buffers ctx"
proof (induction rs arbitrary: ch ctx)
  case Nil
  then show ?case by (intro exI [of _ ctx] exI [of _ "ch_offset ch"]) (cases ch, simp)
next
  case (Cons r rs)
  let ?ctx = "ctx\<lparr>ctx_len := 0\<rparr>"
  have range: "unat (ch_offset ch) + unat r < 2 ^ 32" and res: "0 < sint r"
    using Cons.prems(7,8) by auto
  have room: "ctx_len ?ctx < length (ctx_intents ?ctx)" using Cons.prems(6) by simp
  have ok: "bp_ok POOL_BUF_SIZE (ctx_buffers ?ctx)" "h \<in> bp_live (ctx_buffers ?ctx)"
    using Cons.prems(1,2) by simp_all
  obtain ctx1 where step: "conn_process_event pr m ch ?ctx (IoCompleted r 0) =
       Inr (ch\<lparr>ch_offset := ch_offset ch + r,
               ch_state := Recv (if MSG_HEADER_SIZE \<le> unat (ch_offset ch) + unat r
                                 then ReceivingBody hdr else ReceivingHeader)\<rparr>, ctx1)"
    and emits: "emits [SubmitRecv (ch_socket ch) h (ucast (ch_offset ch + r))] ?ctx ctx1"
    and bufs: "ctx_buffers ctx1 = ctx_buffers ctx"
    using conn_recv_data [OF ok Cons.prems(3,5) res range room, of pr m 0] Cons.prems(4) by auto
  have sum: "unat (ch_offset ch + r) = unat (ch_offset ch) + unat r"
    using u32_add_no_overflow [OF range] by blast
  let ?ch = "ch\<lparr>ch_offset := ch_offset ch + r,
    ch_state := Recv (if MSG_HEADER_SIZE \<le> unat (ch_offset ch) + unat r then ReceivingBody hdr else ReceivingHeader)\<rparr>"
  have "ctx_intents ctx1 \<noteq> []" using emits Cons.prems(6) by (auto simp: emits_def)
  with Cons.IH [of ctx1 ?ch] Cons.prems bufs sum obtain ctx' off where
    "conn_events pr m ?ch ctx1 rs = Inr (?ch\<lparr>ch_offset := off,
        ch_state := Recv (if MSG_HEADER_SIZE \<le> unat off then ReceivingBody hdr else ReceivingHeader)\<rparr>, ctx')"
    "unat off = unat (ch_offset ch) + unat r + sum_list (map unat rs)" "ctx_buffers ctx' = ctx_buffers ctx"
    by auto
  with step show ?case by (intro exI [of _ ctx'] exI [of _ off]) simp
qed

text \<open>C26: How the network splits a request into segments does not matter: after any sequence of
  completed receives the offset is the total received, and the machine has read the header from the
  front of its buffer exactly when at least five bytes have come in.\<close>

lemma conn_fragmentation:
  assumes "bp_ok POOL_BUF_SIZE (ctx_buffers ctx)" and "h \<in> bp_live (ctx_buffers ctx)"
    and "ch_state ch = Recv ReceivingHeader" and "ch_offset ch = 0" and "ch_buf_handle ch = Some h"
    and "ctx_intents ctx \<noteq> []" and "\<forall>r \<in> set rs. 0 < sint r" and "sum_list (map unat rs) < 2 ^ 32"
  shows "\<exists>ch' ctx'. conn_events pr m ch ctx rs = Inr (ch', ctx') \<and>
    unat (ch_offset ch') = sum_list (map unat rs) \<and> ctx_buffers ctx' = ctx_buffers ctx \<and>
    (if MSG_HEADER_SIZE \<le> sum_list (map unat rs)
     then \<exists>hdr. ch_state ch' = Recv (ReceivingBody hdr) \<and>
       msg_header_bytes hdr = take MSG_HEADER_SIZE (slice_bytes m (bp_slice (ctx_buffers ctx) h))
     else ch_state ch' = Recv ReceivingHeader)"
proof -
  let ?front = "take MSG_HEADER_SIZE (slice_bytes m (bp_slice (ctx_buffers ctx) h))"
  obtain hdr where hdr: "msg_header_read ?front = Some hdr"
    using conn_read_header_live [OF assms(1,2,5), of m] by blast
  then have "msg_header_bytes hdr = ?front" by (rule msg_header_bytes_read)
  with conn_events_offset [OF assms(1,2) _ hdr assms(5-7)] assms(3,4,8) show ?thesis by fastforce
qed

text \<open>A pool of one buffer, handed out, and a machine that holds it, for the instances.\<close>

abbreviation demo_pool :: buffer_pool where
  "demo_pool \<equiv> \<lparr>bp_pool = \<lparr>ab_ptr = 4096, ab_buf_size = 4096, ab_count = 1, ab_alignment = 4096,
       ab_total_size = 4096\<rparr>,
     bp_alloc = \<lparr>ga_generation = \<lparr>arr_cells = [0], arr_size = 1\<rparr>, ga_free_list = \<lparr>rb_slots = [Some 0],
       rb_write_idx = 0, rb_read_idx = 0, rb_size = 1, rb_len = 0\<rparr>\<rparr>\<rparr>"

abbreviation demo_buffer :: buffer_handle where
  "demo_buffer \<equiv> BufferHandle \<lparr>gid_index = 0, gid_generation = 0\<rparr>"

abbreviation demo_ctx :: exec_ctx where
  "demo_ctx \<equiv> \<lparr>ctx_intents = [None, None], ctx_len = 0, ctx_buffers = demo_pool\<rparr>"

abbreviation demo_conn :: conn_handler where
  "demo_conn \<equiv> \<lparr>ch_state = Recv ReceivingHeader, ch_socket = Fixed 3, ch_buf_handle = Some demo_buffer,
     ch_offset = 0\<rparr>"

lemma demo_pool_ok: "bp_ok POOL_BUF_SIZE demo_pool" "demo_buffer \<in> bp_live demo_pool"
  by (simp_all add: bp_ok_def aligned_ok_def layout_valid_def is_power_of_two_def isize_max_def
      usize_limit_def ga_ok_def array_ok_def rb_ok_def ga_cap_def ga_free_def rb_list_def bp_live_iff
      ga_live_def ga_gen_def)

lemma conn_fragmentation_witness:
  "\<exists>ch' ctx' hdr. conn_events Checked (\<lambda>_. 0) demo_conn demo_ctx [2, 1, 3] = Inr (ch', ctx') \<and>
     unat (ch_offset ch') = 6 \<and> ch_state ch' = Recv (ReceivingBody hdr)"
  using conn_fragmentation [of demo_ctx demo_buffer demo_conn "[2, 1, 3]" Checked "\<lambda>_. 0"] demo_pool_ok
  by auto

text \<open>C24: A failed receive on a receiving machine, by its error code. A transient error (\<open>EINTR\<close>,
  \<open>EAGAIN\<close>, ...) submits the same receive twice, once in the handler and once after it; a programming
  error panics; a broken connection frees the buffer, submits the close, and then still submits a
  receive into the buffer just freed; any other error submits one receive and changes nothing.\<close>

lemma conn_io_error_cases:
  assumes ok: "bp_ok POOL_BUF_SIZE (ctx_buffers ctx)" and live: "h \<in> bp_live (ctx_buffers ctx)"
    and ch: "ch_state ch = Recv p" "ch_buf_handle ch = Some h"
    and res: "sint res < 0" "- (2 ^ 31) < sint res" and room: "ctx_len ctx + 1 < length (ctx_intents ctx)"
  shows "if Errno (- res) \<in> set errno_retry then
      \<exists>ctx'. conn_process_event Checked m ch ctx (IoCompleted res flags) = Inr (ch, ctx') \<and>
        emits [SubmitRecv (ch_socket ch) h (ucast (ch_offset ch)),
               SubmitRecv (ch_socket ch) h (ucast (ch_offset ch))] ctx ctx' \<and>
        ctx_buffers ctx' = ctx_buffers ctx
    else if Errno (- res) \<in> set errno_logic then
      conn_process_event Checked m ch ctx (IoCompleted res flags) = Inl ExplicitPanic
    else if Errno (- res) \<in> set errno_close then
      conn_process_event Checked m ch ctx (IoCompleted res flags) = Inl ArithOverflow \<or>
      (\<exists>ctx'. conn_process_event Checked m ch ctx (IoCompleted res flags) =
          Inr (ch\<lparr>ch_state := Closing, ch_offset := 0\<rparr>, ctx') \<and>
        emits [CloseFixed (ch_socket ch), SubmitRecv (ch_socket ch) h 0] ctx ctx' \<and>
        h \<in> bp_dead (ctx_buffers ctx') \<and> bp_live (ctx_buffers ctx') = bp_live (ctx_buffers ctx) - {h})
    else
      \<exists>ctx'. conn_process_event Checked m ch ctx (IoCompleted res flags) = Inr (ch, ctx') \<and>
        emits [SubmitRecv (ch_socket ch) h (ucast (ch_offset ch))] ctx ctx' \<and>
        ctx_buffers ctx' = ctx_buffers ctx"
  using assms by (rule conn_io_error_step)

lemma conn_io_error_cases_witness:
  "\<exists>ctx'. conn_process_event Checked (\<lambda>_. 0) demo_conn demo_ctx (IoCompleted (- 4) 0) = Inr (demo_conn, ctx') \<and>
     emits [SubmitRecv (Fixed 3) demo_buffer 0, SubmitRecv (Fixed 3) demo_buffer 0] demo_ctx ctx'"
  using conn_io_error_cases [of demo_ctx demo_buffer demo_conn ReceivingHeader "- 4" "\<lambda>_. 0" 0] demo_pool_ok
  by (auto simp: errno_retry_def)

text \<open>C25: Starting and ending a connection. A started machine takes a fresh buffer and submits the first
  receive at offset 0, or, when no buffer is free, asks for a retry and stays as it was. End of stream
  frees the buffer and submits exactly the close.\<close>

lemma conn_start_and_end:
  assumes ok: "bp_ok POOL_BUF_SIZE (ctx_buffers ctx)" and inv: "conn_ok (ctx_buffers ctx) ch"
    and room: "ctx_len ctx < length (ctx_intents ctx)"
  shows "case ch_state ch of
      ConnInit \<Rightarrow>
        (if card (bp_live (ctx_buffers ctx)) = bp_cap (ctx_buffers ctx)
         then \<exists>ctx'. conn_process_event Checked m ch ctx Spawn = Inr (ch, ctx') \<and> emits [Retry] ctx ctx' \<and>
           ctx_buffers ctx' = ctx_buffers ctx
         else \<exists>h ctx'. conn_process_event Checked m ch ctx Spawn =
             Inr (ch\<lparr>ch_state := Recv ReceivingHeader, ch_buf_handle := Some h\<rparr>, ctx') \<and>
           emits [SubmitRecv (ch_socket ch) h 0] ctx ctx' \<and> h \<notin> bp_live (ctx_buffers ctx) \<and>
           bp_live (ctx_buffers ctx') = insert h (bp_live (ctx_buffers ctx)))
    | Recv p \<Rightarrow>
        conn_process_event Checked m ch ctx (IoCompleted 0 flags) = Inl ArithOverflow \<or>
        (\<exists>ctx'. conn_process_event Checked m ch ctx (IoCompleted 0 flags) =
            Inr (ch\<lparr>ch_state := Closing, ch_offset := 0\<rparr>, ctx') \<and>
          emits [CloseFixed (ch_socket ch)] ctx ctx' \<and>
          bp_live (ctx_buffers ctx') = bp_live (ctx_buffers ctx) - conn_owned ch)
    | _ \<Rightarrow> True"
proof (cases "ch_state ch")
  case ConnInit
  then have ch: "ch\<lparr>ch_state := ConnInit\<rparr> = ch" "ch_offset ch = 0"
    using inv by (cases ch, simp, simp add: conn_ok_def)
  show ?thesis
  proof (cases rule: bp.acquire_cases [OF ok, case_names full fresh])
    case full
    have keep: "ctx\<lparr>ctx_buffers := ctx_buffers ctx\<rparr> = ctx" by simp
    from submit_room_emits [OF room, of Retry] obtain ctx' where
      "submit_intent Retry ctx = Inr ctx'" "emits [Retry] ctx ctx'" "ctx_buffers ctx' = ctx_buffers ctx"
      by blast
    with full ConnInit ch keep show ?thesis
      by (auto simp: conn_process_event_def conn_on_init_def)
  next
    case (fresh h b)
    let ?ch = "ch\<lparr>ch_buf_handle := Some h\<rparr>" and ?ctx = "ctx\<lparr>ctx_buffers := b\<rparr>"
    have "ch_buf_handle ?ch = Some h" "ctx_len ?ctx < length (ctx_intents ?ctx)" using room by simp_all
    from conn_recv_room [OF this] ch(2) obtain ctx' where
      "conn_recv ?ch ?ctx = Inr ctx'" "emits [SubmitRecv (ch_socket ch) h 0] ctx ctx'" "ctx_buffers ctx' = b"
      by auto
    with fresh ConnInit show ?thesis
      by (auto simp: conn_process_event_def conn_on_init_def intro!: exI [of _ h])
  qed
next
  case (Recv p)
  with inv obtain h where h: "ch_buf_handle ch = Some h" "h \<in> bp_live (ctx_buffers ctx)"
    by (auto simp: conn_ok_def)
  then have known: "h \<in> bp_live (ctx_buffers ctx) \<union> bp_dead (ctx_buffers ctx)" by simp
  show ?thesis
  proof (cases rule: conn_close_room [OF ok h(1) known room, case_names overflow closed])
    case overflow
    with Recv show ?thesis by (simp add: conn_process_event_def conn_on_recv_def)
  next
    case (closed ctx')
    have "conn_owned ch = {h}" using Recv h by (simp add: conn_owned_def)
    with closed Recv show ?thesis by (auto simp: conn_process_event_def conn_on_recv_def)
  qed
qed simp_all

lemma conn_start_and_end_witness:
  "conn_process_event Checked (\<lambda>_. 0) demo_conn demo_ctx (IoCompleted 0 0) = Inl ArithOverflow \<or>
    (\<exists>ctx'. conn_process_event Checked (\<lambda>_. 0) demo_conn demo_ctx (IoCompleted 0 0) =
        Inr (demo_conn\<lparr>ch_state := Closing\<rparr>, ctx') \<and> emits [CloseFixed (Fixed 3)] demo_ctx ctx' \<and>
      bp_live (ctx_buffers ctx') = bp_live demo_pool - {demo_buffer})"
proof -
  have "bp_ok POOL_BUF_SIZE (ctx_buffers demo_ctx)" "conn_ok (ctx_buffers demo_ctx) demo_conn"
    "ctx_len demo_ctx < length (ctx_intents demo_ctx)"
    using demo_pool_ok by (simp_all add: conn_ok_def)
  from conn_start_and_end [OF this, where m = "\<lambda>_. 0" and flags = 0] show ?thesis by (simp add: conn_owned_def)
qed

text \<open>A closing machine asks to be terminated exactly when its close succeeded; after a failed close
  it submits the close again, and freeing its buffer a second time has no effect on the pool. A closed
  machine ignores every further event.\<close>

lemma conn_closing_cases:
  assumes ok: "bp_ok POOL_BUF_SIZE (ctx_buffers ctx)" and inv: "conn_ok (ctx_buffers ctx) ch"
    and room: "ctx_len ctx < length (ctx_intents ctx)"
  shows "case ch_state ch of
      Closing \<Rightarrow>
        (if res = 0
         then \<exists>ctx'. conn_process_event Checked m ch ctx (IoCompleted res flags) =
             Inr (ch\<lparr>ch_state := Closed\<rparr>, ctx') \<and> emits [Terminate] ctx ctx' \<and>
           ctx_buffers ctx' = ctx_buffers ctx
         else \<exists>ctx'. conn_process_event Checked m ch ctx (IoCompleted res flags) =
             Inr (ch\<lparr>ch_offset := 0\<rparr>, ctx') \<and> emits [CloseFixed (ch_socket ch)] ctx ctx' \<and>
           ctx_buffers ctx' = ctx_buffers ctx)
    | Closed \<Rightarrow> conn_process_event Checked m ch ctx event = Inr (ch, ctx)
    | _ \<Rightarrow> True"
  using assms by (rule conn_closing_step)

lemma conn_closing_cases_witness:
  "conn_process_event Checked (\<lambda>_. 0) (demo_conn\<lparr>ch_state := Closed, ch_buf_handle := Some
      (BufferHandle \<lparr>gid_index = 0, gid_generation = 0\<rparr>)\<rparr>)
     (demo_ctx\<lparr>ctx_buffers := demo_pool\<lparr>bp_alloc := (bp_alloc demo_pool)\<lparr>ga_generation :=
        \<lparr>arr_cells = [1], arr_size = 1\<rparr>\<rparr>\<rparr>\<rparr>) Spawn =
   Inr (demo_conn\<lparr>ch_state := Closed, ch_buf_handle := Some
      (BufferHandle \<lparr>gid_index = 0, gid_generation = 0\<rparr>)\<rparr>,
     demo_ctx\<lparr>ctx_buffers := demo_pool\<lparr>bp_alloc := (bp_alloc demo_pool)\<lparr>ga_generation :=
        \<lparr>arr_cells = [1], arr_size = 1\<rparr>\<rparr>\<rparr>\<rparr>)"
proof -
  let ?b = "demo_pool\<lparr>bp_alloc := (bp_alloc demo_pool)\<lparr>ga_generation := \<lparr>arr_cells = [1], arr_size = 1\<rparr>\<rparr>\<rparr>"
  let ?ctx = "demo_ctx\<lparr>ctx_buffers := ?b\<rparr>"
  let ?ch = "demo_conn\<lparr>ch_state := Closed, ch_buf_handle := Some
      (BufferHandle \<lparr>gid_index = 0, gid_generation = 0\<rparr>)\<rparr>"
  have "bp_ok POOL_BUF_SIZE (ctx_buffers ?ctx)" "conn_ok (ctx_buffers ?ctx) ?ch"
    "ctx_len ?ctx < length (ctx_intents ?ctx)"
    using demo_pool_ok(1)
    by (simp_all add: bp_ok_def ga_ok_def array_ok_def ga_cap_def ga_free_def rb_list_def isize_max_def
        conn_ok_def bp_dead_iff ga_dead_def ga_gen_def)
  from conn_closing_cases [OF this, where m = "\<lambda>_. 0" and event = Spawn] show ?thesis by simp
qed

text \<open>The only ways in which an event can stop the server inside the connection machine, given room
  for two intents: an event the state does not expect (a second start, or a completion before the
  start), an error code the code treats as a programming error, or a full counter. Everything else
  yields a next state that is again well formed.\<close>

lemma conn_event_outcomes:
  assumes ok: "bp_ok POOL_BUF_SIZE (ctx_buffers ctx)" and inv: "conn_ok (ctx_buffers ctx) ch"
    and room: "ctx_len ctx + 1 < length (ctx_intents ctx)"
  shows "case conn_process_event Checked m ch ctx event of
      Inl fault \<Rightarrow>
        (case fault of
           Unreachable \<Rightarrow> (case (event, ch_state ch) of
               (Spawn, Recv _) \<Rightarrow> True | (Spawn, Closing) \<Rightarrow> True
             | (IoCompleted _ _, ConnInit) \<Rightarrow> True | _ \<Rightarrow> False)
         | ExplicitPanic \<Rightarrow> (case (event, ch_state ch) of
               (IoCompleted res _, Recv _) \<Rightarrow> Errno (- res) \<in> set errno_logic | _ \<Rightarrow> False)
         | ArithOverflow \<Rightarrow> (case (event, ch_state ch) of (IoCompleted _ _, Recv _) \<Rightarrow> True | _ \<Rightarrow> False)
         | _ \<Rightarrow> False)
    | Inr (ch', ctx') \<Rightarrow> conn_ok (ctx_buffers ctx') ch' \<and> bp_ok POOL_BUF_SIZE (ctx_buffers ctx')"
  using assms by (rule conn_event_step)

lemma conn_event_outcomes_witness:
  "conn_process_event Checked (\<lambda>_. 0) demo_conn demo_ctx Spawn = Inl Unreachable"
proof -
  have "bp_ok POOL_BUF_SIZE (ctx_buffers demo_ctx)" "conn_ok (ctx_buffers demo_ctx) demo_conn"
    "ctx_len demo_ctx + 1 < length (ctx_intents demo_ctx)"
    using demo_pool_ok by (simp_all add: conn_ok_def)
  from conn_event_outcomes [OF this, where m = "\<lambda>_. 0" and event = Spawn] show ?thesis
    by (simp add: conn_process_event_def)
qed


section \<open>The listening machine\<close>

text \<open>A world whose \<open>bind\<close> fails, which counts the closed descriptors.\<close>

abbreviation bind_fails :: "nat net_ops" where
  "bind_fails \<equiv> \<lparr>net_parse_v6 = \<lambda>_. None, net_socket = \<lambda>_ n. (Inr 9, n),
     net_set_reuseaddr = \<lambda>_ _ n. (Inr (), n), net_bind = \<lambda>_ _ n. (Inl 98, n),
     net_listen = \<lambda>_ _ n. (Inr (), n), net_close = \<lambda>_ n. Suc n\<rparr>"

abbreviation demo_listener :: tcp_server where
  "demo_listener \<equiv> \<lparr>ts_state = TcpInit, ts_addr = ''0.0.0.0:3000'', ts_backlog = 1, ts_listener_fd = - 1\<rparr>"

abbreviation demo_failed :: tcp_server where
  "demo_failed \<equiv> \<lparr>ts_state = TcpError (IoError 98), ts_addr = ''0.0.0.0:3000'', ts_backlog = 1,
     ts_listener_fd = - 1\<rparr>"

text \<open>C27: Starting the listener either ends in the accepting state, having remembered the descriptor
  \<open>socket\<close> returned and submitted exactly one multishot accept for it, or in the error state with no
  intent and no descriptor remembered; then the socket, if one was opened, has been closed.\<close>

lemma tcp_start_cases:
  assumes "tcp_process_event net more_io ts ctx Spawn w = Inr (ts', ctx', w')" and "ts_state ts = TcpInit"
  shows "\<exists>domain opened w1. net_socket net domain w = (opened, w1) \<and>
    (case opened of
       Inl e \<Rightarrow> ts' = ts\<lparr>ts_state := TcpError (IoError e)\<rparr> \<and> ctx' = ctx \<and> w' = w1
     | Inr d \<Rightarrow>
         (ts' = ts\<lparr>ts_state := TcpAccepting, ts_listener_fd := d\<rparr> \<and>
           emits [SubmitMultishotAccept (Fd d)] ctx ctx' \<and> ctx_buffers ctx' = ctx_buffers ctx) \<or>
         (\<exists>e w2. ts' = ts\<lparr>ts_state := TcpError (IoError e)\<rparr> \<and> ctx' = ctx \<and> w' = net_close net d w2))"
proof -
  from assms obtain r ts1 w2 where listen: "tcp_listen net ts w = Inr (r, ts1, w2)"
    unfolding tcp_process_event_def by (cases "tcp_listen net ts w") auto
  then obtain a where addr: "socket_addr_from_str (net_parse_v6 net) (ts_addr ts) = Some a"
    by (auto simp: tcp_listen_def outcome_simps)
  let ?dom = "case a of V4 _ _ \<Rightarrow> INET | V6 _ _ \<Rightarrow> INET6"
  obtain opened w1 where sock: "net_socket net ?dom w = (opened, w1)" by (cases "net_socket net ?dom w")
  show ?thesis
  proof (cases opened)
    case (Inl e)
    with listen addr sock have "r = Inl (IoError e)" "ts1 = ts" "w2 = w1"
      by (simp_all add: tcp_listen_def Let_def)
    with assms listen sock Inl show ?thesis
      by (intro exI [of _ ?dom] exI [of _ opened] exI [of _ w1]) (auto simp: tcp_process_event_def)
  next
    case (Inr d)
    consider (listening) "r = Inr ()" "ts1 = ts\<lparr>ts_listener_fd := d\<rparr>"
      | (closed) e w3 where "r = Inl (IoError e)" "ts1 = ts" "w2 = net_close net d w3"
      using listen addr sock Inr
      by (auto simp: tcp_listen_def Let_def split: prod.splits sum.splits)
    then show ?thesis
    proof cases
      case listening
      with assms listen have "tcp_multishot_accept ts1 ctx = Inr ctx'" "ts' = ts1\<lparr>ts_state := TcpAccepting\<rparr>"
        by (auto simp: tcp_process_event_def outcome_simps)
      with sock Inr listening submit_emits [of "SubmitMultishotAccept (Fd d)" ctx ctx'] show ?thesis
        by (intro exI [of _ ?dom] exI [of _ opened] exI [of _ w1]) (auto simp: tcp_multishot_accept_def)
    next
      case closed
      with assms listen sock Inr show ?thesis
        by (intro exI [of _ ?dom] exI [of _ opened] exI [of _ w1]) (auto simp: tcp_process_event_def)
    qed
  qed
qed

lemma tcp_start_cases_witness:
  "\<exists>domain opened w1. net_socket bind_fails domain 0 = (opened, w1) \<and>
    (case opened of
       Inl e \<Rightarrow> demo_failed = demo_listener\<lparr>ts_state := TcpError (IoError e)\<rparr> \<and> demo_ctx = demo_ctx \<and> 1 = w1
     | Inr d \<Rightarrow>
         (demo_failed = demo_listener\<lparr>ts_state := TcpAccepting, ts_listener_fd := d\<rparr> \<and>
           emits [SubmitMultishotAccept (Fd d)] demo_ctx demo_ctx \<and> ctx_buffers demo_ctx = ctx_buffers demo_ctx) \<or>
         (\<exists>e w2. demo_failed = demo_listener\<lparr>ts_state := TcpError (IoError e)\<rparr> \<and> demo_ctx = demo_ctx \<and>
           1 = net_close bind_fails d w2))"
proof (rule tcp_start_cases)
  show "tcp_process_event bind_fails (\<lambda>_. True) demo_listener demo_ctx Spawn 0 = Inr (demo_failed, demo_ctx, 1)"
    by (simp add: tcp_process_event_def tcp_listen_def socket_addr_from_str_def server_address)
  show "ts_state demo_listener = TcpInit" by simp
qed

text \<open>The address the program listens on is always parsed, so starting its listener never panics on
  the \<open>unwrap\<close> of the parse: \<open>0.0.0.0:3000\<close> is the IPv4 wildcard address with port 3000, whatever the
  IPv6 parser would answer.\<close>

lemma server_address_parses:
  "socket_addr_from_str parse_v6 (ts_addr (tcp_server_new ''0.0.0.0:3000'' 4096)) = Some (V4 [0, 0, 0, 0] 3000)"
  by (simp add: socket_addr_from_str_def tcp_server_new_def server_address)

text \<open>C28: A listener that accepts hands back one connection per successful completion, and submits the
  multishot accept again exactly when the kernel said there is no more to come. One failed completion
  moves it to the error state for good: there it ignores every completion, so the server never accepts
  another connection.\<close>

lemma tcp_accept_cases:
  assumes "ctx_len ctx + 1 < length (ctx_intents ctx)"
  shows "case ts_state ts of
      TcpAccepting \<Rightarrow>
        (if 0 \<le> sint res
         then \<exists>ctx'. tcp_process_event net more_io ts ctx (IoCompleted res flags) w = Inr (ts, ctx', w) \<and>
           emits (SpawnConnHandler (Fixed res) #
             (if more_io flags then [] else [SubmitMultishotAccept (Fd (ts_listener_fd ts))])) ctx ctx'
         else tcp_process_event net more_io ts ctx (IoCompleted res flags) w =
           Inr (ts\<lparr>ts_state := TcpError (IoError res)\<rparr>, ctx, w))
    | TcpError e \<Rightarrow> tcp_process_event net more_io ts ctx (IoCompleted res flags) w = Inr (ts, ctx, w)
    | TcpInit \<Rightarrow> tcp_process_event net more_io ts ctx (IoCompleted res flags) w = Inl Unreachable"
proof (cases "ts_state ts")
  case TcpAccepting
  have room: "ctx_len ctx < length (ctx_intents ctx)" using assms by simp
  obtain c where c: "submit_intent (SpawnConnHandler (Fixed res)) ctx = Inr c"
      "emits [SpawnConnHandler (Fixed res)] ctx c" "ctx_len c = ctx_len ctx + 1"
      "length (ctx_intents c) = length (ctx_intents ctx)"
    by (rule submit_room_emits [OF room])
  then have "ctx_len c < length (ctx_intents c)" using assms by simp
  from submit_room_emits [OF this] obtain d where
    d: "submit_intent (SubmitMultishotAccept (Fd (ts_listener_fd ts))) c = Inr d"
      "emits [SubmitMultishotAccept (Fd (ts_listener_fd ts))] c d" by metis
  from TcpAccepting c d emits_trans [OF c(2) d(2)] show ?thesis
    by (auto simp: tcp_process_event_def tcp_multishot_accept_def hoarder_error_from_i32_def not_less)
qed (simp_all add: tcp_process_event_def)

lemma tcp_accept_cases_witness:
  "tcp_process_event bind_fails (\<lambda>_. True)
     \<lparr>ts_state = TcpAccepting, ts_addr = ''0.0.0.0:3000'', ts_backlog = 1, ts_listener_fd = 9\<rparr> demo_ctx
     (IoCompleted (- 24) 0) 0 =
   Inr (\<lparr>ts_state = TcpError (IoError (- 24)), ts_addr = ''0.0.0.0:3000'', ts_backlog = 1,
     ts_listener_fd = 9\<rparr>, demo_ctx, 0)"
proof -
  let ?ts = "\<lparr>ts_state = TcpAccepting, ts_addr = ''0.0.0.0:3000'', ts_backlog = 1, ts_listener_fd = 9\<rparr>"
  have "ctx_len demo_ctx + 1 < length (ctx_intents demo_ctx)" by simp
  from tcp_accept_cases [OF this, where ts = ?ts and res = "- 24" and net = bind_fails and
    more_io = "\<lambda>_. True" and flags = 0 and w = 0] show ?thesis by simp
qed


section \<open>The \<open>io_uring\<close> wrapper\<close>


text \<open>A world of queued submissions and waiting completions.\<close>

abbreviation demo_ring :: "(nat \<times> nat) ring_ops" where
  "demo_ring \<equiv> \<lparr>ring_build = \<lambda>_ _ w. (Inr (), w), ring_cq_next = \<lambda>w. (None, w), ring_cq_sync = \<lambda>w. w,
     ring_cq_len = snd, ring_sq_push = \<lambda>_ (q, c). (Inr (), (Suc q, c)), ring_sq_need_wakeup = \<lambda>_. False,
     ring_submit_and_wait = \<lambda>n (q, c). (Inr q, (0, c + q)), ring_register_files_sparse = \<lambda>_ w. (Inr (), w),
     ring_register_buffers = \<lambda>_ w. (Inr (), w)\<rparr>"


end
