(* ===== verification/Executor_Properties.thy ===== *)
theory Executor_Properties
  imports Connection_Life Machine_Properties Executor_Steps
begin

text \<open>
  The concrete executors on which the properties of the root theory are instantiated.
\<close>

abbreviation demo_env :: alloc_env where
  "demo_env \<equiv> \<lparr>env_oom = \<lambda>_. False, env_raw = 4096, env_tcp_layout = \<lparr>lay_size = 8, lay_align = 8\<rparr>,
     env_conn_layout = \<lparr>lay_size = 8, lay_align = 8\<rparr>, env_event_layout = \<lparr>lay_size = 8, lay_align = 8\<rparr>\<rparr>"

abbreviation demo_host :: "(nat \<times> nat) host" where
  "demo_host \<equiv> \<lparr>host_profile = Checked, host_io = uring_io demo_ring,
     host_net = \<lparr>net_parse_v6 = \<lambda>_. None, net_socket = \<lambda>_ w. (Inr 9, w), net_set_reuseaddr = \<lambda>_ _ w. (Inr (), w),
       net_bind = \<lambda>_ _ w. (Inr (), w), net_listen = \<lambda>_ _ w. (Inr (), w), net_close = \<lambda>_ w. w\<rparr>,
     host_more_io = \<lambda>_. True, host_memory = \<lambda>_ _. 0\<rparr>"

abbreviation demo_slots :: "u32 option \<Rightarrow> gen_alloc" where
  "demo_slots free \<equiv> \<lparr>ga_generation = \<lparr>arr_cells = [0], arr_size = 1\<rparr>, ga_free_list = \<lparr>rb_slots = [Some 0],
     rb_write_idx = 0, rb_read_idx = 0, rb_size = 1, rb_len = (case free of None \<Rightarrow> 0 | Some _ \<Rightarrow> 1)\<rparr>\<rparr>"

abbreviation empty_queue :: "run_queue_event ring_buffer" where
  "empty_queue \<equiv> \<lparr>rb_slots = [None, None], rb_write_idx = 0, rb_read_idx = 0, rb_size = 2, rb_len = 0\<rparr>"

text \<open>An executor with room for one listener, one connection and one buffer, and one with a connection.\<close>

abbreviation demo_executor :: "(nat \<times> nat) executor" where
  "demo_executor \<equiv> \<lparr>ex_io = (0, 0),
     ex_tcp_pool = \<lparr>op_data = \<lparr>arr_cells = [None], arr_size = 1\<rparr>, op_alloc = demo_slots (Some 0)\<rparr>,
     ex_conn_pool = \<lparr>op_data = \<lparr>arr_cells = [None], arr_size = 1\<rparr>, op_alloc = demo_slots (Some 0)\<rparr>,
     ex_io_bufs = demo_pool\<lparr>bp_alloc := demo_slots (Some 0)\<rparr>,
     ex_run_queues = [empty_queue, empty_queue], ex_intents = replicate INTENT_SLOTS None, ex_current = 0\<rparr>"

abbreviation busy_executor :: "conn_handler \<Rightarrow> gen_alloc \<Rightarrow> (nat \<times> nat) executor" where
  "busy_executor ch bufs \<equiv> demo_executor
     \<lparr>ex_conn_pool := \<lparr>op_data = \<lparr>arr_cells = [Some ch], arr_size = 1\<rparr>, op_alloc = demo_slots None\<rparr>,
      ex_io_bufs := demo_pool\<lparr>bp_alloc := bufs\<rparr>\<rparr>"

abbreviation accepting_listener :: tcp_server where
  "accepting_listener \<equiv> \<lparr>ts_state = TcpAccepting, ts_addr = ''0.0.0.0:3000'', ts_backlog = 4096, ts_listener_fd = 9\<rparr>"

abbreviation demo_handle :: object_handle where
  "demo_handle \<equiv> handle_new CONN_HANDLER \<lparr>gid_index = 0, gid_generation = 0\<rparr>"

abbreviation listener_handle :: object_handle where
  "listener_handle \<equiv> handle_new TCP_SERVER \<lparr>gid_index = 0, gid_generation = 0\<rparr>"

text \<open>The executor whose listener accepts, and that is told of a connection.\<close>

abbreviation accepting_executor :: "(nat \<times> nat) executor" where
  "accepting_executor \<equiv> demo_executor
     \<lparr>ex_tcp_pool := \<lparr>op_data = \<lparr>arr_cells = [Some accepting_listener], arr_size = 1\<rparr>, op_alloc = demo_slots None\<rparr>,
      ex_run_queues := [\<lparr>rb_slots = [Some \<lparr>rq_reason = IoCompleted 3 0, rq_handle = listener_handle\<rparr>, None],
        rb_write_idx = 1, rb_read_idx = 0, rb_size = 2, rb_len = 1\<rparr>, empty_queue]\<rparr>"

lemma demo_executor_new: "executor_new demo_env (0, 0) 1 1 1 = Inr demo_executor"
  by (simp add: executor_new_def object_pool_new_def array_new_with_fn_def gen_alloc_new_def array_new_def
      rb_from_fixed_iter_def rb_new_def layout_array_def alloc_or_abort_def raw_alloc_def
      isize_max_def rb_push_def rb_is_full_def ptr_write_def usize_rem_def buffer_pool_new_def
      aligned_new_def Let_def checked_mul_def from_size_align_unchecked_def layout_valid_def
      is_power_of_two_def usize_limit_def)

lemma demo_contract:
  "alloc_contract (env_raw demo_env) \<lparr>lay_size = unat (1::u32) * POOL_BUF_SIZE, lay_align = POOL_ALIGN\<rparr>"
  by (simp add: alloc_contract_def usize_limit_def)

lemma demo_executor_ok: "exec_ok demo_executor"
  using executor_new_ok [OF demo_executor_new demo_contract] by blast

lemma demo_slots_ok: "ga_ok (demo_slots free)"
  by (simp add: ga_ok_def array_ok_def rb_ok_def rb_slot_def isize_max_def ga_cap_def ga_free_def
      rb_list_def split: option.split)

lemma demo_slots_live:
  "ga_live (demo_slots None) = {\<lparr>gid_index = 0, gid_generation = 0\<rparr>}"
  "ga_dead (demo_slots None) = {}"
  by (auto simp: ga_live_def ga_dead_def ga_cap_def ga_free_def rb_list_def ga_gen_def unat_eq_0
      intro!: gen_id.equality)

lemma busy_pool_map:
  "op_map (ex_conn_pool (busy_executor ch bufs)) = [\<lparr>gid_index = 0, gid_generation = 0\<rparr> \<mapsto> ch]"
  by (auto simp: op_map_def op_cell_def demo_slots_live [simplified] fun_eq_iff)

lemma busy_pool_ok: "op_ok (ex_conn_pool (busy_executor ch bufs))"
  using demo_slots_ok [of None]
  by (auto simp: op_ok_def array_ok_def isize_max_def op_cap_def ga_cap_def op_cell_def ga_free_def
      rb_list_def unat_eq_0)

lemma busy_executor_ok:
  assumes "bp_ok POOL_BUF_SIZE (demo_pool\<lparr>bp_alloc := bufs\<rparr>)" and "conn_ok (demo_pool\<lparr>bp_alloc := bufs\<rparr>) ch"
    and "bp_live (demo_pool\<lparr>bp_alloc := bufs\<rparr>) = conn_owned ch"
  shows "exec_ok (busy_executor ch bufs)"
proof -
  have "conn.shares {} (demo_pool\<lparr>bp_alloc := bufs\<rparr>) (op_map (ex_conn_pool (busy_executor ch bufs)))"
    unfolding busy_pool_map using assms by (auto simp: conn.shares_def split: if_splits)
  moreover have "op_ok (ex_conn_pool (busy_executor ch bufs))" by (rule busy_pool_ok)
  ultimately show ?thesis
    using demo_executor_ok by (simp add: exec_ok_def)
qed

text \<open>The connection that is receiving, and the one that is closing.\<close>

lemma receiving_executor_ok: "exec_ok (busy_executor demo_conn (demo_slots None))"
  using demo_pool_ok demo_slots_live
  by (intro busy_executor_ok) (auto simp: conn_ok_def conn_owned_def bp_live_def)

abbreviation freed_slots :: gen_alloc where
  "freed_slots \<equiv> (demo_slots (Some 0))\<lparr>ga_generation := \<lparr>arr_cells = [1], arr_size = 1\<rparr>\<rparr>"

lemma closing_executor_ok: "exec_ok (busy_executor (demo_conn\<lparr>ch_state := Closing\<rparr>) freed_slots)"
proof (rule busy_executor_ok)
  show "bp_ok POOL_BUF_SIZE (demo_pool\<lparr>bp_alloc := freed_slots\<rparr>)"
    using demo_pool_ok(1) demo_slots_ok [of "Some 0"]
    by (simp add: bp_ok_def ga_ok_def array_ok_def ga_cap_def ga_free_def)
  show "conn_ok (demo_pool\<lparr>bp_alloc := freed_slots\<rparr>) (demo_conn\<lparr>ch_state := Closing\<rparr>)"
    by (simp add: conn_ok_def bp_dead_iff ga_dead_def ga_cap_def ga_gen_def)
  show "bp_live (demo_pool\<lparr>bp_alloc := freed_slots\<rparr>) = conn_owned (demo_conn\<lparr>ch_state := Closing\<rparr>)"
    by (auto simp: bp_live_def ga_live_def ga_cap_def ga_free_def rb_list_def rb_slot_def ga_gen_def
        conn_owned_def unat_eq_0)
qed

lemma accepting_pool:
  "op_map (ex_tcp_pool accepting_executor) = [\<lparr>gid_index = 0, gid_generation = 0\<rparr> \<mapsto> accepting_listener]"
  "op_ok (ex_tcp_pool accepting_executor)"
proof -
  show "op_map (ex_tcp_pool accepting_executor) = [\<lparr>gid_index = 0, gid_generation = 0\<rparr> \<mapsto> accepting_listener]"
    by (auto simp: op_map_def op_cell_def demo_slots_live [simplified] fun_eq_iff)
  show "op_ok (ex_tcp_pool accepting_executor)"
    using demo_slots_ok [of None]
    by (auto simp: op_ok_def array_ok_def isize_max_def op_cap_def ga_cap_def op_cell_def ga_free_def
        rb_list_def unat_eq_0)
qed

lemma accepting_executor_ok: "exec_ok accepting_executor"
proof -
  have "rb_ok (ex_run_queues accepting_executor ! 0)"
    by (simp add: rb_ok_def rb_slot_def isize_max_def)
  with demo_executor_ok accepting_pool(2) show ?thesis by (simp add: exec_ok_def)
qed

lemma accepting_room:
  "card (dom (op_map (ex_conn_pool accepting_executor))) < op_cap (ex_conn_pool accepting_executor)"
  "card (bp_live (ex_io_bufs accepting_executor)) < bp_cap (ex_io_bufs accepting_executor)"
proof -
  from executor_new_ok [OF demo_executor_new demo_contract]
  have "op_map (ex_conn_pool demo_executor) = Map.empty" "bp_live (ex_io_bufs demo_executor) = {}"
    "bp_cap (ex_io_bufs demo_executor) = 1" "op_cap (ex_conn_pool demo_executor) = 1" by simp_all
  then show "card (dom (op_map (ex_conn_pool accepting_executor))) < op_cap (ex_conn_pool accepting_executor)"
    "card (bp_live (ex_io_bufs accepting_executor)) < bp_cap (ex_io_bufs accepting_executor)" by simp_all
qed

lemma demo_obliges: "ring_obliges demo_ring"
  by (simp add: ring_obliges_def)

text \<open>A ring that completes, in order and once each, the entries pushed to it, with result 0.\<close>

abbreviation echo_ring :: "u64 list ring_ops" where
  "echo_ring \<equiv> \<lparr>ring_build = \<lambda>_ _ w. (Inr (), w),
     ring_cq_next = (\<lambda>w. case w of [] \<Rightarrow> (None, [])
       | u # us \<Rightarrow> (Some \<lparr>cqe_result = 0, cqe_flags = 0, cqe_user_data = u\<rparr>, us)),
     ring_cq_sync = \<lambda>w. w, ring_cq_len = length, ring_sq_push = \<lambda>e w. (Inr (), w @ [sqe_user_data e]),
     ring_sq_need_wakeup = \<lambda>_. False, ring_submit_and_wait = \<lambda>_ w. (Inr (length w), w),
     ring_register_files_sparse = \<lambda>_ w. (Inr (), w), ring_register_buffers = \<lambda>_ w. (Inr (), w)\<rparr>"

abbreviation echo_host :: "u64 list host" where
  "echo_host \<equiv> \<lparr>host_profile = Checked, host_io = uring_io echo_ring,
     host_net = \<lparr>net_parse_v6 = \<lambda>_. None, net_socket = \<lambda>_ w. (Inr 9, w), net_set_reuseaddr = \<lambda>_ _ w. (Inr (), w),
       net_bind = \<lambda>_ _ w. (Inr (), w), net_listen = \<lambda>_ _ w. (Inr (), w), net_close = \<lambda>_ w. w\<rparr>,
     host_more_io = \<lambda>_. True, host_memory = \<lambda>_ _. 0\<rparr>"

lemma echo_truthful: "ring_truthful echo_ring set" "net_apart (host_net echo_host) set"
  by (auto simp: ring_truthful_def net_apart_def split: list.splits)

lemma echo_checked: "host_profile echo_host = Checked" "host_io echo_host = uring_io echo_ring"
  by simp_all

lemma echo_obliges: "ring_obliges echo_ring" "net_obliges (host_net echo_host) 9"
  by (simp_all add: ring_obliges_def net_obliges_def)

lemma demo_main_env:
  "env_sized demo_env" "env_ample demo_env" "log_env_ok 4096 1048576 (512 * 1000)"
  "alloc_contract (env_raw demo_env) \<lparr>lay_size = 100 * POOL_BUF_SIZE, lay_align = POOL_ALIGN\<rparr>"
  by (simp_all add: env_sized_def env_ample_def ample_def isize_max_def alloc_contract_def usize_limit_def
      log_env_ok_def)

end
