(* ===== verification/Server_Log_Properties.thy ===== *)
theory Server_Log_Properties
  imports Server_Log Executor_Properties
begin

text \<open>
  The properties of what the server logs: that logging does not change what the server does, what the
  lines look like and which event they name, and that all of them get to standard output.
\<close>

section \<open>Erasure\<close>

lemma blob_start_erased:
  assumes "log_env_ok raw0 raw1 (512 * 1000)" and "logger_new raw0 raw1 (512 * 1000) = Inr (Inr (p, lg))"
  obtains s where "blob_start env ring pr (init_logger p) (lg, m) w =
    andThen (snd (blob_start_logged env ring w)) (\<lambda>ex. Inr (s, ex))"
proof -
  obtain lg' m' where "blob_start env ring pr (init_logger p) (lg, m) w =
       andThen (uring_new ring 4096 False w) (\<lambda>(r, w). andThen (unwrap_result r) (\<lambda>_.
       andThen (executor_new env w 1 100 100) (\<lambda>ex. Inr ((lg', m'), ex))))"
    by (rule blob_start_steps [OF assms])
  then show thesis
    by (intro that [of "(lg', m')"])
      (simp add: blob_start_logged_def erase_simps andThen_assoc split_def)
qed

lemma blob_main_erased:
  assumes "log_env_ok raw0 raw1 (512 * 1000)"
  shows "map_option snd (blob_main_logged n env raw0 raw1 ring host w) =
    map_option (\<lambda>r. andThen r (\<lambda>x. Inr (map_sum id snd x))) (blob_main n env raw0 raw1 ring host m w)"
proof (cases "logger_new raw0 raw1 (512 * 1000)")
  case new: (Inr l)
  show ?thesis
  proof (cases l)
    case (Inr l')
    obtain p lg where l: "l = Inr (p, lg)" using Inr by (cases l') simp
    obtain s where start: "blob_start env ring (host_profile host) (init_logger p) (lg, m) w =
        andThen (snd (blob_start_logged env ring w)) (\<lambda>ex. Inr (s, ex))"
      by (rule blob_start_erased [OF assms new [unfolded l], of env ring "host_profile host" m w])
    obtain es r where es: "blob_start_logged env ring w = (es, r)" by fastforce
    show ?thesis
    proof (cases r)
      case (Inr ex)
      from extends_run [of n env host ex] show ?thesis
        using start es new l Inr
        by (cases rule: extends_cases) (auto simp: blob_main_logged_def blob_main_def andThen_assoc)
    qed (use start es new l in \<open>simp add: blob_main_logged_def blob_main_def\<close>)
  qed (use new in \<open>simp add: blob_main_logged_def blob_main_def\<close>)
qed (simp add: blob_main_logged_def blob_main_def)




section \<open>The queue\<close>

text \<open>C15: The log queue is a bounded buffer. Whatever log calls are made and whenever the consumer thread
  takes its turns in between, the queue writes to standard output, turn by turn, what a byte buffer of
  the size given to \<open>Logger::new\<close> would that drops a line it has no room for; and the panic hook's flush
  yields what that buffer still holds.\<close>

lemma log_queue_refines_buffer:
  assumes "log_env_ok raw0 raw1 cap" and "logger_new raw0 raw1 cap = Inr (Inr (p, lg))"
  shows "\<exists>lg' m'. log_jobs pr libc_write (init_logger p) jobs ((lg, m), w) =
      Inr ((lg', m'), fold (write_to_stdout libc_write) (fst (buffered cap jobs [])) w) \<and>
    panic_flush lg' m' = Inr (if snd (buffered cap jobs []) = [] then [] else [snd (buffered cap jobs [])])"
proof -
  note start = logger_new_env [OF assms]
  then have "log_rest p 0 (fst (lg, m))" "log_waiting 0 (lg, m) = []"
    by (simp_all add: log_waiting_def log_content_def slice_bytes_def)
  from log_jobs_buffered [OF this, of pr libc_write jobs w] obtain s b where
    "log_jobs pr libc_write (Some p) jobs ((lg, m), w) =
      Inr (s, fold (write_to_stdout libc_write) (fst (buffered (pr_buf_size p) jobs [])) w)"
    "log_rest p b (fst s)" "log_waiting b s = snd (buffered (pr_buf_size p) jobs [])" by blast
  with panic_flush_rest [of p b "fst s" "snd s"] start show ?thesis
    by (cases s) (auto simp: init_logger_def)
qed

lemma log_queue_refines_buffer_witness:
  "\<exists>p lg lg' m'. logger_new 4096 1048576 (512 * 1000) = Inr (Inr (p, lg)) \<and>
    log_jobs Checked (\<lambda>_ buf w. (0, w @ buf)) (init_logger p)
      [LogCall (hinfo [[65]]), ConsumerTurn, LogCall (hprint [[66]])] ((lg, \<lambda>_. 0), []) =
      Inr ((lg', m'), string_bytes ''[INFO] A'' @ [10]) \<and>
    panic_flush lg' m' = Inr [[66, 10]]"
proof -
  from logger_new_succeeds [of 4096 1048576] obtain p lg where
    new: "logger_new 4096 1048576 (512 * 1000) = Inr (Inr (p, lg))" by auto
  have "buffered (512 * 1000) [LogCall (hinfo [[65]]), ConsumerTurn, LogCall (hprint [[66]])] [] =
      ([string_bytes ''[INFO] A'' @ [10]], [66, 10])"
    by (simp add: hinfo_def hprint_def entry_line_def log_line_def string_bytes_def)
  with log_queue_refines_buffer [OF demo_main_env(3) new, of Checked "\<lambda>_ buf w. (0, w @ buf)"
      "[LogCall (hinfo [[65]]), ConsumerTurn, LogCall (hprint [[66]])]" "\<lambda>_. 0" "[]"] new
  show ?thesis by (auto simp: write_to_stdout_def)
qed


section \<open>The lines\<close>

text \<open>C17: Every line the server ever logs is whole: its level, its text and a newline, in at most 100 bytes
  (of the 512 there are), and the newline is its last byte and no other.\<close>

lemma log_lines_whole:
  assumes "blob_main_logged n env raw0 raw1 ring host w = Some (es, r)"
  shows "\<forall>e \<in> set es. entry_line e = log_level_prefix (le_level e) @ concat (le_args e) @ [10] \<and>
    length (entry_line e) \<le> 100 \<and> 10 \<notin> set (butlast (entry_line e))"
proof
  fix e assume "e \<in> set es"
  with blob_main_lines_fit [OF assms] have fit: "line_fits e" by (simp add: list_all_iff)
  note line = line_fits_line [OF this]
  have "butlast (entry_line e) = log_level_prefix (le_level e) @ concat (le_args e)"
    unfolding line(1) by (simp only: append_assoc [symmetric] butlast_snoc)
  with line fit show "entry_line e = log_level_prefix (le_level e) @ concat (le_args e) @ [10] \<and>
    length (entry_line e) \<le> 100 \<and> 10 \<notin> set (butlast (entry_line e))"
    by (simp only: line_fits_def) blast
qed

text \<open>What a start-up that succeeds logs.\<close>

lemma blob_start_entries:
  "snd (blob_start_logged env ring w) = Inr ex \<Longrightarrow> fst (blob_start_logged env ring w) =
     [hinfo [string_bytes ''blob engine starting''],
      hinfo [string_bytes ''executor initialized, entering main loop'']]"
  by (auto simp: blob_start_logged_def entries_logThen erase_simps andThen_eq_Inr split_def)

lemma echo_main_logs:
  obtains ex where "blob_main_logged 0 demo_env 4096 1048576 echo_ring echo_host [] =
    Some ([hinfo [string_bytes ''blob engine starting''],
      hinfo [string_bytes ''executor initialized, entering main loop'']], Inr (Inr ex))"
proof -
  let ?main = "blob_main_logged 0 demo_env 4096 1048576 echo_ring echo_host []"
  obtain s :: "logger \<times> memory" and ex where
    "blob_main 0 demo_env 4096 1048576 echo_ring echo_host (\<lambda>_. 0) [] = Some (Inr (Inr (s, ex)))"
    by (rule blob_main_starts [OF demo_main_env(2,3) _ _ demo_main_env(4) echo_checked echo_obliges(1)]) simp_all
  with blob_main_erased [OF demo_main_env(3), of 0 demo_env echo_ring echo_host "[]" "\<lambda>_. 0"]
  obtain es where es: "?main = Some (es, Inr (Inr ex))" by (auto simp: map_option_eq_Some)
  from logger_new_succeeds [of 4096 1048576] obtain l where
    "logger_new 4096 1048576 (512 * 1000) = Inr (Inr l)" by auto
  with es obtain ex0 new where start: "snd (blob_start_logged demo_env echo_ring []) = Inr ex0"
    and run: "executor_run_logged 0 demo_env echo_host ex0 = Some (new, Inr ex)"
    and new: "es = fst (blob_start_logged demo_env echo_ring []) @ new"
    by (auto simp: blob_main_logged_def andThen_eq_Inr split: prod.splits sum.splits)
  have "new = []" using run by (auto simp: executor_run_logged_def split: sum.splits)
  with es new blob_start_entries [OF start] that show thesis by simp
qed

lemma log_lines_whole_witness:
  "\<exists>es r. blob_main_logged 0 demo_env 4096 1048576 echo_ring echo_host [] = Some (es, r) \<and> length es = 2 \<and>
    (\<forall>e \<in> set es. length (entry_line e) \<le> 100)"
proof -
  obtain ex where main: "blob_main_logged 0 demo_env 4096 1048576 echo_ring echo_host [] =
    Some ([hinfo [string_bytes ''blob engine starting''],
      hinfo [string_bytes ''executor initialized, entering main loop'']], Inr (Inr ex))"
    by (rule echo_main_logs)
  from log_lines_whole [OF main] main show ?thesis by auto
qed

lemma write_to_stdout_append:
  "fold (write_to_stdout (\<lambda>_ buf w. (n, w @ buf))) chunks v = v @ concat chunks"
  by (induction chunks arbitrary: v) (simp_all add: write_to_stdout_def)



section \<open>The events\<close>

text \<open>The first entry of an event: what it says before the event and the handle.\<close>

definition event_heads :: "(log_level \<times> string) set" where
  "event_heads = {(LogDebug, ''TCP_SERVER ''), (LogWarn, ''TCP_SERVER MISSING ''),
     (LogDebug, ''CONN_HANDLER ''), (LogWarn, ''CONN_HANDLER MISSING '')}"

lemma process_queued_first_entry:
  assumes ok: "exec_ok ex" and pool: "handle_pool_id (rq_handle ev) \<in> {TCP_SERVER, CONN_HANDLER}"
  obtains level name rest where "(level, name) \<in> event_heads"
    "fst (process_queued_logged host ev ex) =
       LogEntry level (event_args name (rq_reason ev) (rq_handle ev)) # rest"
proof -
  let ?h = "rq_handle ev"
  have "op_ok (ex_tcp_pool ex)" "op_ok (ex_conn_pool ex)" using ok by (simp_all add: exec_ok_def)
  then have "object_pool_get_mut (ex_tcp_pool ex) ?h = Inr (op_map (ex_tcp_pool ex) (handle_gid ?h))"
    "object_pool_get_mut (ex_conn_pool ex) ?h = Inr (op_map (ex_conn_pool ex) (handle_gid ?h))"
    using object_pool_get_eq by blast+
  then have "\<exists>level name rest. (level, name) \<in> event_heads \<and>
      fst (process_queued_logged host ev ex) = LogEntry level (event_args name (rq_reason ev) ?h) # rest"
    using pool
    by (auto simp: process_queued_logged_def dispatch_logged_def entries_logThen event_heads_def hdebug_def
        hwarn_def split: option.split)
  with that show thesis by blast
qed

lemma event_entry_line:
  assumes "(level, name) \<in> event_heads"
  shows "\<exists>pre \<in> {''[DEBUG] TCP_SERVER '', ''[WARN] TCP_SERVER MISSING '', ''[DEBUG] CONN_HANDLER '',
      ''[WARN] CONN_HANDLER MISSING ''}. entry_line (LogEntry level (event_args name ev h)) =
    string_bytes (pre @ debug_machine_event ev @ CHR '' '' # debug_object_handle h @ [CHR 0x0A])"
proof -
  have "line_fits (LogEntry level (event_args name ev h))"
    using assms event_line_fits [of name ev h] by (auto simp: event_heads_def hdebug_def hwarn_def)
  then show ?thesis
    using assms by (auto simp: line_fits_line(1) event_args_def event_heads_def string_bytes_def)
qed

lemma event_text_inj:
  assumes "p @ debug_machine_event ev @ CHR '' '' # debug_object_handle h @ [c] =
      p' @ debug_machine_event ev' @ CHR '' '' # debug_object_handle h' @ [c]"
    and "p \<in> {''[DEBUG] TCP_SERVER '', ''[WARN] TCP_SERVER MISSING '', ''[DEBUG] CONN_HANDLER '',
      ''[WARN] CONN_HANDLER MISSING ''}"
    and "p' \<in> {''[DEBUG] TCP_SERVER '', ''[WARN] TCP_SERVER MISSING '', ''[DEBUG] CONN_HANDLER '',
      ''[WARN] CONN_HANDLER MISSING ''}"
  shows "ev = ev' \<and> h = h'"
proof -
  have "debug_machine_event ev @ CHR '' '' # debug_object_handle h @ [c] =
      debug_machine_event ev' @ CHR '' '' # debug_object_handle h' @ [c]"
    using assms by auto
  from debug_machine_event_inj [OF this] debug_object_handle_inj [of h "[c]" h' "[c]"] show ?thesis by simp
qed

text \<open>C16: The log tells which events were handled. Handling a queued event logs something, and the first
  line determines the event: two events with the same first line have the same machine handle, the same
  reason, the same result and the same flags, whatever the states they were handled in.\<close>

lemma event_line_identifies_event:
  assumes "exec_ok ex" and "handle_pool_id (rq_handle ev) \<in> {TCP_SERVER, CONN_HANDLER}"
    and "exec_ok ex'" and "handle_pool_id (rq_handle ev') \<in> {TCP_SERVER, CONN_HANDLER}"
  shows "fst (process_queued_logged host ev ex) \<noteq> [] \<and>
    (entry_line (hd (fst (process_queued_logged host ev ex))) =
       entry_line (hd (fst (process_queued_logged host' ev' ex'))) \<longrightarrow> ev = ev')"
proof -
  obtain l n rest where 1: "(l, n) \<in> event_heads"
    "fst (process_queued_logged host ev ex) = LogEntry l (event_args n (rq_reason ev) (rq_handle ev)) # rest"
    by (rule process_queued_first_entry [OF assms(1,2)])
  obtain l' n' rest' where 2: "(l', n') \<in> event_heads"
    "fst (process_queued_logged host' ev' ex') = LogEntry l' (event_args n' (rq_reason ev') (rq_handle ev')) # rest'"
    by (rule process_queued_first_entry [OF assms(3,4)])
  have "ev = ev'" if same: "entry_line (LogEntry l (event_args n (rq_reason ev) (rq_handle ev))) =
      entry_line (LogEntry l' (event_args n' (rq_reason ev') (rq_handle ev')))"
    using event_entry_line [OF 1(1), of "rq_reason ev" "rq_handle ev"]
      event_entry_line [OF 2(1), of "rq_reason ev'" "rq_handle ev'"]
  proof (elim bexE)
    fix p p'
    assume p: "p \<in> {''[DEBUG] TCP_SERVER '', ''[WARN] TCP_SERVER MISSING '', ''[DEBUG] CONN_HANDLER '',
        ''[WARN] CONN_HANDLER MISSING ''}"
      "p' \<in> {''[DEBUG] TCP_SERVER '', ''[WARN] TCP_SERVER MISSING '', ''[DEBUG] CONN_HANDLER '',
        ''[WARN] CONN_HANDLER MISSING ''}"
      and lines: "entry_line (LogEntry l (event_args n (rq_reason ev) (rq_handle ev))) = string_bytes
        (p @ debug_machine_event (rq_reason ev) @ CHR '' '' # debug_object_handle (rq_handle ev) @ [CHR 0x0A])"
      "entry_line (LogEntry l' (event_args n' (rq_reason ev') (rq_handle ev'))) = string_bytes
        (p' @ debug_machine_event (rq_reason ev') @ CHR '' '' # debug_object_handle (rq_handle ev') @ [CHR 0x0A])"
    from same [unfolded lines string_bytes_inj] p have "rq_reason ev = rq_reason ev' \<and> rq_handle ev = rq_handle ev'"
      by (rule event_text_inj)
    then show ?thesis by simp
  qed
  with 1(2) 2(2) show ?thesis by simp
qed

lemma event_line_identifies_event_witness:
  "hd (fst (process_queued_logged demo_host \<lparr>rq_reason = IoCompleted 0 0, rq_handle = demo_handle\<rparr>
      (busy_executor demo_conn (demo_slots None)))) \<noteq>
   hd (fst (process_queued_logged demo_host \<lparr>rq_reason = IoCompleted 0 1, rq_handle = demo_handle\<rparr>
      (busy_executor demo_conn (demo_slots None))))"
proof -
  have "handle_pool_id demo_handle = CONN_HANDLER" by (rule handle_pack_pool_id) simp
  then have "handle_pool_id (rq_handle \<lparr>rq_reason = e, rq_handle = demo_handle\<rparr>) \<in> {TCP_SERVER, CONN_HANDLER}" for e
    by simp
  from event_line_identifies_event [OF receiving_executor_ok this receiving_executor_ok this,
      of demo_host "IoCompleted 0 0" demo_host "IoCompleted 0 1"] show ?thesis by auto
qed

end
