(* ===== verification/Unit_Tests.thy ===== *)
theory Unit_Tests
  imports Server_Log Startup "HOL-Library.Sublist"
begin

text \<open>
  The repository's unit tests, as programs over the model: \<open>collections.rs\<close>, \<open>conn_handler.rs\<close> and
  the logging crate. A test passes when it returns; \<open>assert!\<close> and \<open>assert_eq!\<close> are \<open>rust_assert\<close>. What
  goes out of scope at the end of a test is not dropped, but for the test of the destructor. The
  layouts of the element types and the answers of the allocator are arguments. \<open>LOGGER_PTR\<close> is what
  the test made it.
\<close>

text \<open>An \<open>i32\<close>, and a \<open>String\<close> (three words).\<close>

abbreviation i32_layout :: layout where
  "i32_layout \<equiv> \<lparr>lay_size = 4, lay_align = 4\<rparr>"

abbreviation string_layout :: layout where
  "string_layout \<equiv> \<lparr>lay_size = 24, lay_align = 8\<rparr>"

fun for_each :: "('a \<Rightarrow> unit outcome) \<Rightarrow> 'a list \<Rightarrow> unit outcome" where
  "for_each f [] = Inr ()"
| "for_each f (x # xs) = andThen (f x) (\<lambda>_. for_each f xs)"

text \<open>\<open>assert!(r.is_ok())\<close>, \<open>assert!(r.is_err())\<close>, and \<open>catch_unwind\<close> of code that panicked.\<close>

definition assert_ok :: "'e + 'a \<Rightarrow> unit outcome" where
  "assert_ok r = rust_assert (\<not> isl r)"

definition assert_err :: "'e + 'a \<Rightarrow> unit outcome" where
  "assert_err r = rust_assert (isl r)"

definition assert_panics :: "'a outcome \<Rightarrow> unit outcome" where
  "assert_panics m =
     rust_assert (case m of Inl f \<Rightarrow> f \<notin> {AllocAbort, UndefinedBehaviour} | Inr _ \<Rightarrow> False)"

lemmas assert_defs [run_defs] = assert_ok_def assert_err_def assert_panics_def


section \<open>Collections\<close>

definition test_array_initialization :: "(layout \<Rightarrow> bool) \<Rightarrow> layout \<Rightarrow> unit outcome" where
  "test_array_initialization oom ty =
     andThen (array_new oom ty (42 :: i32) 5) (\<lambda>arr.
     andThen (rust_assert (array_len arr = 5)) (\<lambda>_.
     for_each (\<lambda>i. andThen (array_index arr i) (\<lambda>v. rust_assert (v = 42))) [0..<5]))"

definition test_array_mutation :: "(layout \<Rightarrow> bool) \<Rightarrow> layout \<Rightarrow> unit outcome" where
  "test_array_mutation oom ty =
     andThen (array_new oom ty (0 :: i32) 3) (\<lambda>arr.
     andThen (array_index_mut arr 0 10) (\<lambda>arr.
     andThen (array_index_mut arr 1 20) (\<lambda>arr.
     andThen (array_index_mut arr 2 30) (\<lambda>arr.
     andThen (array_index arr 0) (\<lambda>v. andThen (rust_assert (v = 10)) (\<lambda>_.
     andThen (array_index arr 1) (\<lambda>v. andThen (rust_assert (v = 20)) (\<lambda>_.
     andThen (array_index arr 2) (\<lambda>v. rust_assert (v = 30))))))))))"

definition test_array_deref_slice :: "(layout \<Rightarrow> bool) \<Rightarrow> layout \<Rightarrow> unit outcome" where
  "test_array_deref_slice oom ty =
     andThen (array_new oom ty (7 :: i32) 4) (\<lambda>arr.
     andThen (array_deref arr) (\<lambda>slice. rust_assert (slice = [7, 7, 7, 7])))"

definition ring_buffer_len :: "'a ring_buffer \<Rightarrow> usize" where
  "ring_buffer_len rb = rb_len rb"

definition test_ring_buffer_basic_push_pop :: "(layout \<Rightarrow> bool) \<Rightarrow> layout \<Rightarrow> unit outcome" where
  "test_ring_buffer_basic_push_pop oom ty =
     andThen (rb_new oom ty 3 :: i32 ring_buffer outcome) (\<lambda>rb.
     andThen (rust_assert (rb_is_empty rb)) (\<lambda>_.
     andThen (rust_assert (rb_capacity rb = 3)) (\<lambda>_.
     andThen (rust_assert (ring_buffer_len rb = 0)) (\<lambda>_.
     andThen (rb_push 10 rb) (\<lambda>(r, rb). andThen (assert_ok r) (\<lambda>_.
     andThen (rb_push 20 rb) (\<lambda>(r, rb). andThen (assert_ok r) (\<lambda>_.
     andThen (rust_assert (ring_buffer_len rb = 2)) (\<lambda>_.
     andThen (rust_assert (\<not> rb_is_empty rb)) (\<lambda>_.
     andThen (rb_pop rb) (\<lambda>(r, rb). andThen (rust_assert (r = Some 10)) (\<lambda>_.
     andThen (rb_pop rb) (\<lambda>(r, rb). andThen (rust_assert (r = Some 20)) (\<lambda>_.
     andThen (rust_assert (rb_is_empty rb)) (\<lambda>_.
     andThen (rb_pop rb) (\<lambda>(r, rb). rust_assert (r = None)))))))))))))))))"

definition test_ring_buffer_full_capacity :: "(layout \<Rightarrow> bool) \<Rightarrow> layout \<Rightarrow> unit outcome" where
  "test_ring_buffer_full_capacity oom ty =
     andThen (rb_new oom ty 2 :: i32 ring_buffer outcome) (\<lambda>rb.
     andThen (rb_push 100 rb) (\<lambda>(r, rb). andThen (assert_ok r) (\<lambda>_.
     andThen (rb_push 200 rb) (\<lambda>(r, rb). andThen (assert_ok r) (\<lambda>_.
     andThen (rust_assert (rb_is_full rb)) (\<lambda>_.
     andThen (rb_push 300 rb) (\<lambda>(r, rb). andThen (assert_err r) (\<lambda>_.
     rust_assert (ring_buffer_len rb = 2)))))))))"

definition test_ring_buffer_wrap_around :: "(layout \<Rightarrow> bool) \<Rightarrow> layout \<Rightarrow> unit outcome" where
  "test_ring_buffer_wrap_around oom ty =
     andThen (rb_new oom ty 3 :: i32 ring_buffer outcome) (\<lambda>rb.
     andThen (rb_push 1 rb) (\<lambda>(r, rb). andThen (unwrap_result r) (\<lambda>_.
     andThen (rb_push 2 rb) (\<lambda>(r, rb). andThen (unwrap_result r) (\<lambda>_.
     andThen (rb_push 3 rb) (\<lambda>(r, rb). andThen (unwrap_result r) (\<lambda>_.
     andThen (rb_pop rb) (\<lambda>(r, rb). andThen (rust_assert (r = Some 1)) (\<lambda>_.
     andThen (rb_push 4 rb) (\<lambda>(r, rb). andThen (unwrap_result r) (\<lambda>_.
     andThen (rust_assert (rb_is_full rb)) (\<lambda>_.
     andThen (rb_pop rb) (\<lambda>(r, rb). andThen (rust_assert (r = Some 2)) (\<lambda>_.
     andThen (rb_pop rb) (\<lambda>(r, rb). andThen (rust_assert (r = Some 3)) (\<lambda>_.
     andThen (rb_pop rb) (\<lambda>(r, rb). andThen (rust_assert (r = Some 4)) (\<lambda>_.
     rust_assert (rb_is_empty rb)))))))))))))))))))"

text \<open>The buffer goes out of scope at the end; what its destructor does is the result.\<close>

definition test_ring_buffer_memory_cleanup ::
  "(layout \<Rightarrow> bool) \<Rightarrow> layout \<Rightarrow> (string list \<times> layout) outcome option" where
  "test_ring_buffer_memory_cleanup oom ty =
     (case andThen (rb_new oom ty 5) (\<lambda>rb.
           andThen (rb_push ''hello'' rb) (\<lambda>(r, rb). andThen (unwrap_result r) (\<lambda>_.
           andThen (rb_push ''world'' rb) (\<lambda>(r, rb). andThen (unwrap_result r) (\<lambda>_.
           andThen (rb_pop rb) (\<lambda>(_, rb). Inr rb)))))) of
        Inl f \<Rightarrow> Some (Inl f)
      | Inr rb \<Rightarrow> rb_drop ty rb)"

lemmas collection_test_defs [run_defs] = test_array_initialization_def test_array_mutation_def
  test_array_deref_slice_def ring_buffer_len_def test_ring_buffer_basic_push_pop_def
  test_ring_buffer_full_capacity_def test_ring_buffer_wrap_around_def test_ring_buffer_memory_cleanup_def

lemma small_array:
  assumes "ample oom ty n" and "0 < n"
  shows "array_new oom ty x n = Inr \<lparr>arr_cells = replicate n x, arr_size = n\<rparr>"
    and "rb_new oom ty n = Inr \<lparr>rb_slots = replicate n None, rb_write_idx = 0, rb_read_idx = 0,
      rb_size = n, rb_len = 0\<rparr>"
  using ample_alloc [OF assms] assms by (auto simp: array_new_def rb_new_def ample_def)

lemma collection_tests_pass:
  assumes "ample oom ty 5"
  shows "test_array_initialization oom ty = Inr ()" "test_array_mutation oom ty = Inr ()"
    "test_array_deref_slice oom ty = Inr ()" "test_ring_buffer_basic_push_pop oom ty = Inr ()"
    "test_ring_buffer_full_capacity oom ty = Inr ()" "test_ring_buffer_wrap_around oom ty = Inr ()"
proof -
  have "ample oom ty 4" "ample oom ty 3" "ample oom ty 2" using assms by (auto simp: ample_def)
  note small = small_array [OF assms] small_array [OF this(1)] small_array [OF this(2)] small_array [OF this(3)]
  note arr = array_index_def array_index_mut_def array_deref_def array_len_def ptr_read_def ptr_write_def
  note ring = rb_push_def rb_pop_def rb_is_full_def rb_is_empty_def rb_capacity_def ring_buffer_len_def
    assert_defs ptr_read_def ptr_write_def usize_rem_def
  show "test_array_initialization oom ty = Inr ()"
    by (simp add: test_array_initialization_def small arr upt_rec)
  show "test_array_mutation oom ty = Inr ()" by (simp add: test_array_mutation_def small arr)
  show "test_array_deref_slice oom ty = Inr ()" by (simp add: test_array_deref_slice_def small arr)
  show "test_ring_buffer_basic_push_pop oom ty = Inr ()"
    by (simp add: test_ring_buffer_basic_push_pop_def small ring)
  show "test_ring_buffer_full_capacity oom ty = Inr ()"
    by (simp add: test_ring_buffer_full_capacity_def small ring)
  show "test_ring_buffer_wrap_around oom ty = Inr ()"
    by (simp add: test_ring_buffer_wrap_around_def small ring)
qed

lemma cleanup_test:
  assumes "ample oom ty 5"
  shows "\<exists>l. test_ring_buffer_memory_cleanup oom ty = Some (Inr ([''world''], l)) \<and> layout_array ty 5 = Some l"
proof -
  obtain l where l: "layout_array ty 5 = Some l" using ample_alloc [OF assms] by auto
  note ring = rb_push_def rb_pop_def rb_is_full_def rb_is_empty_def ptr_read_def ptr_write_def usize_rem_def
  show ?thesis
    using l
    by (simp add: test_ring_buffer_memory_cleanup_def small_array(2) [OF assms] ring rb_drop_def deq_all.simps)
qed


section \<open>Connections\<close>

record test_env =
  te_intents :: "machine_intent option list"
  te_buf_pool :: buffer_pool

definition test_env_new :: "(layout \<Rightarrow> bool) \<Rightarrow> addr \<Rightarrow> test_env outcome" where
  "test_env_new oom raw =
     andThen (buffer_pool_new oom raw 4096 4096 4) (\<lambda>buf_pool.
     Inr \<lparr>te_intents = replicate 16 None, te_buf_pool = buf_pool\<rparr>)"

definition test_context :: "test_env \<Rightarrow> exec_ctx" where
  "test_context env = \<lparr>ctx_intents = te_intents env, ctx_len = 0, ctx_buffers = te_buf_pool env\<rparr>"

definition is_recv :: "conn_state \<Rightarrow> bool" where
  "is_recv st \<longleftrightarrow> (case st of Recv _ \<Rightarrow> True | _ \<Rightarrow> False)"

text \<open>
  The first closure handles one event before the one that panics; the context it leaves is that of the
  first event. The test never looks at memory.
\<close>

definition test_invalid_states :: "profile \<Rightarrow> (layout \<Rightarrow> bool) \<Rightarrow> addr \<Rightarrow> memory \<Rightarrow> unit outcome" where
  "test_invalid_states pr oom raw m =
     andThen (test_env_new oom raw) (\<lambda>env.
     let ctx = test_context env; ch = conn_new 1 in
     andThen (conn_process_event pr m ch ctx Spawn) (\<lambda>(ch, ctx).
     andThen (assert_panics (conn_process_event pr m ch ctx Spawn)) (\<lambda>_.
     let ctx = ctx\<lparr>ctx_len := 0\<rparr>; ch = conn_new 1 in
     assert_panics (conn_process_event pr m ch ctx (IoCompleted 0 0)))))"

text \<open>\<open>ctx.buffers.get_mut(ch.buf_handle()).unwrap()[..data.len()].copy_from_slice(data)\<close>.\<close>

definition fill_buffer :: "memory \<Rightarrow> conn_handler \<Rightarrow> exec_ctx \<Rightarrow> u8 list \<Rightarrow> memory outcome" where
  "fill_buffer m ch ctx data =
     andThen (conn_buf_handle ch) (\<lambda>h.
     andThen (buffer_pool_get_mut 4096 (ctx_buffers ctx) h) (\<lambda>r.
     andThen (unwrap_option r) (\<lambda>s.
     andThen (slice_upto s (length data)) (\<lambda>s. copy_from_slice m s data))))"

definition test_valid_state_transitions ::
  "profile \<Rightarrow> (layout \<Rightarrow> bool) \<Rightarrow> addr \<Rightarrow> memory \<Rightarrow> unit outcome" where
  "test_valid_state_transitions pr oom raw m =
     andThen (test_env_new oom raw) (\<lambda>env.
     let ctx = test_context env; ch = conn_new 1 in
     andThen (conn_process_event pr m ch ctx Spawn) (\<lambda>(ch, ctx).
     andThen (rust_assert (is_recv (ch_state ch))) (\<lambda>_.
     let ctx = ctx\<lparr>ctx_len := 0\<rparr>; test_data = string_bytes ''TEST'' in
     andThen (fill_buffer m ch ctx test_data) (\<lambda>m.
     andThen (conn_process_event pr m ch ctx (IoCompleted (of_nat (length test_data)) 0)) (\<lambda>(ch, ctx).
     andThen (rust_assert (is_recv (ch_state ch))) (\<lambda>_.
     andThen (rust_assert (ctx_len ctx = 1)) (\<lambda>_.
     let ctx = ctx\<lparr>ctx_len := 0\<rparr> in
     andThen (conn_process_event pr m ch ctx (IoCompleted 0 0)) (\<lambda>(ch, ctx).
     andThen (rust_assert (ch_state ch = Closing)) (\<lambda>_.
     let ctx = ctx\<lparr>ctx_len := 0\<rparr> in
     andThen (conn_process_event pr m ch ctx (IoCompleted 0 0)) (\<lambda>(ch, ctx).
     rust_assert (ch_state ch = Closed)))))))))))"

definition test_should_parse_valid_msgs ::
  "profile \<Rightarrow> (layout \<Rightarrow> bool) \<Rightarrow> addr \<Rightarrow> memory \<Rightarrow> unit outcome" where
  "test_should_parse_valid_msgs pr oom raw m =
     andThen (test_env_new oom raw) (\<lambda>env.
     let ctx = test_context env;
         hdr = \<lparr>mh_magic = 0x1234, mh_cmd = 1\<rparr>;
         bytes = msg_header_bytes hdr;
         ch = conn_new 1 in
     andThen (conn_process_event pr m ch ctx Spawn) (\<lambda>(ch, ctx).
     andThen (rust_assert (is_recv (ch_state ch))) (\<lambda>_.
     let ctx = ctx\<lparr>ctx_len := 0\<rparr> in
     andThen (fill_buffer m ch ctx bytes) (\<lambda>m.
     andThen (conn_process_event pr m ch ctx (IoCompleted (of_nat (length bytes)) 0)) (\<lambda>(ch, ctx).
     (case ch_state ch of
        Recv (ReceivingBody header) \<Rightarrow> rust_assert (header = hdr)
      | _ \<Rightarrow> rust_assert False))))))"

lemmas conn_test_defs [run_defs] = test_env_new_def test_context_def is_recv_def test_invalid_states_def
  fill_buffer_def test_valid_state_transitions_def test_should_parse_valid_msgs_def

text \<open>The pool, spelled out: new, after an allocation, and after that buffer was freed.\<close>

abbreviation te_pool :: "aligned_buffers \<Rightarrow> u32 \<Rightarrow> nat \<Rightarrow> nat \<Rightarrow> nat \<Rightarrow> buffer_pool" where
  "te_pool ab g w r n \<equiv> \<lparr>bp_pool = ab,
     bp_alloc = \<lparr>ga_generation = \<lparr>arr_cells = [0, 0, 0, g], arr_size = 4\<rparr>,
       ga_free_list = \<lparr>rb_slots = [Some 3, Some 2, Some 1, Some 0], rb_write_idx = w, rb_read_idx = r,
         rb_size = 4, rb_len = n\<rparr>\<rparr>\<rparr>"

lemma enq_items_numeral:
  "enq_items push (numeral k) (x # items) q =
     andThen (push x q) (\<lambda>(r, q'). andThen (unwrap_result r) (\<lambda>_. enq_items push (pred_numeral k) items q'))"
  by (simp only: numeral_eq_Suc enq_items.simps)

lemma test_env_pool:
  assumes oom: "\<And>l. \<not> oom l" and raw: "raw \<noteq> 0"
  obtains ab where "buffer_pool_new oom raw 4096 4096 4 = Inr (te_pool ab 0 0 0 4)"
    "ab_ptr ab = raw" "ab_count ab = 4" "ab_buf_size ab = 4096" "ab_total_size ab = 16384"
proof -
  obtain ab where "aligned_new raw 4 4096 4096 = Inr (Inr ab)"
    "ab_ptr ab = raw" "ab_count ab = 4" "ab_buf_size ab = 4096" "ab_total_size ab = 16384"
    using raw by (simp add: aligned_new_def Let_def checked_mul_def usize_limit_def is_power_of_two_def usize_rem_def
        from_size_align_unchecked_def layout_valid_def isize_max_def raw_alloc_def)
  moreover have "gen_alloc_new oom 4 0 = Inr (bp_alloc (te_pool ab 0 0 0 4))" for ab
    using oom by (simp add: gen_alloc_new_def Let_def array_new_def rb_from_fixed_iter_def rb_new_def
        layout_array_def alloc_or_abort_def raw_alloc_def isize_max_def rb_push_def rb_is_full_def
        ptr_write_def usize_rem_def upt_rec enq_items_numeral)
  ultimately show thesis by (intro that) (simp_all add: buffer_pool_new_def)
qed


lemma test_pool_calls:
  assumes ab: "ab_ptr ab = raw" "ab_count ab = 4" "ab_buf_size ab = 4096" "ab_total_size ab = 16384"
  shows "buffer_pool_alloc (te_pool ab 0 0 0 4) =
      Inr (Some (BufferHandle \<lparr>gid_index = 3, gid_generation = 0\<rparr>), te_pool ab 0 0 (Suc 0) 3)"
    "buffer_pool_get_mut 4096 (te_pool ab 0 0 (Suc 0) 3) (BufferHandle \<lparr>gid_index = 3, gid_generation = 0\<rparr>) =
      Inr (Some \<lparr>sl_ptr = raw + 12288, sl_len = 4096\<rparr>)"
    "buffer_pool_get 4096 (te_pool ab 0 0 (Suc 0) 3) (BufferHandle \<lparr>gid_index = 3, gid_generation = 0\<rparr>) =
      Inr (Some \<lparr>sl_ptr = raw + 12288, sl_len = 4096\<rparr>)"
    "buffer_pool_free pr (BufferHandle \<lparr>gid_index = 3, gid_generation = 0\<rparr>) (te_pool ab 0 0 (Suc 0) 3) =
      Inr (True, te_pool ab 1 (Suc 0) (Suc 0) 4)"
proof -
  note valid = gen_alloc_is_valid_def array_len_def array_index_def ptr_read_def
  show "buffer_pool_alloc (te_pool ab 0 0 0 4) =
      Inr (Some (BufferHandle \<lparr>gid_index = 3, gid_generation = 0\<rparr>), te_pool ab 0 0 (Suc 0) 3)"
    by (simp add: buffer_pool_alloc_def gen_alloc_alloc_def rb_pop_def rb_is_empty_def ptr_read_def
        usize_rem_def array_index_def)
  show "buffer_pool_get_mut 4096 (te_pool ab 0 0 (Suc 0) 3) (BufferHandle \<lparr>gid_index = 3, gid_generation = 0\<rparr>) =
      Inr (Some \<lparr>sl_ptr = raw + 12288, sl_len = 4096\<rparr>)"
    "buffer_pool_get 4096 (te_pool ab 0 0 (Suc 0) 3) (BufferHandle \<lparr>gid_index = 3, gid_generation = 0\<rparr>) =
      Inr (Some \<lparr>sl_ptr = raw + 12288, sl_len = 4096\<rparr>)"
    using ab by (simp_all add: buffer_pool_get_mut_def buffer_pool_get_def valid buf_ptr_mut_def buf_ptr_def
        ptr_add_def slice_from_raw_def)
  show "buffer_pool_free pr (BufferHandle \<lparr>gid_index = 3, gid_generation = 0\<rparr>) (te_pool ab 0 0 (Suc 0) 3) =
      Inr (True, te_pool ab 1 (Suc 0) (Suc 0) 4)"
    by (simp add: buffer_pool_free_def gen_alloc_free_def valid u32_add_def array_index_mut_def ptr_write_def
        rb_push_def rb_is_full_def usize_rem_def)
qed

lemma conn_tests_pass:
  assumes oom: "\<And>l. \<not> oom l" and raw: "raw \<noteq> 0"
  shows "test_invalid_states pr oom raw m = Inr ()"
    "test_valid_state_transitions pr oom raw m = Inr ()"
    "test_should_parse_valid_msgs pr oom raw m = Inr ()"
proof -
  obtain ab where new: "buffer_pool_new oom raw 4096 4096 4 = Inr (te_pool ab 0 0 0 4)"
    and ab: "ab_ptr ab = raw" "ab_count ab = 4" "ab_buf_size ab = 4096" "ab_total_size ab = 16384"
    by (rule test_env_pool [OF assms])
  note calls = test_pool_calls [OF ab]
  note start = test_env_new_def new test_context_def conn_new_def conn_process_event_def conn_on_init_def
    calls(1) conn_recv_def conn_buf_handle_def submit_intent_def Let_def
  show "test_invalid_states pr oom raw m = Inr ()"
    by (simp add: test_invalid_states_def start assert_panics_def)
  note step = is_recv_def fill_buffer_def calls(2-4) slice_upto_def copy_from_slice_def conn_on_recv_def
    u32_add_def conn_close_def conn_on_closing_def
  show "test_valid_state_transitions pr oom raw m = Inr ()"
    by (simp add: test_valid_state_transitions_def start step)
  have len: "length (msg_header_bytes hdr) = 5" for hdr by (simp add: msg_header_bytes_def)
  have read: "msg_header_read (msg_header_bytes hdr) = Some hdr" for hdr
    by (simp add: msg_header_bytes_def magic_join_split)
  have "slice_bytes (store_bytes m a (msg_header_bytes hdr)) \<lparr>sl_ptr = a, sl_len = 5\<rparr> = msg_header_bytes hdr"
    for a hdr
    using slice_bytes_store_same [of m a "msg_header_bytes hdr"] by (simp add: len)
  then show "test_should_parse_valid_msgs pr oom raw m = Inr ()"
    by (simp add: test_should_parse_valid_msgs_def start step len read conn_read_header_def)
qed


section \<open>The log queue\<close>

definition test_sanity :: "addr \<Rightarrow> addr \<Rightarrow> memory \<Rightarrow> unit outcome" where
  "test_sanity raw0 raw1 m =
     andThen (logger_new raw0 raw1 0x1000) (\<lambda>r.
     andThen (unwrap_result r) (\<lambda>(producer, lg).
     andThen (producer_push producer (string_bytes ''hello world'') (lg, m)) (\<lambda>(r, s).
     andThen (unwrap_result r) (\<lambda>_.
     andThen (consumer_consume s) (\<lambda>(bufs, s).
     for_each (\<lambda>buf. rust_assert (buf = string_bytes ''hello world'')) bufs)))))"

text \<open>A macro called with this entry, and the closure that copies what it is handed to an output array.\<close>

definition log_call ::
  "profile \<Rightarrow> producer option \<Rightarrow> log_entry \<Rightarrow> logger \<times> memory \<Rightarrow> (logger \<times> memory) outcome" where
  "log_call pr logger_ptr e = hlog pr producer_push logger_ptr (le_level e) (le_args e)"

fun collect_output :: "u8 list \<Rightarrow> usize \<Rightarrow> u8 list list \<Rightarrow> u8 list outcome" where
  "collect_output output output_len [] = Inr (take output_len output)"
| "collect_output output output_len (buf # bufs) =
     (if length buf \<le> length output
      then collect_output (buf @ drop (length buf) output) (length buf) bufs
      else Inl SliceBounds)"

text \<open>
  \<open>core::str::from_utf8(..).unwrap()\<close>, where the bytes are ASCII: then it succeeds, and the text has the
  same bytes. (What it does on other bytes is not described; a text that is not ASCII fails the test.)
\<close>

definition ascii_text :: "u8 list \<Rightarrow> u8 list outcome" where
  "ascii_text bs = (if list_all (\<lambda>b. b < 128) bs then Inr bs else Inl UnwrapFailed)"

definition test_log_roundtrip :: "profile \<Rightarrow> addr \<Rightarrow> addr \<Rightarrow> memory \<Rightarrow> unit outcome" where
  "test_log_roundtrip pr raw0 raw1 m =
     andThen (logger_new raw0 raw1 0x1000) (\<lambda>r.
     andThen (unwrap_result r) (\<lambda>(producer, lg).
     let logger_ptr = init_logger producer in
     andThen (log_call pr logger_ptr (hinfo [string_bytes ''count = '', string_bytes (show_nat 42),
       string_bytes '', name = '', string_bytes ''alice'']) (lg, m)) (\<lambda>s.
     andThen (consumer_consume s) (\<lambda>(bufs, s).
     andThen (collect_output (replicate 1024 0) 0 bufs) (\<lambda>out.
     andThen (ascii_text out) (\<lambda>text.
     rust_assert (text = string_bytes (''[INFO] count = 42, name = alice'' @ [CHR 0x0A]))))))))"

definition test_consume_empty :: "addr \<Rightarrow> addr \<Rightarrow> memory \<Rightarrow> unit outcome" where
  "test_consume_empty raw0 raw1 m =
     andThen (logger_new raw0 raw1 0x1000) (\<lambda>r.
     andThen (unwrap_result r) (\<lambda>(producer, lg).
     andThen (consumer_consume (lg, m)) (\<lambda>(bufs, s).
     let called = (bufs \<noteq> []) in rust_assert (\<not> called))))"

definition test_multiple_logs :: "profile \<Rightarrow> addr \<Rightarrow> addr \<Rightarrow> memory \<Rightarrow> unit outcome" where
  "test_multiple_logs pr raw0 raw1 m =
     andThen (logger_new raw0 raw1 0x1000) (\<lambda>r.
     andThen (unwrap_result r) (\<lambda>(producer, lg).
     let logger_ptr = init_logger producer in
     andThen (log_call pr logger_ptr (hinfo [string_bytes ''first = '', string_bytes (show_nat 1)]) (lg, m)) (\<lambda>s.
     andThen (log_call pr logger_ptr (hwarn [string_bytes ''second = '', string_bytes (show_nat 2)]) s) (\<lambda>s.
     andThen (log_call pr logger_ptr (herror [string_bytes ''third'']) s) (\<lambda>s.
     andThen (consumer_consume s) (\<lambda>(bufs, s).
     andThen (collect_output (replicate 4096 0) 0 bufs) (\<lambda>out.
     andThen (ascii_text out) (\<lambda>text.
     andThen (rust_assert (sublist (string_bytes (''[INFO] first = 1'' @ [CHR 0x0A])) text)) (\<lambda>_.
     andThen (rust_assert (sublist (string_bytes (''[WARN] second = 2'' @ [CHR 0x0A])) text)) (\<lambda>_.
     rust_assert (sublist (string_bytes (''[ERROR] third'' @ [CHR 0x0A])) text)))))))))))"

record point =
  pt_x :: i32
  pt_y :: i32

definition debug_point :: "point \<Rightarrow> string" where
  "debug_point p = ''Point { x: '' @ show_int (sint (pt_x p)) @ '', y: '' @ show_int (sint (pt_y p)) @ '' }''"

definition test_debug_format :: "profile \<Rightarrow> addr \<Rightarrow> addr \<Rightarrow> memory \<Rightarrow> unit outcome" where
  "test_debug_format pr raw0 raw1 m =
     andThen (logger_new raw0 raw1 0x1000) (\<lambda>r.
     andThen (unwrap_result r) (\<lambda>(producer, lg).
     let logger_ptr = init_logger producer; p = \<lparr>pt_x = 10, pt_y = 20\<rparr> in
     andThen (log_call pr logger_ptr (hdebug [string_bytes ''point = '', string_bytes (debug_point p)]) (lg, m)) (\<lambda>s.
     andThen (consumer_consume s) (\<lambda>(bufs, s).
     andThen (collect_output (replicate 1024 0) 0 bufs) (\<lambda>out.
     andThen (ascii_text out) (\<lambda>text.
     rust_assert (text = string_bytes (''[DEBUG] point = Point { x: 10, y: 20 }'' @ [CHR 0x0A]))))))))"

lemmas log_test_defs [run_defs] = test_sanity_def log_call_def ascii_text_def test_log_roundtrip_def
  test_consume_empty_def test_multiple_logs_def debug_point_def test_debug_format_def

text \<open>What log calls that fit leave in the queue, and what \<open>collect_output\<close> makes of one slice.\<close>

lemma log_call_fits:
  assumes rest: "log_rest p a lg" and w: "log_waiting a (lg, m) = q"
    and fits: "length (q @ entry_line e) \<le> pr_buf_size p"
  obtains lg' m' where "log_call pr (init_logger p) e (lg, m) = Inr (lg', m')" "log_rest p a lg'"
    "log_waiting a (lg', m') = q @ entry_line e"
proof -
  obtain lg' m' where "hlog pr producer_push (Some p) (le_level e) (le_args e) (lg, m) = Inr (lg', m')"
    "log_rest p a lg'" "log_waiting a (lg', m') =
      (if length (log_waiting a (lg, m)) + length (log_line (le_level e) (concat (le_args e))) \<le> pr_buf_size p
       then log_waiting a (lg, m) @ log_line (le_level e) (concat (le_args e)) else log_waiting a (lg, m))"
    by (rule hlog_call_rest [OF rest])
  with w fits that show thesis by (simp add: log_call_def init_logger_def entry_line_def)
qed

lemma collect_output_one:
  "length buf \<le> n \<Longrightarrow> collect_output (replicate n x) 0 (if buf = [] then [] else [buf]) = Inr buf"
  by simp

lemma small_logger:
  assumes "log_env_ok raw0 raw1 0x1000" and "raw0 \<noteq> 0" and "raw1 \<noteq> 0"
  obtains p lg where "logger_new raw0 raw1 0x1000 = Inr (Inr (p, lg))" "log_rest p 0 lg"
    "log_waiting 0 (lg, m) = []" "pr_buf_size p = 0x1000"
proof -
  obtain p lg where new: "logger_new raw0 raw1 0x1000 = Inr (Inr (p, lg))"
    using assms(2,3) by (simp add: logger_new_def aligned_new_def Let_def checked_mul_def usize_limit_def
        is_power_of_two_def usize_rem_def from_size_align_unchecked_def layout_valid_def isize_max_def raw_alloc_def)
  from logger_new_env [OF assms(1) new] show thesis
    by (intro that [OF new]) (simp_all add: log_waiting_def log_content_def slice_bytes_def)
qed

lemma consume_waiting:
  assumes "log_rest p a lg" and "log_waiting a (lg, m) = q"
  obtains lg' where "consumer_consume (lg, m) = Inr (if q = [] then [] else [q], lg', m)"
  using consumer_consume_rest [OF assms(1), of m] assms(2) by auto

lemma one_line_logged:
  assumes env: "log_env_ok raw0 raw1 0x1000" "raw0 \<noteq> 0" "raw1 \<noteq> 0"
  obtains p lg s s' where "logger_new raw0 raw1 0x1000 = Inr (Inr (p, lg))"
    "log_call pr (init_logger p) e (lg, m) = Inr s"
    "consumer_consume s = Inr ([entry_line e], s')" "length (entry_line e) \<le> 1024"
proof -
  have len: "length (entry_line e) \<le> 512" and some: "entry_line e \<noteq> []"
    unfolding entry_line_def by (rule log_line_length, rule log_line_not_empty)
  obtain p lg where new: "logger_new raw0 raw1 0x1000 = Inr (Inr (p, lg))" and rest: "log_rest p 0 lg"
    and w: "log_waiting 0 (lg, m) = []" and cap: "pr_buf_size p = 0x1000"
    by (rule small_logger [OF env])
  have "length ([] @ entry_line e) \<le> pr_buf_size p" using len cap by simp
  then obtain lg1 m1 where call: "log_call pr (init_logger p) e (lg, m) = Inr (lg1, m1)" "log_rest p 0 lg1"
      "log_waiting 0 (lg1, m1) = [] @ entry_line e"
    by (rule log_call_fits [OF rest w])
  from consume_waiting [OF call(2,3)] some obtain lg2 where
    "consumer_consume (lg1, m1) = Inr ([entry_line e], lg2, m1)" by auto
  with new call(1) len show thesis by (intro that [of p lg "(lg1, m1)" "(lg2, m1)"]) simp_all
qed

lemma test_lines:
  "entry_line (hinfo [string_bytes ''count = '', string_bytes (show_nat 42), string_bytes '', name = '',
     string_bytes ''alice'']) = string_bytes (''[INFO] count = 42, name = alice'' @ [CHR 0x0A])"
  "entry_line (hinfo [string_bytes ''first = '', string_bytes (show_nat 1)]) =
     string_bytes (''[INFO] first = 1'' @ [CHR 0x0A])"
  "entry_line (hwarn [string_bytes ''second = '', string_bytes (show_nat 2)]) =
     string_bytes (''[WARN] second = 2'' @ [CHR 0x0A])"
  "entry_line (herror [string_bytes ''third'']) = string_bytes (''[ERROR] third'' @ [CHR 0x0A])"
  "entry_line (hdebug [string_bytes ''point = '', string_bytes (debug_point \<lparr>pt_x = 10, pt_y = 20\<rparr>)]) =
     string_bytes (''[DEBUG] point = Point { x: 10, y: 20 }'' @ [CHR 0x0A])"
  by (simp_all add: hinfo_def hwarn_def herror_def hdebug_def entry_line_def log_line_def string_bytes_def
      show_nat.simps show_int_def debug_point_def char_of_def bit_0 bit_Suc)

lemma log_tests_pass:
  assumes env: "log_env_ok raw0 raw1 0x1000" "raw0 \<noteq> 0" "raw1 \<noteq> 0"
  shows "test_sanity raw0 raw1 m = Inr ()" "test_log_roundtrip pr raw0 raw1 m = Inr ()"
    "test_consume_empty raw0 raw1 m = Inr ()" "test_debug_format pr raw0 raw1 m = Inr ()"
proof -
  obtain p lg where new: "logger_new raw0 raw1 0x1000 = Inr (Inr (p, lg))" and rest: "log_rest p 0 lg"
    and w: "log_waiting 0 (lg, m) = []" and cap: "pr_buf_size p = 0x1000"
    by (rule small_logger [OF env])
  obtain lg' where "consumer_consume (lg, m) = Inr ([], lg', m)"
    using consume_waiting [OF rest w] by auto
  then show "test_consume_empty raw0 raw1 m = Inr ()"
    by (simp add: test_consume_empty_def new)
  let ?hello = "string_bytes ''hello world''"
  have "lg_offsets lg ! 0 = 0" using log_waiting_length [of 0 lg m] w by simp
  then have "lg_offsets lg ! 0 + length ?hello \<le> pr_buf_size p" using cap by simp
  from producer_push_fits [OF rest this, of m] w obtain lg1 m1 where push:
    "producer_push p ?hello (lg, m) = Inr (Inr (), lg1, m1)" "log_rest p 0 lg1"
    "log_waiting 0 (lg1, m1) = ?hello" by auto
  have "?hello \<noteq> []" by (simp add: string_bytes_def)
  with consume_waiting [OF push(2,3)] obtain lg2 where "consumer_consume (lg1, m1) = Inr ([?hello], lg2, m1)"
    by auto
  then show "test_sanity raw0 raw1 m = Inr ()"
    by (simp add: test_sanity_def new push(1))
  show "test_log_roundtrip pr raw0 raw1 m = Inr ()"
    by (rule one_line_logged [OF env, of pr "hinfo [string_bytes ''count = '', string_bytes (show_nat 42),
          string_bytes '', name = '', string_bytes ''alice'']" m])
      (simp add: test_log_roundtrip_def test_lines ascii_text_def del: replicate_numeral_eq,
        simp add: string_bytes_def)
  show "test_debug_format pr raw0 raw1 m = Inr ()"
    by (rule one_line_logged [OF env, of pr "hdebug [string_bytes ''point = '',
          string_bytes (debug_point \<lparr>pt_x = 10, pt_y = 20\<rparr>)]" m])
      (simp add: test_debug_format_def test_lines ascii_text_def Let_def del: replicate_numeral_eq,
        simp add: string_bytes_def)
qed

lemma multiple_logs_pass:
  assumes env: "log_env_ok raw0 raw1 0x1000" "raw0 \<noteq> 0" "raw1 \<noteq> 0"
  shows "test_multiple_logs pr raw0 raw1 m = Inr ()"
proof -
  let ?e1 = "hinfo [string_bytes ''first = '', string_bytes (show_nat 1)]"
  let ?e2 = "hwarn [string_bytes ''second = '', string_bytes (show_nat 2)]"
  let ?e3 = "herror [string_bytes ''third'']"
  let ?text = "entry_line ?e1 @ entry_line ?e2 @ entry_line ?e3"
  have len: "length (entry_line e) \<le> 512" for e unfolding entry_line_def by (rule log_line_length)
  have some: "?text \<noteq> []" using log_line_not_empty by (simp add: entry_line_def)
  have total: "length ?text \<le> 1536" using len [of ?e1] len [of ?e2] len [of ?e3] by simp
  obtain p lg where new: "logger_new raw0 raw1 0x1000 = Inr (Inr (p, lg))" and rest: "log_rest p 0 lg"
    and w: "log_waiting 0 (lg, m) = []" and cap: "pr_buf_size p = 0x1000"
    by (rule small_logger [OF env])
  have fit1: "length ([] @ entry_line ?e1) \<le> pr_buf_size p" using total cap by simp
  obtain lg1 m1 where call1: "log_call pr (init_logger p) ?e1 (lg, m) = Inr (lg1, m1)" "log_rest p 0 lg1"
      "log_waiting 0 (lg1, m1) = [] @ entry_line ?e1"
    by (rule log_call_fits [OF rest w fit1])
  have fit2: "length (([] @ entry_line ?e1) @ entry_line ?e2) \<le> pr_buf_size p" using total cap by simp
  obtain lg2 m2 where call2: "log_call pr (init_logger p) ?e2 (lg1, m1) = Inr (lg2, m2)" "log_rest p 0 lg2"
      "log_waiting 0 (lg2, m2) = ([] @ entry_line ?e1) @ entry_line ?e2"
    by (rule log_call_fits [OF call1(2,3) fit2])
  have fit3: "length ((([] @ entry_line ?e1) @ entry_line ?e2) @ entry_line ?e3) \<le> pr_buf_size p"
    using total cap by simp
  obtain lg3 m3 where call3: "log_call pr (init_logger p) ?e3 (lg2, m2) = Inr (lg3, m3)" "log_rest p 0 lg3"
      "log_waiting 0 (lg3, m3) = (([] @ entry_line ?e1) @ entry_line ?e2) @ entry_line ?e3"
    by (rule log_call_fits [OF call2(2,3) fit3])
  obtain lg4 where consume: "consumer_consume (lg3, m3) = Inr ([?text], lg4, m3)"
    by (rule consume_waiting [OF call3(2,3)]) (use some in simp)
  have ascii: "ascii_text ?text = Inr ?text"
    unfolding test_lines by (simp add: ascii_text_def string_bytes_def)
  have parts: "sublist (entry_line ?e1) ?text" "sublist (entry_line ?e2) ?text" "sublist (entry_line ?e3) ?text"
    using sublist_appendI [of "entry_line ?e1" "[]"] sublist_appendI [of "entry_line ?e2" "entry_line ?e1"]
      sublist_appendI [of "entry_line ?e3" "entry_line ?e1 @ entry_line ?e2" "[]"]
    by (simp_all only: append_Nil append_Nil2 append_assoc)
  show ?thesis
    unfolding test_multiple_logs_def test_lines [symmetric]
    using parts total
    by (simp add: new call1(1) call2(1) call3(1) consume ascii Let_def
        del: replicate_numeral_eq string_bytes_simps One_nat_def)
qed


section \<open>All of them\<close>

text \<open>C39: The repository's unit tests pass in the model. With an allocator that does not fail and the
  contract of \<open>Layout\<close> kept, every test of the collections, of the connection machine and of the logging
  crate returns without a failed assertion, and dropping the half-consumed ring buffer drops the one
  string left and gives back the whole allocation.\<close>

lemma unit_tests_pass:
  assumes "\<forall>l. \<not> oom l" and "ample oom i32_layout 5" and "ample oom string_layout 5"
    and "raw \<noteq> 0" and "raw0 \<noteq> 0" and "raw1 \<noteq> 0" and "log_env_ok raw0 raw1 0x1000"
  shows "list_all (\<lambda>test. test = Inr ())
     [test_array_initialization oom i32_layout, test_array_mutation oom i32_layout,
      test_array_deref_slice oom i32_layout, test_ring_buffer_basic_push_pop oom i32_layout,
      test_ring_buffer_full_capacity oom i32_layout, test_ring_buffer_wrap_around oom i32_layout,
      test_invalid_states pr oom raw m, test_valid_state_transitions pr oom raw m,
      test_should_parse_valid_msgs pr oom raw m,
      test_sanity raw0 raw1 m, test_log_roundtrip pr raw0 raw1 m, test_consume_empty raw0 raw1 m,
      test_multiple_logs pr raw0 raw1 m, test_debug_format pr raw0 raw1 m] \<and>
    (\<exists>l. test_ring_buffer_memory_cleanup oom string_layout = Some (Inr ([''world''], l)) \<and>
      layout_array string_layout 5 = Some l)"
proof
  have "\<not> oom l" for l using assms(1) by blast
  note conn = conn_tests_pass [OF this assms(4), where pr = pr and m = m]
  show "list_all (\<lambda>test. test = Inr ())
     [test_array_initialization oom i32_layout, test_array_mutation oom i32_layout,
      test_array_deref_slice oom i32_layout, test_ring_buffer_basic_push_pop oom i32_layout,
      test_ring_buffer_full_capacity oom i32_layout, test_ring_buffer_wrap_around oom i32_layout,
      test_invalid_states pr oom raw m, test_valid_state_transitions pr oom raw m,
      test_should_parse_valid_msgs pr oom raw m,
      test_sanity raw0 raw1 m, test_log_roundtrip pr raw0 raw1 m, test_consume_empty raw0 raw1 m,
      test_multiple_logs pr raw0 raw1 m, test_debug_format pr raw0 raw1 m]"
    by (simp add: collection_tests_pass [OF assms(2)] conn log_tests_pass [OF assms(7,5,6)]
        multiple_logs_pass [OF assms(7,5,6)])
qed (rule cleanup_test [OF assms(3)])

lemma unit_tests_pass_witness:
  "test_should_parse_valid_msgs Checked (\<lambda>_. False) 4096 (\<lambda>_. 0) = Inr () \<and>
   test_multiple_logs Checked 4096 8192 (\<lambda>_. 0) = Inr () \<and>
   (\<exists>l. test_ring_buffer_memory_cleanup (\<lambda>_. False) string_layout = Some (Inr ([''world''], l)))"
proof -
  have "ample (\<lambda>_. False) i32_layout 5" "ample (\<lambda>_. False) string_layout 5" "log_env_ok 4096 8192 0x1000"
    by (simp_all add: ample_def isize_max_def log_env_ok_def alloc_contract_def usize_limit_def)
  from unit_tests_pass [OF _ this(1,2) _ _ _ this(3), of 4096 Checked "\<lambda>_. 0"] show ?thesis by auto
qed

end
