(* ===== verification/Pool_Properties.thy ===== *)
theory Pool_Properties
  imports Buffer_Pool Object_Pool
begin

text \<open>
  The properties of the collections crate (\<open>hoarder-collections/src\<close>): arrays, ring buffers, aligned
  buffers, the generational allocator and the two pools over it, each with an instance of its
  hypotheses.
\<close>

text \<open>C14: A ring buffer made by \<open>new\<close> is indistinguishable from a list of at most \<open>n\<close> items, added at the
  end and taken from the front: whatever pushes and pops follow, none panics or touches an unwritten
  cell, every answer is that of the list, and so the items accepted are, in order, those delivered
  followed by those still in the buffer.\<close>

lemma ring_buffer_fifo:
  assumes "rb_new oom ty n = Inr rb"
  shows "\<exists>ins outs rb'. queue_run rb_push rb_pop ops rb = Inr (ins, outs, rb') \<and>
    queue_run (list_enq n) list_deq ops [] = Inr (ins, outs, rb_list rb') \<and>
    ins = outs @ rb_list rb' \<and> rb_ok rb' \<and> length (rb_list rb') \<le> n"
proof -
  note new = rb_new_ok [OF assms]
  then obtain ins outs rb' where run: "queue_run rb_push rb_pop ops rb = Inr (ins, outs, rb')"
    and ok: "rb_ok rb'" and size: "rb_size rb' = rb_size rb"
    and list: "queue_run (list_enq (rb_size rb)) list_deq ops (rb_list rb) = Inr (ins, outs, rb_list rb')"
    using rb.queue_run_list [of rb ops] by blast
  from list_queue_fifo [OF list] new have "ins = outs @ rb_list rb'" by simp
  moreover have "length (rb_list rb') \<le> n" using rb.fits [OF ok] size new by simp
  ultimately show ?thesis using run list ok new by auto
qed

lemma ring_buffer_fifo_witness:
  "\<exists>ins outs rb'. queue_run rb_push rb_pop [Enq 1, Enq 2, Enq 3, Deq, Enq (4::nat), Deq]
      \<lparr>rb_slots = [None, None], rb_write_idx = 0, rb_read_idx = 0, rb_size = 2, rb_len = 0\<rparr> =
      Inr (ins, outs, rb') \<and> ins = [1, 2, 4] \<and> outs = [1, 2] \<and> rb_list rb' = [4]"
proof -
  have "rb_new (\<lambda>_. False) u32_layout 2 =
      Inr \<lparr>rb_slots = [None, None], rb_write_idx = 0, rb_read_idx = 0, rb_size = 2, rb_len = 0\<rparr>"
    by (simp add: rb_new_def layout_array_def alloc_or_abort_def raw_alloc_def isize_max_def)
  from ring_buffer_fifo [OF this, of "[Enq 1, Enq 2, Enq 3, Deq, Enq (4::nat), Deq]"] show ?thesis
    by auto
qed

text \<open>Dropping a well-formed ring buffer ends, pops (and so drops) every remaining item exactly
  once, in order, and gives back exactly the layout \<open>new\<close> had allocated.\<close>

lemma ring_buffer_drop:
  assumes "rb_ok rb" and "layout_array ty (rb_size rb) = Some l"
  shows "rb_drop ty rb = Some (Inr (rb_list rb, l))"
  using rb.deq_all_total [OF assms(1), of "[]"] assms(2) by (auto simp: rb_drop_def)

lemma ring_buffer_drop_witness:
  "rb_drop u32_layout \<lparr>rb_slots = [Some (7::nat), None], rb_write_idx = 1, rb_read_idx = 0,
     rb_size = 2, rb_len = 1\<rparr> = Some (Inr ([7], \<lparr>lay_size = 8, lay_align = 4\<rparr>))"
proof -
  let ?rb = "\<lparr>rb_slots = [Some (7::nat), None], rb_write_idx = 1, rb_read_idx = 0,
     rb_size = 2, rb_len = 1\<rparr>"
  have "rb_ok ?rb" "layout_array u32_layout (rb_size ?rb) = Some \<lparr>lay_size = 8, lay_align = 4\<rparr>"
    by (simp_all add: rb_ok_def rb_slot_def isize_max_def layout_array_def)
  from ring_buffer_drop [OF this] show ?thesis by (simp add: rb_list_def rb_slot_def)
qed

text \<open>\<open>push\<close> appends when there is room and otherwise answers \<open>PushError\<close> and changes nothing;
  \<open>pop\<close> removes the oldest item and answers \<open>None\<close> exactly when there is none; neither ever panics,
  and the index arithmetic cannot leave the range of \<open>usize\<close>.\<close>

lemma ring_buffer_steps:
  assumes ok: "rb_ok rb"
  shows "(if length (rb_list rb) < rb_capacity rb
      then \<exists>rb'. rb_push x rb = Inr (Inr (), rb') \<and> rb_list rb' = rb_list rb @ [x] \<and> rb_ok rb'
      else rb_is_full rb \<and> rb_push x rb = Inr (Inl PushError, rb)) \<and>
    (case rb_list rb of
       [] \<Rightarrow> rb_is_empty rb \<and> rb_pop rb = Inr (None, rb)
     | y # ys \<Rightarrow> \<exists>rb'. rb_pop rb = Inr (Some y, rb') \<and> rb_list rb' = ys \<and> rb_ok rb') \<and>
    rb_write_idx rb + 1 < usize_limit \<and> rb_read_idx rb + 1 < usize_limit \<and> rb_len rb + 1 < usize_limit"
proof (intro conjI)
  have le: "length (rb_list rb) \<le> rb_size rb" using rb.fits [OF ok] .
  show "if length (rb_list rb) < rb_capacity rb
      then \<exists>rb'. rb_push x rb = Inr (Inr (), rb') \<and> rb_list rb' = rb_list rb @ [x] \<and> rb_ok rb'
      else rb_is_full rb \<and> rb_push x rb = Inr (Inl PushError, rb)"
    using rb.enq_room [OF ok, of x] rb.enq_full [OF ok, of x] le
    by (auto simp: rb_capacity_def rb_is_full_def)
  show "case rb_list rb of
       [] \<Rightarrow> rb_is_empty rb \<and> rb_pop rb = Inr (None, rb)
     | y # ys \<Rightarrow> \<exists>rb'. rb_pop rb = Inr (Some y, rb') \<and> rb_list rb' = ys \<and> rb_ok rb'"
    using rb.deq_empty [OF ok] rb.deq_first [OF ok] length_rb_list [of rb]
    by (auto split: list.split simp: rb_is_empty_def simp del: length_rb_list)
qed (use rb_no_usize_overflow [OF ok] in simp_all)

lemma ring_buffer_steps_witness:
  "rb_push (9::nat) \<lparr>rb_slots = [Some 7], rb_write_idx = 0, rb_read_idx = 0, rb_size = 1, rb_len = 1\<rparr> =
     Inr (Inl PushError, \<lparr>rb_slots = [Some 7], rb_write_idx = 0, rb_read_idx = 0, rb_size = 1, rb_len = 1\<rparr>)"
proof -
  let ?rb = "\<lparr>rb_slots = [Some (7::nat)], rb_write_idx = 0, rb_read_idx = 0, rb_size = 1, rb_len = 1\<rparr>"
  have "rb_ok ?rb" by (simp add: rb_ok_def rb_slot_def isize_max_def)
  from ring_buffer_steps [OF this, of 9] show ?thesis by (simp add: rb_capacity_def)
qed

text \<open>C35: \<open>Array::from_fixed_iter\<close> with room for the array either takes exactly the first \<open>n\<close> items or
  stops because the iterator ran dry; with \<open>n = 0\<close>, which it does not exclude as \<open>Array::new\<close> does, it
  asks the allocator for zero bytes, which is undefined behaviour.\<close>

lemma array_from_iter_cases:
  assumes "0 < lay_size ty" and "layout_array ty n = Some l" and "n < isize_max"
  shows "array_from_fixed_iter oom ty n items =
    (if n = 0 then Inl UndefinedBehaviour
     else if oom l then Inl AllocAbort
     else if n \<le> length items then Inr \<lparr>arr_cells = take n items, arr_size = n\<rparr>
     else Inl UnwrapFailed)"
proof -
  have size: "lay_size l = lay_size ty * n" using layout_array_Some [OF assms(2)] by simp
  have short: "take_items k xs = Inl UnwrapFailed" if "length xs < k" for k and xs :: "'a list"
    using that by (induction k xs rule: take_items.induct) auto
  have long: "take_items n items = Inr (take n items)" if "n \<le> length items"
    using that by (simp add: outcome_simps)
  show ?thesis
    using assms size short [of items n] long
    by (simp add: array_from_fixed_iter_def alloc_or_abort_def raw_alloc_def)
qed

lemma array_from_iter_cases_witness:
  "array_from_fixed_iter (\<lambda>_. False) u32_layout 0 [1::nat] = Inl UndefinedBehaviour"
proof -
  have "0 < lay_size u32_layout" "layout_array u32_layout 0 = Some \<lparr>lay_size = 0, lay_align = 4\<rparr>"
    "0 < isize_max"
    by (simp_all add: layout_array_def isize_max_def)
  from array_from_iter_cases [OF this, of "\<lambda>_. False" "[1::nat]"] show ?thesis by simp
qed


text \<open>The buffers of an allocation that kept its contract are pairwise disjoint, each starts on the
  alignment boundary, lies inside the allocation and is what the pointer of its index reaches; an
  index out of range is an assertion failure.\<close>

lemma aligned_buffers_layout:
  assumes "aligned_new raw count buf_size alignment = Inr (Inr ab)"
    and "alloc_contract raw \<lparr>lay_size = count * buf_size, lay_align = alignment\<rparr>"
  shows "(if i < count
      then buf_ptr ab i = Inr (sl_ptr (buf_slice ab i)) \<and> buf_ptr_mut ab i = Inr (sl_ptr (buf_slice ab i)) \<and>
        alignment dvd sl_ptr (buf_slice ab i) \<and>
        slice_range (buf_slice ab i) \<subseteq> {raw ..< raw + count * buf_size}
      else buf_ptr ab i = Inl AssertFailed \<and> buf_ptr_mut ab i = Inl AssertFailed) \<and>
    (i = j \<or> slice_range (buf_slice ab i) \<inter> slice_range (buf_slice ab j) = {})"
proof -
  note ok = aligned_new_ok [OF assms]
  have "ab = \<lparr>ab_ptr = raw, ab_buf_size = buf_size, ab_count = count, ab_alignment = alignment,
      ab_total_size = count * buf_size\<rparr>"
    using assms(1) by (simp add: aligned_new_def Let_def outcome_simps checked_mul_def raw_alloc_def
        from_size_align_unchecked_def split: if_splits option.splits)
  with ok have ab: "aligned_ok ab"
    and total: "ab_total_size ab = count * buf_size" "ab_alignment ab = alignment" by simp_all
  show ?thesis
  proof (cases "i < count")
    case True
    with ok have "i < ab_count ab" by simp
    with True ok total buf_ptr_in [OF ab] buf_slice_aligned [OF ab, of i] buf_slice_inside [OF ab]
      buf_slice_disjoint [of i j ab]
    show ?thesis by auto
  next
    case False
    with ok buf_slice_disjoint [of i j ab] show ?thesis by (auto simp: buf_ptr_def buf_ptr_mut_def)
  qed
qed

lemma aligned_buffers_layout_witness:
  "buf_ptr \<lparr>ab_ptr = 8192, ab_buf_size = 4096, ab_count = 2, ab_alignment = 4096, ab_total_size = 8192\<rparr> 1 =
     Inr 12288"
proof -
  let ?ab = "\<lparr>ab_ptr = 8192, ab_buf_size = 4096, ab_count = 2, ab_alignment = 4096, ab_total_size = 8192\<rparr>"
  have "aligned_new 8192 2 4096 4096 = Inr (Inr ?ab)"
    by (simp add: aligned_new_def Let_def checked_mul_def usize_rem_def from_size_align_unchecked_def
        layout_valid_def raw_alloc_def is_power_of_two_def usize_limit_def isize_max_def)
  moreover have "alloc_contract 8192 \<lparr>lay_size = 2 * 4096, lay_align = 4096\<rparr>"
    by (simp add: alloc_contract_def usize_limit_def)
  ultimately show ?thesis
    using aligned_buffers_layout [of 8192 2 4096 4096 ?ab 1 0] by (simp add: buf_slice_def)
qed

text \<open>An allocator of one slot, for the instances.\<close>

abbreviation one_slot :: "u32 \<Rightarrow> u32 option \<Rightarrow> gen_alloc" where
  "one_slot g free \<equiv> \<lparr>ga_generation = \<lparr>arr_cells = [g], arr_size = 1\<rparr>, ga_free_list = \<lparr>rb_slots = [Some 0],
     rb_write_idx = 0, rb_read_idx = 0, rb_size = 1, rb_len = (case free of None \<Rightarrow> 0 | Some _ \<Rightarrow> 1)\<rparr>\<rparr>"

lemma one_slot_ok: "ga_ok (one_slot g free)"
  by (simp add: ga_ok_def array_ok_def rb_ok_def rb_slot_def isize_max_def ga_cap_def ga_free_def
      rb_list_def split: option.split)

lemma one_slot_live: "\<lparr>gid_index = 0, gid_generation = g\<rparr> \<in> ga_live (one_slot g None)"
  by (simp add: ga_live_def ga_cap_def ga_free_def rb_list_def ga_gen_def)

lemmas one_slot_run = gen_alloc_free_def gen_alloc_is_valid_def gen_alloc_alloc_def array_len_def
  array_index_def array_index_mut_def ptr_read_def ptr_write_def u32_add_def rb_push_def rb_pop_def
  rb_is_full_def rb_is_empty_def usize_rem_def

text \<open>C20: Whatever a client allocates and frees, in any order and any number of times, with the
  identifiers a fresh allocator gave it: no step panics (short of a full generation counter), no
  identifier is issued twice, two live identifiers never share an index, and at most as many are live
  as the allocator has slots.\<close>

lemma gen_alloc_client_safe:
  assumes "gen_alloc_new oom capacity msk = Inr ga"
  shows "table_run (\<lambda>_::unit. gen_alloc_alloc) (gen_alloc_free Checked) ops [] ga = Inl ArithOverflow \<or>
    (\<exists>ids ga'. table_run (\<lambda>_. gen_alloc_alloc) (gen_alloc_free Checked) ops [] ga = Inr (ids, ga') \<and>
       distinct ids \<and> set ids \<subseteq> ga_live ga' \<union> ga_dead ga' \<and> inj_on gid_index (ga_live ga') \<and>
       card (ga_live ga') \<le> ga_cap ga)"
proof -
  note new = gen_alloc_new_ok [OF assms]
  then have ok: "ga_ok ga" by blast
  have inj: "inj_on gid_index (ga_live ga')" if "ga_ok ga'" for ga'
    using ga.slot_inj [OF that] by (auto intro!: inj_onI simp: ga_slot_def)
  have "set [] \<subseteq> ga_live ga \<union> ga_dead ga" "distinct ([] :: gen_id list)" by simp_all
  from ga.table_run_safe [OF ok this, of ops] show ?thesis
  proof (elim disjE exE)
    fix ids ga' assume "table_run (\<lambda>_. gen_alloc_alloc) (gen_alloc_free Checked) ops [] ga =
        Inr ([] @ ids, ga') \<and> ga_ok ga' \<and> distinct ([] @ ids) \<and>
        set ([] @ ids) \<subseteq> ga_live ga' \<union> ga_dead ga' \<and> ga_dead ga \<subseteq> ga_dead ga' \<and>
        ga_live ga' \<subseteq> ga_live ga \<union> set ids \<and> ga_cap ga' = ga_cap ga"
    with inj [of ga'] ga.card_live_le [of ga'] show ?thesis
      by (intro disjI2 exI [of _ ids] exI [of _ ga']) simp
  qed simp_all
qed

lemma gen_alloc_client_safe_witness:
  "table_run (\<lambda>_::unit. gen_alloc_alloc) (gen_alloc_free Checked)
      [Acquire (), Release 0, Release 0, Acquire (), Acquire ()] [] (one_slot 0 (Some 0)) = Inl ArithOverflow \<or>
    (\<exists>ids ga'. table_run (\<lambda>_::unit. gen_alloc_alloc) (gen_alloc_free Checked)
      [Acquire (), Release 0, Release 0, Acquire (), Acquire ()] [] (one_slot 0 (Some 0)) = Inr (ids, ga') \<and>
       distinct ids \<and> set ids \<subseteq> ga_live ga' \<union> ga_dead ga' \<and> inj_on gid_index (ga_live ga') \<and>
       card (ga_live ga') \<le> ga_cap (one_slot 0 (Some 0)))"
proof -
  have "gen_alloc_new (\<lambda>_. False) 1 0 = Inr (one_slot 0 (Some 0))"
    by (simp add: gen_alloc_new_def array_new_def rb_from_fixed_iter_def rb_new_def
        layout_array_def alloc_or_abort_def raw_alloc_def isize_max_def rb_push_def rb_is_full_def
        ptr_write_def usize_rem_def)
  from gen_alloc_client_safe [OF this] show ?thesis .
qed

text \<open>An identifier that was freed is refused for ever: whatever is allocated and freed afterwards,
  it stays invalid and freeing it again answers \<open>false\<close> and changes nothing.\<close>

lemma gen_alloc_no_double_free:
  assumes ok: "ga_ok ga" and live: "gid \<in> ga_live ga"
    and free: "gen_alloc_free Checked gid ga = Inr (freed, ga1)"
    and run: "table_run (\<lambda>_::unit. gen_alloc_alloc) (gen_alloc_free Checked) ops [gid] ga1 = Inr (ids, ga2)"
  shows "freed \<and> gen_alloc_is_valid ga2 gid = Inr False \<and> gen_alloc_free Checked gid ga2 = Inr (False, ga2)"
proof -
  have "ga_ok ga1 \<and> freed \<and> gid \<in> ga_dead ga1"
    using ga.release_known [OF ok _ free] live by blast
  moreover from this ga.table_run_safe [of ga1 "[gid]" ops] run have "ga_ok ga2 \<and> ga_dead ga1 \<subseteq> ga_dead ga2"
    by auto
  ultimately show ?thesis using ga.valid_dead [of ga2 gid] ga.release_dead [of ga2 gid] by blast
qed

lemma gen_alloc_no_double_free_witness:
  "gen_alloc_free Checked \<lparr>gid_index = 0, gid_generation = 3\<rparr> (one_slot 4 None) =
     Inr (False, one_slot 4 None)"
proof -
  let ?id = "\<lparr>gid_index = 0, gid_generation = 3\<rparr>"
  have free: "gen_alloc_free Checked ?id (one_slot 3 None) = Inr (True, one_slot 4 (Some 0))"
    by (simp add: one_slot_run)
  have run: "table_run (\<lambda>_::unit. gen_alloc_alloc) (gen_alloc_free Checked) [Acquire ()] [?id]
      (one_slot 4 (Some 0)) = Inr ([?id, \<lparr>gid_index = 0, gid_generation = 4\<rparr>], one_slot 4 None)"
    by (simp add: one_slot_run)
  from gen_alloc_no_double_free [OF one_slot_ok one_slot_live free run] show ?thesis by blast
qed

text \<open>C36: The generation counter is 32 bits wide. When it is full, freeing panics in a build with
  overflow checks; without them it wraps around to zero, and a stale identifier of generation zero,
  freed long ago, names the slot again.\<close>

lemma gen_alloc_generation_wraps:
  assumes ok: "ga_ok ga" and live: "gid \<in> ga_live ga" and full: "gid_generation gid = 2 ^ 32 - 1"
  shows "gen_alloc_free Checked gid ga = Inl ArithOverflow \<and>
    (\<exists>ga'. gen_alloc_free Wrapping gid ga = Inr (True, ga') \<and>
       gen_alloc_is_valid ga' \<lparr>gid_index = gid_index gid, gid_generation = 0\<rparr> = Inr True)"
proof -
  have max: "unat (gid_generation gid) = 2 ^ 32 - 1" using full by simp
  then have checked: "u32_add Checked (gid_generation gid) 1 = Inl ArithOverflow"
    and wrapping: "u32_add Wrapping (gid_generation gid) 1 = Inr 0"
    using full by (simp_all add: u32_add_def)
  from gen_alloc_free_live [OF ok live wrapping] obtain ga' where
    ga': "gen_alloc_free Wrapping gid ga = Inr (True, ga')" "ga_ok ga'" "ga_cap ga' = ga_cap ga"
      "ga_generation ga' = ga_generation ga\<lparr>arr_cells :=
        (arr_cells (ga_generation ga))[unat (gid_index gid) := 0]\<rparr>" by blast
  have "unat (gid_index gid) < ga_cap ga" using live by (simp add: ga_live_def)
  with ga_gen_update [OF ok this ga'(4)] ga'(3) have
    "gen_alloc_is_valid ga' \<lparr>gid_index = gid_index gid, gid_generation = 0\<rparr> = Inr True"
    by (simp add: gen_alloc_is_valid_eq [OF ga'(2)])
  with ga'(1) gen_alloc_free_overflow [OF ok live checked] show ?thesis by blast
qed

lemma gen_alloc_generation_wraps_witness:
  "\<exists>ga'. gen_alloc_free Wrapping \<lparr>gid_index = 0, gid_generation = 2 ^ 32 - 1\<rparr> (one_slot (2 ^ 32 - 1) None) =
       Inr (True, ga') \<and> gen_alloc_is_valid ga' \<lparr>gid_index = 0, gid_generation = 0\<rparr> = Inr True"
  using gen_alloc_generation_wraps [OF one_slot_ok one_slot_live, of "2 ^ 32 - 1"] by simp

text \<open>Validity is only a comparison of generations: an identifier that was never issued, naming a
  slot that is still free, counts as valid; and freeing one while every slot is free panics, since the
  free list has no room for the index.\<close>

lemma gen_alloc_forged_id:
  assumes ok: "ga_ok ga" and idx: "idx \<in> set (ga_free ga)"
  shows "\<lparr>gid_index = idx, gid_generation = ga_gen ga idx\<rparr> \<notin> ga_live ga \<and>
    gen_alloc_is_valid ga \<lparr>gid_index = idx, gid_generation = ga_gen ga idx\<rparr> = Inr True \<and>
    (if ga_live ga = {}
     then \<not> (\<exists>r. gen_alloc_free pr \<lparr>gid_index = idx, gid_generation = ga_gen ga idx\<rparr> ga = Inr r)
     else True)"
proof (intro conjI)
  let ?gid = "\<lparr>gid_index = idx, gid_generation = ga_gen ga idx\<rparr>"
  have cap: "unat idx < ga_cap ga" using ok idx by (simp add: ga_ok_def)
  then show valid: "gen_alloc_is_valid ga ?gid = Inr True"
    by (simp add: gen_alloc_is_valid_eq [OF ok])
  show "?gid \<notin> ga_live ga" using idx by (simp add: ga_live_def)
  show "if ga_live ga = {} then \<not> (\<exists>r. gen_alloc_free pr ?gid ga = Inr r) else True"
  proof (cases "ga_live ga = {}")
    case True
    with ga_card_live [OF ok] have "length (ga_free ga) = ga_cap ga" by simp
    with rb.enq_full [of "ga_free_list ga" idx] ok
    have "rb_push idx (ga_free_list ga) = Inr (Inl PushError, ga_free_list ga)"
      by (simp add: ga_ok_def ga_free_def)
    with True valid show ?thesis
      by (auto simp: gen_alloc_free_def outcome_simps)
  qed simp
qed

lemma gen_alloc_forged_id_witness:
  "gen_alloc_is_valid (one_slot 5 (Some 0)) \<lparr>gid_index = 0, gid_generation = 5\<rparr> = Inr True"
proof -
  have "0 \<in> set (ga_free (one_slot 5 (Some 0)))" "ga_gen (one_slot 5 (Some 0)) 0 = 5"
    by (simp_all add: ga_free_def rb_list_def rb_slot_def ga_gen_def)
  with gen_alloc_forged_id [OF one_slot_ok, of 0 5 "Some 0"] show ?thesis by simp
qed

text \<open>C21: Two live buffer handles never alias: the code's way of writing through one of them
  (\<open>get_mut\<close>, a subslice, \<open>copy_from_slice\<close>) leaves every byte \<open>get\<close> shows through the other as it
  was, and stays inside the pool's allocation.\<close>

lemma buffer_pool_no_aliasing:
  assumes ok: "bp_ok BUF_SIZE bp" and live: "h \<in> bp_live bp" "h' \<in> bp_live bp" "h \<noteq> h'"
    and get: "buffer_pool_get_mut BUF_SIZE bp h = Inr (Some s)"
    and sub: "slice_from s off = Inr t" "slice_upto t n = Inr u" and copy: "copy_from_slice m u bs = Inr m'"
  shows "\<exists>s'. buffer_pool_get BUF_SIZE bp h' = Inr (Some s') \<and> sl_len s' = BUF_SIZE \<and>
    slice_bytes m' s' = slice_bytes m s' \<and>
    (slice_range u \<subseteq> {ab_ptr (bp_pool bp) ..< ab_ptr (bp_pool bp) + ab_total_size (bp_pool bp)})"
proof -
  have s: "s = bp_slice bp h"
    using buffer_pool_get_valid [OF ok bp.valid_live [OF ok live(1)]] get by simp
  have u: "slice_range u \<subseteq> slice_range s" "m' = store_bytes m (sl_ptr u) bs" "sl_len u = length bs"
    using sub copy by (auto simp: slice_from_def slice_upto_def copy_from_slice_def slice_range_def
        split: if_splits)
  then have "{sl_ptr u ..< sl_ptr u + length bs} \<subseteq> slice_range (bp_slice bp h)"
    by (simp add: slice_range_def s)
  with bp_slices_disjoint [OF ok live] have
    "slice_range (bp_slice bp h') \<inter> {sl_ptr u ..< sl_ptr u + length bs} = {}" by blast
  with buffer_pool_get_valid [OF ok bp.valid_live [OF ok live(2)]] bp_slice_len [OF ok, of h']
    bp_slice_inside [OF ok live(1)] u s
  show ?thesis by (auto simp: slice_bytes_store_disjoint)
qed

abbreviation two_buffers :: buffer_pool where
  "two_buffers \<equiv> \<lparr>bp_pool = \<lparr>ab_ptr = 8, ab_buf_size = 4, ab_count = 2, ab_alignment = 4, ab_total_size = 8\<rparr>,
     bp_alloc = \<lparr>ga_generation = \<lparr>arr_cells = [0, 0], arr_size = 2\<rparr>, ga_free_list = \<lparr>rb_slots = [Some 1, Some 0],
       rb_write_idx = 0, rb_read_idx = 0, rb_size = 2, rb_len = 0\<rparr>\<rparr>\<rparr>"

abbreviation first_buffer :: buffer_handle where
  "first_buffer \<equiv> BufferHandle \<lparr>gid_index = 0, gid_generation = 0\<rparr>"

abbreviation second_buffer :: buffer_handle where
  "second_buffer \<equiv> BufferHandle \<lparr>gid_index = 1, gid_generation = 0\<rparr>"

lemma two_buffers_ok: "bp_ok 4 two_buffers"
  by (simp add: bp_ok_def aligned_ok_def layout_valid_def is_power_of_two_def isize_max_def usize_limit_def
      ga_ok_def array_ok_def rb_ok_def ga_cap_def ga_free_def rb_list_def)

lemma two_buffers_live: "first_buffer \<in> bp_live two_buffers" "second_buffer \<in> bp_live two_buffers"
  by (simp_all add: bp_live_iff ga_live_def ga_cap_def ga_free_def rb_list_def ga_gen_def)

lemma buffer_pool_no_aliasing_witness:
  "\<exists>s'. buffer_pool_get 4 two_buffers second_buffer = Inr (Some s') \<and> sl_len s' = 4 \<and>
    slice_bytes (store_bytes (\<lambda>_. 0) 9 [1, 2]) s' = slice_bytes (\<lambda>_. 0) s' \<and>
    slice_range \<lparr>sl_ptr = 9, sl_len = 2\<rparr> \<subseteq>
      {ab_ptr (bp_pool two_buffers) ..< ab_ptr (bp_pool two_buffers) + ab_total_size (bp_pool two_buffers)}"
proof (rule buffer_pool_no_aliasing [OF two_buffers_ok two_buffers_live])
  show "buffer_pool_get_mut 4 two_buffers first_buffer = Inr (Some \<lparr>sl_ptr = 8, sl_len = 4\<rparr>)"
    by (simp add: buffer_pool_get_mut_def gen_alloc_is_valid_def array_len_def array_index_def
        ptr_read_def buf_ptr_mut_def ptr_add_def slice_from_raw_def)
  show "slice_from \<lparr>sl_ptr = 8, sl_len = 4\<rparr> 1 = Inr \<lparr>sl_ptr = 9, sl_len = 3\<rparr>"
    "slice_upto \<lparr>sl_ptr = 9, sl_len = 3\<rparr> 2 = Inr \<lparr>sl_ptr = 9, sl_len = 2\<rparr>"
    "copy_from_slice (\<lambda>_. 0) \<lparr>sl_ptr = 9, sl_len = 2\<rparr> [1, 2] = Inr (store_bytes (\<lambda>_. 0) 9 [1, 2])"
    by (simp_all add: slice_from_def slice_upto_def copy_from_slice_def)
qed simp



text \<open>C18: An object pool refines a finite map from identifiers to objects. \<open>get\<close> and \<open>get_mut\<close> are lookup,
  for any 64-bit handle whatsoever; \<open>spawn\<close> adds a binding for an identifier that had none, or answers
  \<open>None\<close> exactly when every slot is taken; no operation panics.\<close>

lemma object_pool_refines_map:
  assumes ok: "op_ok op"
  shows "object_pool_get op h = Inr (op_map op (handle_gid h)) \<and>
    object_pool_get_mut op h = Inr (op_map op (handle_gid h)) \<and>
    (if card (dom (op_map op)) = op_cap op then object_pool_spawn ID x op = Inr (None, op)
     else \<exists>new op'. object_pool_spawn ID x op = Inr (Some new, op') \<and> op_ok op' \<and>
       handle_pool_id new = ID \<and> op_map op (handle_gid new) = None \<and>
       op_map op' = (op_map op)(handle_gid new \<mapsto> x) \<and> op_cap op' = op_cap op)"
proof -
  have ga: "ga_ok (op_alloc op)" using ok by (simp add: op_ok_def)
  have card: "card (dom (op_map op)) + length (ga_free (op_alloc op)) = op_cap op"
    using ga_card_live [OF ga] op_live_in_dom [OF ok] by (simp add: op_cap_def)
  show ?thesis
  proof (cases "ga_free (op_alloc op)")
    case Nil
    with card object_pool_get_eq [OF ok, of h] object_pool_spawn_full [OF ok Nil, of ID x]
    show ?thesis by simp
  next
    case (Cons idx rest)
    from object_pool_spawn_room [OF ok Cons, of ID x] obtain gid op' where
      "object_pool_spawn ID x op = Inr (Some (handle_new ID gid), op')" "op_ok op'"
      "unat (gid_index gid) < 2 ^ 24" "gid \<notin> ga_live (op_alloc op)" "op_cap op' = op_cap op"
      "op_map op' = (op_map op)(gid \<mapsto> x)" by blast
    with Cons card object_pool_get_eq [OF ok, of h] show ?thesis
      by (auto simp: handle_pack_pool_id op_map_def)
  qed
qed

abbreviation one_object :: "'a option \<Rightarrow> 'a object_pool" where
  "one_object x \<equiv> \<lparr>op_data = \<lparr>arr_cells = [x], arr_size = 1\<rparr>,
     op_alloc = one_slot 0 (case x of None \<Rightarrow> Some 0 | Some _ \<Rightarrow> None)\<rparr>"

lemma one_object_ok: "op_ok (one_object x)"
proof -
  have "idx = 0" if "unat idx < 1" for idx :: u32 using that by (simp add: unat_eq_0)
  then show ?thesis
    using one_slot_ok [of 0 "Some 0"] one_slot_ok [of 0 None]
    by (cases x) (auto simp: op_ok_def array_ok_def isize_max_def op_cap_def ga_cap_def
        op_cell_def ga_free_def rb_list_def rb_slot_def)
qed

lemma object_pool_refines_map_witness:
  "object_pool_get (one_object (Some True)) (ObjectHandle 7) = Inr (op_map (one_object (Some True)) (handle_gid (ObjectHandle 7)))"
  by (rule object_pool_refines_map [OF one_object_ok, THEN conjunct1])

text \<open>C19: \<open>despawn\<close> of a handle whose object is there removes the binding and reports \<open>true\<close>, or stops
  because the slot's generation counter is full; afterwards the handle finds nothing, and despawning it
  again reports \<open>false\<close> and changes nothing.\<close>

lemma object_pool_despawn_refines_map:
  assumes ok: "op_ok op" and present: "op_map op (handle_gid h) = Some x"
  shows "object_pool_despawn Checked h op = Inl ArithOverflow \<or>
    (\<exists>op'. object_pool_despawn Checked h op = Inr (True, op') \<and> op_ok op' \<and>
       op_map op' = (op_map op)(handle_gid h := None) \<and> object_pool_get op' h = Inr None \<and>
       object_pool_despawn Checked h op' = Inr (False, op'))"
proof -
  have "handle_gid h \<in> ga_live (op_alloc op)" using present by (simp add: op_map_def split: if_splits)
  from object_pool_despawn_live [OF ok this] show ?thesis
  proof (elim disjE exE)
    fix op' assume op': "object_pool_despawn Checked h op = Inr (True, op') \<and> op_ok op' \<and>
        ga_live (op_alloc op') = ga_live (op_alloc op) - {handle_gid h} \<and>
        ga_dead (op_alloc op') = insert (handle_gid h) (ga_dead (op_alloc op)) \<and>
        op_cap op' = op_cap op \<and> op_map op' = (op_map op)(handle_gid h := None)"
    with object_pool_get_eq [of op' h] object_pool_despawn_dead [of op' h] show ?thesis by auto
  qed simp
qed

lemma object_pool_despawn_refines_map_witness:
  "\<exists>op'. object_pool_despawn Checked (handle_new 2 \<lparr>gid_index = 0, gid_generation = 0\<rparr>) (one_object (Some True)) =
     Inr (True, op') \<and> op_map op' = Map.empty"
proof -
  let ?h = "handle_new 2 \<lparr>gid_index = 0, gid_generation = 0\<rparr>" and ?op = "one_object (Some True)"
  have h: "handle_gid ?h = \<lparr>gid_index = 0, gid_generation = 0\<rparr>" by simp
  have map: "op_map ?op = [\<lparr>gid_index = 0, gid_generation = 0\<rparr> \<mapsto> True]"
    by (auto simp: op_map_def ga_live_def ga_cap_def ga_free_def rb_list_def ga_gen_def op_cell_def fun_eq_iff
        unat_eq_0 intro!: gen_id.equality)
  obtain op'' where run: "object_pool_despawn Checked ?h ?op = Inr (True, op'')"
    by (simp add: object_pool_despawn_def h one_slot_run handle_pack_index)
  from map have "op_map ?op (handle_gid ?h) = Some True" by (simp add: h)
  from object_pool_despawn_refines_map [OF one_object_ok this] run map h show ?thesis by auto
qed

text \<open>Over the whole life of a fresh object pool no 64-bit handle is issued twice: whatever is
  spawned and despawned, the handles given out are distinct, all carry the pool's identifier, and each
  is either live or dead for good.\<close>

lemma object_pool_handles_unique:
  assumes "object_pool_new oom ty capacity = Inr op"
  shows "table_run (object_pool_spawn ID) (object_pool_despawn Checked) ops [] op = Inl ArithOverflow \<or>
    (\<exists>hs op'. table_run (object_pool_spawn ID) (object_pool_despawn Checked) ops [] op = Inr (hs, op') \<and>
       op_ok op' \<and> distinct hs \<and> handle_pool_id ` set hs \<subseteq> {ID} \<and> set hs \<subseteq> op_live ID op' \<union> op_dead ID op')"
proof -
  have ok: "op_ok op" using object_pool_new_ok [OF assms] by blast
  have "set [] \<subseteq> op_live ID op \<union> op_dead ID op" "distinct ([] :: object_handle list)" by simp_all
  from op.table_run_safe [OF ok this, of ops] show ?thesis
  proof (elim disjE exE)
    fix hs op' assume "table_run (object_pool_spawn ID) (object_pool_despawn Checked) ops [] op =
        Inr ([] @ hs, op') \<and> op_ok op' \<and> distinct ([] @ hs) \<and>
        set ([] @ hs) \<subseteq> op_live ID op' \<union> op_dead ID op' \<and> op_dead ID op \<subseteq> op_dead ID op' \<and>
        op_live ID op' \<subseteq> op_live ID op \<union> set hs \<and> op_cap op' = op_cap op"
    then show ?thesis
      by (intro disjI2 exI [of _ hs] exI [of _ op']) (auto simp: op_live_def op_dead_def)
  qed simp
qed

lemma object_pool_handles_unique_witness:
  "table_run (object_pool_spawn 2) (object_pool_despawn Checked) [Acquire True, Release 0, Acquire False]
      [] (one_object None) = Inl ArithOverflow \<or>
    (\<exists>hs op'. table_run (object_pool_spawn 2) (object_pool_despawn Checked)
        [Acquire True, Release 0, Acquire False] [] (one_object None) = Inr (hs, op') \<and>
       op_ok op' \<and> distinct hs \<and> handle_pool_id ` set hs \<subseteq> {2} \<and> set hs \<subseteq> op_live 2 op' \<union> op_dead 2 op')"
proof -
  have "object_pool_new (\<lambda>_. False) u32_layout 1 = Inr (one_object None)"
    by (simp add: object_pool_new_def array_new_with_fn_def gen_alloc_new_def array_new_def
        rb_from_fixed_iter_def rb_new_def layout_array_def alloc_or_abort_def raw_alloc_def
        isize_max_def rb_push_def rb_is_full_def ptr_write_def usize_rem_def)
  from object_pool_handles_unique [OF this] show ?thesis .
qed

text \<open>C30: The 64-bit handle encoding is lossless: packing an identifier whose index fits 24 bits and
  reading the three fields gives back the pool, the index and the generation; every 64-bit value is the
  packing of its own fields; and a handle survives the trip through the \<open>u64\<close> user data of a request.\<close>

lemma object_handle_roundtrip:
  assumes "unat (gid_index gid) < 2 ^ 24"
  shows "handle_pool_id (handle_new ID gid) = ID \<and> handle_index (handle_new ID gid) = gid_index gid \<and>
    handle_generation (handle_new ID gid) = gid_generation gid \<and>
    handle_new (handle_pool_id h) \<lparr>gid_index = handle_index h, gid_generation = handle_generation h\<rparr> = h \<and>
    handle_from_u64 (handle_into_u64 h) = h \<and> handle_into_u64 (handle_from_u64 v) = v"
  using handle_pack_pool_id [OF assms] handle_pack_index [OF assms] handle_pack_generation [of ID gid]
    handle_unpack [of h]
  by (simp add: handle_gid_def handle_from_u64_def handle_into_u64_def)

lemma object_handle_roundtrip_witness:
  "handle_index (handle_new 2 \<lparr>gid_index = 99, gid_generation = 7\<rparr>) = 99"
proof -
  have "unat (gid_index \<lparr>gid_index = 99, gid_generation = 7\<rparr>) < 2 ^ 24" by simp
  from object_handle_roundtrip [OF this] show ?thesis by simp
qed

text \<open>C37: The capacity of an object pool is silently cut down by the 24-bit index mask with a bitwise
  AND, while \<open>capacity()\<close> goes on reporting the number asked for: the two agree exactly for requests
  of at most 24 bits, and a request for a multiple of 2^24 slots does not give a pool at all.\<close>

lemma object_pool_capacity_masked:
  assumes new: "object_pool_new oom ty capacity = Inr op"
  shows "object_pool_capacity op = capacity \<and> op_cap op = unat (take_bit 24 capacity) \<and>
    (op_cap op = unat (object_pool_capacity op) \<longleftrightarrow> unat capacity < 2 ^ 24) \<and>
    unat capacity mod 2 ^ 24 \<noteq> 0"
proof -
  note ok = object_pool_new_ok [OF new]
  have cap: "object_pool_capacity op = capacity"
    using ok by (simp add: object_pool_capacity_def array_len_def)
  have masked: "op_cap op = unat (take_bit 24 capacity)"
    using ok by (simp only: POOL_MASK_eq take_bit_eq_mask)
  then have "op_cap op = take_bit 24 (unat capacity)" by (simp only: unsigned_take_bit_eq)
  then have rem: "op_cap op = unat capacity mod 2 ^ 24" by (simp only: take_bit_eq_mod)
  then have "op_cap op = unat capacity \<longleftrightarrow> unat capacity < 2 ^ 24"
    by (metis mod_less mod_less_divisor zero_less_numeral zero_less_power)
  moreover have "0 < op_cap op"
  proof -
    from new obtain ga where "gen_alloc_new oom capacity POOL_MASK = Inr ga" "op_alloc op = ga"
      by (auto simp: object_pool_new_def outcome_simps)
    then have "rb_ok (ga_free_list ga)" "rb_size (ga_free_list ga) = ga_cap ga" "ga_cap ga = op_cap op"
      using ok by (auto simp: op_ok_def ga_ok_def op_cap_def)
    then show ?thesis by (simp add: rb_ok_def)
  qed
  ultimately show ?thesis using cap masked rem by simp
qed

lemma object_pool_capacity_masked_witness:
  "object_pool_capacity (one_object (None :: bool option)) = 1"
proof -
  have "object_pool_new (\<lambda>_. False) u32_layout 1 = Inr (one_object (None :: bool option))"
    by (simp add: object_pool_new_def array_new_with_fn_def gen_alloc_new_def array_new_def
        rb_from_fixed_iter_def rb_new_def layout_array_def alloc_or_abort_def raw_alloc_def
        isize_max_def rb_push_def rb_is_full_def ptr_write_def usize_rem_def)
  from object_pool_capacity_masked [OF this] show ?thesis by blast
qed

end
