(* ===== verification/Error_Properties.thy ===== *)
theory Error_Properties
  imports Errors
begin

text \<open>The property of the error constants.\<close>

text \<open>The error constants name distinct codes by distinct names, save for the two documented synonyms,
  and converting the negated code a system call returns gives the constant back.\<close>

lemma errno_constants:
  "distinct (map fst errno_table) \<and>
   distinct (map snd (filter (\<lambda>(n, _). n \<noteq> ''EWOULDBLOCK'' \<and> n \<noteq> ''EDEADLOCK'') errno_table)) \<and>
   list_all (\<lambda>(_, e). from_raw_syscall_error Checked (- errno_val e) = Inr e \<and> 0 < sint (errno_val e)) errno_table"
proof (intro conjI)
  show "distinct (map fst errno_table)" by (simp add: errno_table_def)
  show "distinct (map snd (filter (\<lambda>(n, _). n \<noteq> ''EWOULDBLOCK'' \<and> n \<noteq> ''EDEADLOCK'') errno_table))"
    by (simp add: errno_table_def)
  show "list_all (\<lambda>(_, e). from_raw_syscall_error Checked (- errno_val e) = Inr e \<and> 0 < sint (errno_val e)) errno_table"
    by (simp add: errno_table_def from_raw_syscall_error_def i32_neg_def)
qed

end
