(* ===== verification/Log_Progress.thy ===== *)
theory Log_Progress
  imports Logger_Calls
begin

text \<open>
  Progress of the log queue with one producer thread. A thread that runs alone, and whose
  compare-exchanges do not fail spuriously, finishes its call in a bounded number of steps: the ranks
  count them. The producer needs nobody; the consumer needs the writer bit to be clear.
\<close>

fun prank :: "logger \<Rightarrow> ppc \<Rightarrow> nat" where
  "prank lg (PLoad data) = 6"
| "prank lg (PCas data curr_state) = (if lg_state lg = curr_state then 5 else 7)"
| "prank lg (POffset data idx) = 4"
| "prank lg (PCopy data idx offset) = 3"
| "prank lg (PAdd data idx) = 2"
| "prank lg (PReject idx) = 1"
| "prank lg (PRelease idx) = 1"
| "prank lg _ = 0"

fun crank :: "logger \<Rightarrow> cpc \<Rightarrow> nat" where
  "crank lg CLoad = 5"
| "crank lg (CCas curr_state) = (if lg_state lg = curr_state then 4 else 6)"
| "crank lg (COffset idx) = 3"
| "crank lg (CRead idx offset) = 2"
| "crank lg (CReset idx) = 1"
| "crank lg _ = 0"

lemma prank_bound: "prank lg pc \<le> 7"
  by (cases pc) simp_all

lemma crank_bound: "crank lg cc \<le> 6"
  by (cases cc) simp_all

lemma prank_zero: "prank lg pc = 0 \<Longrightarrow> p_holds pc = None \<and> (pc = PIdle \<or> (\<exists>r. pc = PDone r))"
  by (cases pc) (simp_all split: if_splits)

lemma crank_zero: "crank lg cc = 0 \<Longrightarrow> c_holds cc = None \<and> (cc = CIdle \<or> cc = CDone)"
  by (cases cc) (simp_all split: if_splits)

lemma producer_step_rank:
  "producer_step p True lg m pc = Inr (lg', m', pc') \<Longrightarrow> prank lg' pc' \<le> prank lg pc - 1"
  by (cases pc) (auto simp: outcome_simps Let_def split: if_splits option.splits)

lemma consumer_step_rank:
  "consumer_step True lg m cc = Inr (lg', cc', cb) \<Longrightarrow> lg_state lg AND WRITER_BIT = 0 \<Longrightarrow>
     crank lg' cc' \<le> crank lg cc - 1"
  by (cases cc) (auto simp: outcome_simps Let_def split: if_splits)


section \<open>A thread on its own\<close>

lemma produce_alone:
  assumes "log_inv p s" and "ls_prods s = [pc]" and "prank (ls_logger s) pc \<le> n"
  shows "\<exists>s' pc'. log_acts p (replicate n (Produce 0 True)) s = Inr s' \<and> log_inv p s' \<and>
    ls_prods s' = [pc'] \<and> prank (ls_logger s') pc' = 0"
  using assms
proof (induction n arbitrary: s pc)
  case (Suc n)
  from log_act_inv [OF Suc.prems(1), of "Produce 0 True"] obtain s1 where
    s1: "log_act p (Produce 0 True) s = Inr s1" "log_inv p s1" by blast
  with Suc.prems(2) obtain lg m pc1 where
    "producer_step p True (ls_logger s) (ls_mem s) pc = Inr (lg, m, pc1)" "ls_prods s1 = [pc1]" "ls_logger s1 = lg"
    by (auto simp: outcome_simps)
  moreover from this Suc.prems(3) have "prank (ls_logger s1) pc1 \<le> n"
    using producer_step_rank by fastforce
  ultimately show ?case using Suc.IH [OF s1(2)] s1(1) by simp
qed auto

lemma drain_alone:
  assumes "log_inv p s" and "ls_prods s = [pc]" and "p_holds pc = None" and "crank (ls_logger s) (ls_cons s) \<le> n"
  shows "\<exists>s'. log_acts p (replicate n (Drain True)) s = Inr s' \<and> log_inv p s' \<and> ls_prods s' = [pc] \<and>
    crank (ls_logger s') (ls_cons s') = 0"
  using assms
proof (induction n arbitrary: s)
  case (Suc n)
  from Suc.prems(1-3) obtain a where "a < 2" "lg_state (ls_logger s) = of_nat a"
    by (auto simp: log_inv_def log_parts_def)
  then have free: "lg_state (ls_logger s) AND WRITER_BIT = 0" unfolding below_2 by auto
  from log_act_inv [OF Suc.prems(1), of "Drain True"] obtain s1 where
    s1: "log_act p (Drain True) s = Inr s1" "log_inv p s1" by blast
  then obtain lg cc cb where
    "consumer_step True (ls_logger s) (ls_mem s) (ls_cons s) = Inr (lg, cc, cb)" "ls_prods s1 = ls_prods s"
    "ls_logger s1 = lg" "ls_cons s1 = cc"
    by (auto simp: outcome_simps)
  moreover from this Suc.prems(4) have "crank (ls_logger s1) (ls_cons s1) \<le> n"
    using consumer_step_rank [OF _ free] by fastforce
  ultimately show ?case using Suc.IH [OF s1(2)] Suc.prems(2,3) s1(1) by simp
qed auto


section \<open>A whole call of the consumer\<close>

lemma consumer_run_out:
  "consumer_run n lg m cc out =
     andThen (consumer_run n lg m cc []) (\<lambda>(lg, cc, cb). Inr (lg, cc, out @ cb))"
proof (induction n arbitrary: lg cc out)
  case (Suc n)
  show ?case
  proof (cases "consumer_step True lg m cc")
    case (Inr x)
    obtain lg' cc' cb where x: "x = (lg', cc', cb)" by (cases x)
    show ?thesis
      using Suc.IH [of lg' cc' "out @ cb"] Suc.IH [of lg' cc' cb]
      by (cases "consumer_run n lg' m cc' []") (auto simp: Inr x)
  qed simp
qed simp

lemma drain_run:
  "log_acts p (replicate n (Drain True)) s =
     andThen (consumer_run n (ls_logger s) (ls_mem s) (ls_cons s) (ls_out s)) (\<lambda>(lg, cc, out).
     Inr (s\<lparr>ls_logger := lg, ls_cons := cc, ls_out := out\<rparr>))"
proof (induction n arbitrary: s)
  case (Suc n)
  then show ?case
    by (cases "consumer_step True (ls_logger s) (ls_mem s) (ls_cons s)") auto
qed simp

lemma consume_rest_acts:
  assumes rest: "log_rest p a (ls_logger s)" and load: "ls_cons s = CLoad"
  shows "\<exists>s'. log_acts p (replicate 6 (Drain True)) s = Inr s' \<and> ls_prods s' = ls_prods s \<and>
    ls_pushed s' = ls_pushed s \<and> ls_cons s' = CDone \<and>
    concat (ls_out s') = concat (ls_out s) @ log_waiting a (ls_logger s, ls_mem s)"
proof -
  let ?w = "log_waiting a (ls_logger s, ls_mem s)"
  from consumer_consume_rest [OF rest, of "ls_mem s"] obtain lg' where
    "consumer_consume (ls_logger s, ls_mem s) = Inr (if ?w = [] then [] else [?w], lg', ls_mem s)" by blast
  then obtain lg cc out where "consumer_run 6 (ls_logger s) (ls_mem s) CLoad [] = Inr (lg, cc, out)"
    "(case cc of CDone \<Rightarrow> Inr (out, lg, snd (ls_logger s, ls_mem s)) | _ \<Rightarrow> Inl Unreachable) =
      Inr (if ?w = [] then [] else [?w], lg', ls_mem s)"
    by (auto simp: consumer_consume_def andThen_eq_Inr)
  then have "consumer_run 6 (ls_logger s) (ls_mem s) CLoad [] = Inr (lg', CDone, if ?w = [] then [] else [?w])"
    by (cases cc) auto
  then have "consumer_run 6 (ls_logger s) (ls_mem s) CLoad (ls_out s) =
      Inr (lg', CDone, ls_out s @ (if ?w = [] then [] else [?w]))"
    by (simp add: consumer_run_out [of 6 _ _ _ "ls_out s"])
  then show ?thesis using load by (simp add: drain_run del: replicate_numeral_eq)
qed


section \<open>Delivery\<close>

text \<open>
  Let the producer finish, the consumer finish, and the consumer call once more: everything that was
  ever committed has been delivered.
\<close>

abbreviation log_settle :: "log_action list" where
  "log_settle \<equiv> replicate 7 (Produce 0 True) @ replicate 6 (Drain True) @ [Drained, Consume] @
     replicate 6 (Drain True)"

lemma log_acts_append: "log_acts p (as @ bs) s = andThen (log_acts p as s) (log_acts p bs)"
proof (induction "as" arbitrary: s)
  case (Cons a "as")
  then show ?case by (cases "log_act p a s") simp_all
qed simp

lemma log_settles:
  assumes inv: "log_inv p s"
  shows "\<exists>s' pc. log_acts p log_settle s = Inr s' \<and> ls_prods s' = [pc] \<and> (pc = PIdle \<or> (\<exists>r. pc = PDone r)) \<and>
    ls_cons s' = CDone \<and> concat (ls_out s') = concat (ls_pushed s')"
proof -
  obtain pc0 where "ls_prods s = [pc0]" using inv by (auto simp: log_inv_def)
  from produce_alone [OF inv this prank_bound] obtain s1 pc where
    s1: "log_acts p (replicate 7 (Produce 0 True)) s = Inr s1" "log_inv p s1" "ls_prods s1 = [pc]"
      "prank (ls_logger s1) pc = 0" by blast
  note pc = prank_zero [OF s1(4)]
  from drain_alone [OF s1(2,3) conjunct1 [OF pc] crank_bound] obtain s2 where
    s2: "log_acts p (replicate 6 (Drain True)) s1 = Inr s2" "log_inv p s2" "ls_prods s2 = [pc]"
      "crank (ls_logger s2) (ls_cons s2) = 0" by blast
  note cc = crank_zero [OF s2(4)]
  let ?s3 = "s2\<lparr>ls_cons := CLoad\<rparr>"
  have s3: "log_acts p (Drained # Consume # acts) s2 = log_acts p acts ?s3" for acts using cc by auto
  from s2(2,3) pc cc obtain a where
    "log_rest p a (ls_logger ?s3)" "concat (ls_pushed s2) = concat (ls_out s2) @ log_waiting a (ls_logger s2, ls_mem s2)"
    by (auto simp: log_inv_def log_parts_def log_rest_def log_waiting_def)
  with consume_rest_acts [of p a ?s3] obtain s4 where
    "log_acts p (replicate 6 (Drain True)) ?s3 = Inr s4" "ls_prods s4 = [pc]" "ls_cons s4 = CDone"
    "concat (ls_out s4) = concat (ls_pushed s4)"
    using s2(3) by auto
  with s1(1) s2(1) s3 pc show ?thesis
    by (auto simp: log_acts_append simp del: replicate_numeral_eq log_acts.simps)
qed

end
