(* ===== verification/Log_Properties.thy ===== *)
theory Log_Properties
  imports Log_Progress
begin

text \<open>The properties of the logging crate: the concurrent queue, its panic flush and the log macros.\<close>

lemma log_reach_start:
  assumes "logger_new raw0 raw1 n = Inr (Inr (p, lg))"
    and "alloc_contract raw0 \<lparr>lay_size = n, lay_align = 0x1000\<rparr>"
    and "alloc_contract raw1 \<lparr>lay_size = n, lay_align = 0x1000\<rparr>"
    and "{raw0 ..< raw0 + n} \<inter> {raw1 ..< raw1 + n} = {}"
    and reach: "log_reach p (log_start 1 m lg) s"
  obtains a pc where "ls_prods s = [pc]" "a < 2" "unat (lg_state (ls_logger s) AND INDEX_MASK) = a"
    "log_parts p a (ls_logger s) (ls_mem s) pc (ls_cons s) (ls_out s) (ls_pushed s)"
proof -
  from logger_new_rest [OF assms(1-4)] have "log_inv p (log_start 1 m lg)"
    by (intro log_start_inv) (auto simp: log_rest_def)
  from log_reach_inv [OF reach this] obtain a pc where
    s: "ls_prods s = [pc]" "log_parts p a (ls_logger s) (ls_mem s) pc (ls_cons s) (ls_out s) (ls_pushed s)"
    by (auto simp: log_inv_def)
  then have "a < 2" "lg_state (ls_logger s) = (if p_holds pc = None then 0 else WRITER_BIT) OR of_nat a"
    by (simp_all add: log_parts_def)
  then have "unat (lg_state (ls_logger s) AND INDEX_MASK) = a"
    by (cases "p_holds pc") simp_all
  with s \<open>a < 2\<close> that show thesis by blast
qed

text \<open>A logger of the smallest size, for the instances.\<close>

abbreviation demo_producer :: producer where "demo_producer \<equiv> \<lparr>pr_buf_size = 4096\<rparr>"

abbreviation demo_log_buf :: "addr \<Rightarrow> aligned_buffers" where
  "demo_log_buf a \<equiv> \<lparr>ab_ptr = a, ab_buf_size = 4096, ab_count = 1, ab_alignment = 4096, ab_total_size = 4096\<rparr>"

abbreviation demo_logger :: logger where
  "demo_logger \<equiv> \<lparr>lg_bufs = [demo_log_buf 4096, demo_log_buf 8192], lg_offsets = [0, 0], lg_state = 0\<rparr>"

lemma demo_logger_new:
  "logger_new 4096 8192 4096 = Inr (Inr (demo_producer, demo_logger))"
  "alloc_contract 4096 \<lparr>lay_size = 4096, lay_align = 0x1000\<rparr>"
  "alloc_contract 8192 \<lparr>lay_size = 4096, lay_align = 0x1000\<rparr>"
  "{4096 ..< 4096 + 4096} \<inter> {8192 ..< 8192 + 4096 :: nat} = {}"
  by (simp_all add: logger_new_def aligned_new_def Let_def checked_mul_def usize_rem_def
      from_size_align_unchecked_def layout_valid_def raw_alloc_def is_power_of_two_def usize_limit_def
      isize_max_def alloc_contract_def)

lemmas log_run = log_start_def logger_offset_def logger_set_offset_def logger_buf_def producer_copy_def
  buf_ptr_def buf_ptr_mut_def ptr_add_def slice_from_raw_def slice_from_def slice_upto_def
  copy_from_slice_def checked_add_def usize_limit_def Let_def

text \<open>C6: With one producer thread and the consumer thread, in every interleaving, nothing logged is
  lost, duplicated or reordered: the bytes of the records committed so far are exactly those delivered
  to the consumer's callback, followed by those it is draining, followed by those waiting in the active
  buffer.\<close>

lemma log_delivers_in_order:
  assumes "logger_new raw0 raw1 n = Inr (Inr (p, lg))"
    and "alloc_contract raw0 \<lparr>lay_size = n, lay_align = 0x1000\<rparr>"
    and "alloc_contract raw1 \<lparr>lay_size = n, lay_align = 0x1000\<rparr>"
    and "{raw0 ..< raw0 + n} \<inter> {raw1 ..< raw1 + n} = {}"
    and "log_reach p (log_start 1 m lg) s"
  shows "concat (ls_pushed s) = concat (ls_out s) @ c_pending (ls_logger s) (ls_mem s) (ls_cons s) @
    log_content (ls_logger s) (ls_mem s) (unat (lg_state (ls_logger s) AND INDEX_MASK))"
  by (rule log_reach_start [OF assms]) (simp add: log_parts_def)

lemma log_delivers_in_order_witness:
  "\<exists>s. log_acts demo_producer [Push 0 [7, 8], Produce 0 True, Produce 0 True, Produce 0 True, Produce 0 True,
       Produce 0 True, Consume, Produce 0 True, Drain True, Drain True] (log_start 1 (\<lambda>_. 0) demo_logger) = Inr s \<and>
     ls_pushed s = [[7, 8]] \<and>
     concat (ls_pushed s) = concat (ls_out s) @ c_pending (ls_logger s) (ls_mem s) (ls_cons s) @
       log_content (ls_logger s) (ls_mem s) (unat (lg_state (ls_logger s) AND INDEX_MASK))"
proof -
  obtain s where run: "log_acts demo_producer [Push 0 [7, 8], Produce 0 True, Produce 0 True, Produce 0 True,
       Produce 0 True, Produce 0 True, Consume, Produce 0 True, Drain True, Drain True]
       (log_start 1 (\<lambda>_. 0) demo_logger) = Inr s" "ls_pushed s = [[7, 8]]"
    by (simp add: log_run)
  from log_delivers_in_order [OF demo_logger_new log_acts_reach [OF log_reach.start run(1)]] run
  show ?thesis by blast
qed

text \<open>C13: With one producer thread, in every interleaving, the producer and the consumer never hold the
  same buffer, the writer bit is set exactly while the producer holds one, and no step of either panics
  or reaches outside a buffer.\<close>

lemma log_mutual_exclusion:
  assumes "logger_new raw0 raw1 n = Inr (Inr (p, lg))"
    and "alloc_contract raw0 \<lparr>lay_size = n, lay_align = 0x1000\<rparr>"
    and "alloc_contract raw1 \<lparr>lay_size = n, lay_align = 0x1000\<rparr>"
    and "{raw0 ..< raw0 + n} \<inter> {raw1 ..< raw1 + n} = {}"
    and "log_reach p (log_start 1 m lg) s"
  shows "(\<exists>pc. ls_prods s = [pc] \<and>
      (case p_holds pc of None \<Rightarrow> lg_state (ls_logger s) AND WRITER_BIT = 0
       | Some i \<Rightarrow> lg_state (ls_logger s) AND WRITER_BIT = WRITER_BIT \<and> c_holds (ls_cons s) \<noteq> Some i)) \<and>
    (\<exists>s'. log_act p act s = Inr s')"
proof (rule log_reach_start [OF assms])
  fix a pc assume s: "ls_prods s = [pc]" "a < 2"
    "log_parts p a (ls_logger s) (ls_mem s) pc (ls_cons s) (ls_out s) (ls_pushed s)"
  then have "log_inv p s" by (auto simp: log_inv_def)
  from log_act_inv [OF this, of act] have step: "\<exists>s'. log_act p act s = Inr s'" by blast
  have "1 - a \<noteq> a" using s(2) by presburger
  with s step show ?thesis
    by (cases "p_holds pc") (auto simp: log_parts_def)
qed

lemma log_mutual_exclusion_witness:
  "\<exists>s s'. log_acts demo_producer [Push 0 [7], Produce 0 True, Produce 0 True, Consume]
       (log_start 1 (\<lambda>_. 0) demo_logger) = Inr s \<and> lg_state (ls_logger s) = WRITER_BIT \<and>
     log_act demo_producer (Drain True) s = Inr s'"
proof -
  obtain s where run: "log_acts demo_producer [Push 0 [7], Produce 0 True, Produce 0 True, Consume]
      (log_start 1 (\<lambda>_. 0) demo_logger) = Inr s" "lg_state (ls_logger s) = WRITER_BIT"
    by (simp add: log_run)
  from log_mutual_exclusion [OF demo_logger_new log_acts_reach [OF log_reach.start run(1)], of "Drain True"] run
  show ?thesis by blast
qed

text \<open>C9: Nobody waits for ever and nothing stays behind. From every reachable state with one producer
  thread, seven steps of the producer alone end its call of \<open>push\<close>; six of the consumer then end its call
  of \<open>consume\<close>; and after one more call of \<open>consume\<close> every byte ever committed has been delivered.\<close>

lemma log_progress:
  assumes "logger_new raw0 raw1 n = Inr (Inr (p, lg))"
    and "alloc_contract raw0 \<lparr>lay_size = n, lay_align = 0x1000\<rparr>"
    and "alloc_contract raw1 \<lparr>lay_size = n, lay_align = 0x1000\<rparr>"
    and "{raw0 ..< raw0 + n} \<inter> {raw1 ..< raw1 + n} = {}"
    and "log_reach p (log_start 1 m lg) s"
  shows "\<exists>s' pc. log_acts p (replicate 7 (Produce 0 True) @ replicate 6 (Drain True) @ [Drained, Consume] @
      replicate 6 (Drain True)) s = Inr s' \<and>
    ls_prods s' = [pc] \<and> (pc = PIdle \<or> (\<exists>r. pc = PDone r)) \<and> ls_cons s' = CDone \<and>
    concat (ls_out s') = concat (ls_pushed s')"
proof (rule log_reach_start [OF assms])
  fix a pc assume "ls_prods s = [pc]" "log_parts p a (ls_logger s) (ls_mem s) pc (ls_cons s) (ls_out s) (ls_pushed s)"
  then have "log_inv p s" by (auto simp: log_inv_def)
  then show ?thesis by (rule log_settles)
qed

lemma log_progress_witness:
  "\<exists>s s'. log_acts demo_producer [Push 0 [7, 8], Consume, Produce 0 True, Drain True, Produce 0 True]
       (log_start 1 (\<lambda>_. 0) demo_logger) = Inr s \<and> ls_out s = [] \<and> ls_pushed s = [] \<and>
     log_acts demo_producer (replicate 7 (Produce 0 True) @ replicate 6 (Drain True) @ [Drained, Consume] @
       replicate 6 (Drain True)) s = Inr s' \<and> concat (ls_out s') = concat (ls_pushed s')"
proof -
  obtain s where run: "log_acts demo_producer [Push 0 [7, 8], Consume, Produce 0 True, Drain True, Produce 0 True]
      (log_start 1 (\<lambda>_. 0) demo_logger) = Inr s" "ls_out s = []" "ls_pushed s = []"
    by (simp add: log_run)
  from log_progress [OF demo_logger_new log_acts_reach [OF log_reach.start run(1)]] run
  show ?thesis by blast
qed

text \<open>C33: With a second producer thread the queue breaks, because a producer's compare-exchange also
  succeeds while the writer bit is set. There are runs of a fresh queue in which both calls of \<open>push\<close>
  succeed but the first record is overwritten and a byte that was never written is published in its
  place; and runs in which the consumer reads a buffer a producer is copying into.\<close>

lemma log_two_producers:
  "logger_new 4096 8192 4096 = Inr (Inr (demo_producer, demo_logger)) \<and>
   (\<exists>s. log_reach demo_producer (log_start 2 m demo_logger) s \<and>
      ls_prods s = [PDone (Inr ()), PDone (Inr ())] \<and> ls_pushed s = [[1], [2]] \<and>
      log_content (ls_logger s) (ls_mem s) 0 = [2, m 4097]) \<and>
   (\<exists>s. log_reach demo_producer (log_start 2 m demo_logger) s \<and>
      ls_prods s ! 0 = PCopy [1] 0 0 \<and> ls_cons s = CRead 0 1)"
proof (intro conjI)
  show "logger_new 4096 8192 4096 = Inr (Inr (demo_producer, demo_logger))" by (rule demo_logger_new)
  let ?both = "[Push 0 [1], Push 1 [2], Produce 0 True, Produce 0 True, Produce 0 True,
    Produce 1 True, Produce 1 True, Produce 1 True]"
  obtain s where "log_acts demo_producer (?both @ [Produce 0 True, Produce 1 True, Produce 0 True,
      Produce 1 True, Produce 0 True, Produce 1 True]) (log_start 2 m demo_logger) = Inr s"
    "ls_prods s = [PDone (Inr ()), PDone (Inr ())]" "ls_pushed s = [[1], [2]]"
    "log_content (ls_logger s) (ls_mem s) 0 = [2, m 4097]"
    by (simp add: log_run log_content_def log_ptr_def slice_bytes_def store_bytes_def upt_rec)
  then show "\<exists>s. log_reach demo_producer (log_start 2 m demo_logger) s \<and>
      ls_prods s = [PDone (Inr ()), PDone (Inr ())] \<and> ls_pushed s = [[1], [2]] \<and>
      log_content (ls_logger s) (ls_mem s) 0 = [2, m 4097]"
    using log_acts_reach [OF log_reach.start] by blast
  obtain t where "log_acts demo_producer (?both @ [Produce 1 True, Produce 1 True, Produce 1 True,
      Consume, Drain True, Drain True, Drain True]) (log_start 2 m demo_logger) = Inr t"
    "ls_prods t ! 0 = PCopy [1] 0 0" "ls_cons t = CRead 0 1"
    by (simp add: log_run)
  then show "\<exists>s. log_reach demo_producer (log_start 2 m demo_logger) s \<and>
      ls_prods s ! 0 = PCopy [1] 0 0 \<and> ls_cons s = CRead 0 1"
    using log_acts_reach [OF log_reach.start] by blast
qed

text \<open>C32: \<open>panic_flush\<close> never faults, at any moment of the producer's and consumer's run, and hands out
  the contents of the two buffers in index order. Unless the consumer is in the middle of a drain these
  are exactly the records not yet delivered.\<close>

lemma log_panic_flush:
  assumes "logger_new raw0 raw1 n = Inr (Inr (p, lg))"
    and "alloc_contract raw0 \<lparr>lay_size = n, lay_align = 0x1000\<rparr>"
    and "alloc_contract raw1 \<lparr>lay_size = n, lay_align = 0x1000\<rparr>"
    and "{raw0 ..< raw0 + n} \<inter> {raw1 ..< raw1 + n} = {}"
    and "log_reach p (log_start 1 m lg) s"
  shows "\<exists>out. panic_flush (ls_logger s) (ls_mem s) = Inr out \<and>
    concat out = log_content (ls_logger s) (ls_mem s) 0 @ log_content (ls_logger s) (ls_mem s) 1 \<and>
    (if c_holds (ls_cons s) = None then concat (ls_pushed s) = concat (ls_out s) @ concat out else True)"
proof (rule log_reach_start [OF assms])
  fix a pc assume a: "a < 2"
    and parts: "log_parts p a (ls_logger s) (ls_mem s) pc (ls_cons s) (ls_out s) (ls_pushed s)"
  have geom: "log_geom p (ls_logger s)" using parts by (simp add: log_parts_def)
  have buf: "\<exists>out. panic_flush_buf (ls_logger s) (ls_mem s) i = Inr out \<and>
      concat out = log_content (ls_logger s) (ls_mem s) i" if "i < 2" for i
    using panic_flush_buf_geom [OF geom that, of "ls_mem s"] by simp
  from buf [of 0] buf [of 1] obtain out0 out1 where
    out: "panic_flush (ls_logger s) (ls_mem s) = Inr (out0 @ out1)"
      "concat out0 = log_content (ls_logger s) (ls_mem s) 0" "concat out1 = log_content (ls_logger s) (ls_mem s) 1"
    by (auto simp: panic_flush_def)
  have "concat (ls_pushed s) = concat (ls_out s) @ concat (out0 @ out1)" if idle: "c_holds (ls_cons s) = None"
  proof -
    have "lg_offsets (ls_logger s) ! (1 - a) = 0" using parts idle by (simp add: log_parts_def)
    then have "log_content (ls_logger s) (ls_mem s) (1 - a) = []"
      by (simp add: log_content_def slice_bytes_def)
    moreover have "c_pending (ls_logger s) (ls_mem s) (ls_cons s) = []"
      using idle by (cases "ls_cons s") auto
    ultimately show ?thesis using parts a out unfolding below_2 by (auto simp: log_parts_def)
  qed
  with out show ?thesis by (intro exI [of _ "out0 @ out1"]) simp
qed

lemma log_panic_flush_witness:
  "\<exists>out. panic_flush demo_logger (\<lambda>_. 0) = Inr out"
  using log_panic_flush [OF demo_logger_new log_reach.start] by (auto simp: log_start_def)

text \<open>C31: What a log macro writes is what the consumer gets: on a queue at rest with nothing waiting, the
  macro's line, the level's prefix, the formatted arguments and a newline, cut off at 512 bytes, reaches
  the callback as one slice. A line of 512 bytes or more loses its newline and runs into the next one.\<close>

lemma hlog_roundtrip:
  assumes "log_rest p a lg" and "log_waiting a (lg, m) = []" and "MAX_LOG_LINE \<le> pr_buf_size p"
  shows "\<exists>s s'. hlog pr producer_push (Some p) level args (lg, m) = Inr s \<and>
    consumer_consume s =
      Inr ([take MAX_LOG_LINE (log_level_prefix level @ concat args @ string_bytes [CHR 0x0A])], s')"
proof -
  have "lg_offsets lg ! a = 0" using assms(2) by (auto simp: log_waiting_def log_content_def slice_bytes_def)
  then have room: "lg_offsets lg ! a + MAX_LOG_LINE \<le> pr_buf_size p" using assms(3) by simp
  obtain lg' m' where hlog: "hlog pr producer_push (Some p) level args (lg, m) = Inr (lg', m')"
    and rest: "log_rest p a lg'" and waiting: "log_waiting a (lg', m') = log_line level (concat args)"
    by (rule hlog_rest [OF assms(1) room, of pr level args m]) (simp add: assms(2))
  with consumer_consume_rest [OF rest, of m'] log_line_not_empty obtain s' where
    "consumer_consume (lg', m') = Inr ([log_line level (concat args)], s')" by auto
  with hlog show ?thesis by (simp add: log_line_def)
qed

lemma hlog_roundtrip_witness:
  "\<exists>s s'. hlog Checked producer_push (Some demo_producer) LogError [string_bytes ''third''] (demo_logger, \<lambda>_. 0) = Inr s \<and>
    consumer_consume s = Inr ([string_bytes ''[ERROR] third'' @ [10]], s')"
proof -
  have "log_rest demo_producer 0 demo_logger" using logger_new_rest [OF demo_logger_new] by blast
  moreover have "log_waiting 0 (demo_logger, \<lambda>_. 0) = []"
    by (simp add: log_waiting_def log_content_def slice_bytes_def)
  moreover have "MAX_LOG_LINE \<le> pr_buf_size demo_producer" by simp
  ultimately show ?thesis
    using hlog_roundtrip [of demo_producer 0 demo_logger "\<lambda>_. 0" Checked LogError "[string_bytes ''third'']"]
    by (simp add: string_bytes_def)
qed

end
