(* ===== verification/Spec2Isabelle.thy ===== *)
theory Spec2Isabelle
  imports Server_Log_Properties Unit_Tests Pool_Properties Error_Properties Log_Properties
begin

text \<open>
  \<^bold>\<open>Hoarder: a verification development\<close>

  The repository is a small network server on \<open>io_uring\<close>. A binary (\<open>hoarder-blob/src/main.rs\<close>)
  creates a log queue and an executor and runs the executor's endless loop. The executor
  (\<open>hoarder-blob/src/executor/mod.rs\<close>) keeps a pool of listeners, a pool of connections, a pool of
  receive buffers and two run queues. In each turn it drains the current run queue, handing every
  event to the state machine its handle names (\<open>state_machine/tcp_server.rs\<close>,
  \<open>state_machine/conn_handler.rs\<close>); a machine answers with intents (\<open>protocol/mod.rs\<close>), which the
  executor carries out: submissions to the ring, new connections, retries, terminations. It then waits
  for the kernel (\<open>hoarder-io/src/lib.rs\<close>), moves the completions into the other run queue and switches.
  The pools are generational allocators over arrays, ring buffers and aligned allocations
  (\<open>hoarder-collections\<close>); the log queue is a double buffer shared by a producer and a consumer thread
  (\<open>hoarder-log\<close>).

  \<^bold>\<open>Conventions.\<close> A call returns an \<open>outcome\<close>: \<open>Inl fault\<close> for every way Rust code can stop (a failed
  assertion or \<open>unwrap\<close>, \<open>panic!\<close>, \<open>unreachable!\<close>, arithmetic overflow, a slice out of range, an
  allocation abort) and for undefined behaviour, which \<open>unsafe\<close> code reaches when what it relies on does
  not hold; \<open>Inr\<close> otherwise. \<open>Result\<close> is a sum inside it. Fixed-width integers are words; \<open>usize\<close> is a
  natural number with the limit \<open>2^64\<close> written out where it matters. \<open>profile\<close> says whether overflow
  checks are compiled in. Code outside the repository is a parameter: the allocator (a predicate
  saying which layouts fail, or the address it answers), the \<open>io_uring\<close> crate (\<open>ring_ops\<close>), the socket
  calls of \<open>rustix\<close> (\<open>net_ops\<close>), \<open>cqueue::more\<close> and \<open>write(2)\<close>, each over an arbitrary world \<open>'w\<close>.

  \<^bold>\<open>Theories.\<close>
  \<^item> \<open>Prelude\<close>, \<open>Memory\<close>: outcomes, \<open>safe\<close> (no undefined behaviour) and \<open>ensures\<close> (a postcondition of
    normal results), checked and wrapping arithmetic, layouts, addresses, slices.
  \<^item> \<open>Errors\<close>: \<open>hoarder-common/src/error.rs\<close>.
  \<^item> \<open>Queue_Interface\<close> (locale \<open>bounded_queue\<close>), \<open>Handle_Interface\<close> (locale \<open>handle_table\<close>) and
    \<open>Machine_Interface\<close> (locale \<open>event_machine\<close>): the three contracts. The first is kept by the ring
    buffer and used by the allocator's free list and the run queues; the second by the allocator, the
    buffer pool and the object pool, each proved from the one below; the third by both state machines
    and used by the executor. Each is interpreted on the model in the theory of its provider.
  \<^item> \<open>Arrays\<close>, \<open>Ring_Buffer\<close> (\<open>collections.rs\<close>); \<open>Aligned_Buffers\<close>, \<open>Gen_Alloc\<close>, \<open>Buffer_Pool\<close>,
    \<open>Object_Pool\<close> (\<open>alloc.rs\<close>): operations, invariant (\<open>rb_ok\<close>, \<open>ga_ok\<close>, \<open>bp_ok\<close>, \<open>op_ok\<close>) and abstraction
    (\<open>rb_list\<close>, \<open>ga_live\<close>, \<open>bp_live\<close>, \<open>op_map\<close>).
  \<^item> \<open>Protocol\<close>, \<open>Tcp_Server\<close>, \<open>Conn_Handler\<close>: the intents, the wire header and the two machines.
  \<^item> \<open>Io\<close>, \<open>Executor\<close>: the IO trait, \<open>UringIO\<close> and the loop. \<open>Executor_Invariant\<close> has the invariant
    \<open>exec_ok\<close>, its preservation by every step and the termination of the inner loops;
    \<open>Executor_Start\<close> that construction and setup establish it.
  \<^item> \<open>Conn_Outcomes\<close>, \<open>Executor_Steps\<close>: what one event of a connection does on every branch, and one event
    of the loop from the queue to the completed intents.
  \<^item> \<open>Executor_Kernel\<close>: the loop over a kernel that completes only what was submitted to it
    (\<open>ring_truthful\<close>, over the user data \<open>posted\<close> to the ring). \<open>exec_typed\<close> says that every queued event
    and every outstanding submission fits the state of the machine its handle names; it is kept by every
    step, which then stops in orderly ways only (\<open>orderly\<close>: never an \<open>unreachable!\<close> arm, a slice out of
    range or undefined behaviour).
  \<^item> \<open>Startup\<close>, \<open>Connection_Start\<close>, \<open>Connection_Life\<close>: given memory, a ring and sockets that oblige, the
    server gets to the point where it accepts, and an accepted connection to the point where it receives.
    \<open>Connection_Life\<close> takes it from there to the point where it has given back its buffer and its slot.
  \<^item> \<open>Fmt_Buf\<close>, \<open>Logger\<close>: the line buffer, the log macro, and the log queue as threads of atomic steps;
    \<open>Logger_Invariant\<close> has the invariant of all interleavings, \<open>Logger_Calls\<close> whole calls of \<open>push\<close> and
    \<open>consume\<close>, \<open>Log_Progress\<close> the ranks by which a thread that runs alone ends its call.
  \<^item> \<open>Decimal\<close>, \<open>Debug_Text\<close>, \<open>Log_Trace\<close>: the text of what is logged, and code with the entries it
    logs (\<open>logged\<close>). \<open>Conn_Logged\<close>, \<open>Executor_Logged\<close> and \<open>Server_Log\<close> are the functions of the executor,
    the connection machine and \<open>main\<close> that log, line by line; each is proved to be, without its lines, the
    function of the same name without \<open>_logged\<close>, so that every other property is stated over the
    latter. \<open>Server_Log\<close> also has the queue serving a schedule of log calls and consumer turns, with a
    bounded buffer as its reference.
  \<^item> \<open>Blob_Main\<close>: the binary, its start and its two log lines, the consumer thread's turn and the panic
    hook, and the ways in which \<open>main\<close> can end before its loop.
  \<^item> \<open>Unit_Tests\<close>: the repository's own tests, run on the model.
  \<^item> The properties that concern one part are in \<open>Pool_Properties\<close>, \<open>Machine_Properties\<close>,
    \<open>Log_Properties\<close>, \<open>Server_Log_Properties\<close>, \<open>Unit_Tests\<close> and \<open>Error_Properties\<close>, those of the whole
    here; \<open>Executor_Properties\<close> has the lemmas and the concrete executors the witnesses use.

  \<^bold>\<open>Bounds.\<close> \<open>executor_ticks n\<close> is \<open>n\<close> turns of the endless loop, for every \<open>n\<close>; the two inner loops are
  partial functions proved to return, by a measure that counts queued events (draining) and by the free
  room of a bounded queue (completions), so no fuel bounds them. A call of \<open>push\<close> or \<open>consume\<close> that meets
  no other thread ends within the six steps \<open>producer_push\<close> and \<open>consumer_consume\<close> give it, which their
  lemmas prove; from any other state the ranks of \<open>Log_Progress\<close> give the producer seven and the
  consumer six.

  \<^bold>\<open>Not modelled.\<close> The memory orderings of the atomics: threads interleave sequentially consistently, and a
  copy into or out of a buffer is one step, which mutual exclusion justifies for one producer. Thread
  creation, sleeping and hook registration: the consumer's turn and the hook are operations on the log
  queue, and \<open>Server_Log\<close> lets whole turns come between whole log calls in any order (finer
  interleavings are in \<open>Logger_Invariant\<close>). Module declarations and build files. What lies behind the parameters: the
  kernel, the ring, the allocator, the IPv6 address parser.
\<close>

section \<open>The server as a whole\<close>

text \<open>C1: The server never reaches undefined behaviour, and never hangs between two waits for the kernel.
  With overflow checks on, on \<open>io_uring\<close>, and with an allocator that keeps its contract, \<open>main\<close> run for
  any number of turns of its loop either stops with a panic or has finished them, in a state where the
  invariant of the executor holds.\<close>

theorem blob_main_safe:
  assumes "env_sized env" and "log_env_ok raw0 raw1 (512 * 1000)"
    and "alloc_contract (env_raw env) \<lparr>lay_size = 100 * POOL_BUF_SIZE, lay_align = POOL_ALIGN\<rparr>"
    and "host_io host = uring_io ring" and "host_profile host = Checked"
  shows "\<exists>r. blob_main n env raw0 raw1 ring host m w = Some r \<and>
    ensures r (\<lambda>x. case x of Inl e \<Rightarrow> True | Inr (s, ex) \<Rightarrow> exec_ok ex)"
proof (cases rule: blob_main_cases [OF assms(1,2), of n ring host m w, case_names stopped no_logger running])
  case (running p lg' m' w' ex)
  have "unat (100 :: u32) = 100" by simp
  with executor_new_ok [OF running(4)] assms(3) have "exec_ok ex" by simp
  from executor_run_total [OF this uring_host_safe [OF assms(4)] assms(5), of n env] obtain r where
    "executor_run n env host ex = Some r" "ensures r exec_ok" by blast
  with running(5) show ?thesis by (cases r) simp_all
qed (auto simp: panics_def)

theorem blob_main_safe_witness:
  "\<exists>r. blob_main 3 demo_env 4096 1048576 demo_ring demo_host (\<lambda>_. 0) (0, 0) = Some r \<and> safe r"
proof -
  have "\<exists>r. blob_main 3 demo_env 4096 1048576 demo_ring demo_host (\<lambda>_. 0) (0, 0) = Some r \<and>
      ensures r (\<lambda>x. case x of Inl e \<Rightarrow> True | Inr (s, ex) \<Rightarrow> exec_ok ex)"
    by (rule blob_main_safe [OF demo_main_env(1,3,4)]) simp_all
  then show ?thesis using ensures_safe by blast
qed

text \<open>C2: Over a kernel that completes only what was submitted to it, the server never reaches an
  \<open>unreachable!\<close> arm, an index outside a slice or undefined behaviour, however long it runs and whatever
  the results of the completions are: it stops, if at all, by a failed assertion or \<open>unwrap\<close>, the
  explicit panic for programming errors, an overflow or for want of memory. Until then every queued
  event fits the state of the machine it names.\<close>

theorem server_never_unreachable:
  assumes "env_sized env" and "log_env_ok raw0 raw1 (512 * 1000)"
    and "alloc_contract (env_raw env) \<lparr>lay_size = 100 * POOL_BUF_SIZE, lay_align = POOL_ALIGN\<rparr>"
    and "host_io host = uring_io ring" and "host_profile host = Checked"
    and "ring_truthful ring posted" and "net_apart (host_net host) posted"
    and "posted (snd (ring_build ring None 4096 w)) = {}"
  shows "\<exists>r. blob_main n env raw0 raw1 ring host m w = Some r \<and>
    (case r of
       Inl f \<Rightarrow> f \<in> {AssertFailed, UnwrapFailed, ExplicitPanic, ArithOverflow, AllocAbort}
     | Inr (Inl e) \<Rightarrow> True
     | Inr (Inr (s, ex)) \<Rightarrow> list_all (fits (phase ex)) (queued ex))"
proof (cases rule: blob_main_cases [OF assms(1,2), of n ring host m w, case_names stopped no_logger running])
  case (running p lg' m' w' ex)
  have "unat (100 :: u32) = 100" by simp
  with executor_new_ok [OF running(4)] assms(3) have new: "exec_ok ex \<and> ex_queue 0 ex = [] \<and> ex_queue 1 ex = []"
    and w': "ex_io ex = w'" by simp_all
  have "snd (ring_build ring None 4096 w) = w'"
    using running(3) by (auto simp: uring_new_def map_os_error_def outcome_simps split: prod.splits sum.splits)
  with assms(8) w' have "posted (ex_io ex) = {}" by simp
  with new have typed: "exec_typed posted ex" by (intro executor_new_typed) simp_all
  have "kernel_truthful host posted" using assms(4,6,7) by (auto simp: kernel_truthful_def)
  from executor_run_typed [OF typed assms(5) this, of n env] obtain r where
    "executor_run n env host ex = Some r" "orderly r (exec_typed posted)" by blast
  with running(5) show ?thesis
    by (cases r) (auto simp: panics_def exec_typed_def typed_def list_all_iff)
qed (auto simp: panics_def)

theorem server_never_unreachable_witness:
  "\<exists>r. blob_main 3 demo_env 4096 1048576 echo_ring echo_host (\<lambda>_. 0) [] = Some r \<and> r \<noteq> Inl Unreachable"
proof -
  have "\<exists>r. blob_main 3 demo_env 4096 1048576 echo_ring echo_host (\<lambda>_. 0) [] = Some r \<and>
    (case r of
       Inl f \<Rightarrow> f \<in> {AssertFailed, UnwrapFailed, ExplicitPanic, ArithOverflow, AllocAbort}
     | Inr (Inl e) \<Rightarrow> True
     | Inr (Inr (s, ex)) \<Rightarrow> list_all (fits (phase ex)) (queued ex))"
    by (rule server_never_unreachable [OF demo_main_env(1,3,4) _ _ echo_truthful]) simp_all
  then show ?thesis by auto
qed

text \<open>If the server panics before the consumer thread has run, the panic hook writes exactly the two
  start-up lines to standard output, in one piece, before the default hook; and a turn of the consumer
  thread writes the same and leaves nothing for a second turn.\<close>

theorem startup_log_flushed:
  assumes "env_sized env" and "log_env_ok raw0 raw1 (512 * 1000)"
    and "blob_main n env raw0 raw1 ring host m w = Some (Inr (Inr (s, ex)))"
  shows "panic_hook libc_write default_hook s v =
      Inr (default_hook (write_to_stdout libc_write
        (string_bytes (''[INFO] blob engine starting'' @ [CHR 0x0A] @
           ''[INFO] executor initialized, entering main loop'' @ [CHR 0x0A])) v)) \<and>
    (\<exists>s'. log_consumer_turn libc_write s v = Inr (s', write_to_stdout libc_write
        (string_bytes (''[INFO] blob engine starting'' @ [CHR 0x0A] @
           ''[INFO] executor initialized, entering main loop'' @ [CHR 0x0A])) v) \<and>
      (\<exists>t. log_consumer_turn libc_write s' v = Inr (t, v)))"
proof (cases rule: blob_main_cases [OF assms(1,2), of n ring host m w, case_names stopped no_logger running])
  case (running p lg' m' w' ex0)
  let ?bytes = "string_bytes (''[INFO] blob engine starting'' @ [CHR 0x0A] @
           ''[INFO] executor initialized, entering main loop'' @ [CHR 0x0A])"
  have lines: "startup_log = ?bytes"
    by (simp add: startup_log_def log_line_def string_bytes_def)
  from running(5) assms(3) have s: "s = (lg', m')"
    by (cases "executor_run n env host ex0") (auto simp: andThen_def split: sum.splits)
  have waiting: "log_waiting 0 (lg', m') = ?bytes" using running(2) lines by simp
  have some: "?bytes \<noteq> []" by (simp add: string_bytes_def)
  from consumer_consume_rest [OF running(1), of m'] waiting some obtain lg1 where
    first: "consumer_consume (lg', m') = Inr ([?bytes], lg1, m')" "log_rest p 1 lg1" "log_waiting 1 (lg1, m') = []"
    by auto
  from consumer_consume_rest [OF first(2), of m'] first(3) obtain lg2 where
    second: "consumer_consume (lg1, m') = Inr ([], lg2, m')" by auto
  have hook: "panic_hook libc_write default_hook s v = Inr (default_hook (write_to_stdout libc_write ?bytes v))"
    using panic_flush_rest [OF running(1), of m'] waiting some by (simp add: panic_hook_def s)
  have turn: "log_consumer_turn libc_write s v = Inr ((lg1, m'), write_to_stdout libc_write ?bytes v)"
    "log_consumer_turn libc_write (lg1, m') v = Inr ((lg2, m'), v)"
    by (simp_all add: log_consumer_turn_def s first(1) second)
  from hook turn show ?thesis by blast
qed (use assms(3) in auto)

theorem startup_log_flushed_witness:
  "\<exists>s ex. blob_main 0 demo_env 4096 1048576 echo_ring echo_host (\<lambda>_. 0) [] = Some (Inr (Inr (s, ex))) \<and>
    panic_hook (\<lambda>_ buf w. (0, w @ buf)) (\<lambda>w. w) s [] =
      Inr (string_bytes (''[INFO] blob engine starting'' @ [CHR 0x0A] @
           ''[INFO] executor initialized, entering main loop'' @ [CHR 0x0A]))"
proof -
  obtain s :: "logger \<times> memory" and ex where
    main: "blob_main 0 demo_env 4096 1048576 echo_ring echo_host (\<lambda>_. 0) [] = Some (Inr (Inr (s, ex)))"
    by (rule blob_main_starts [OF demo_main_env(2,3) _ _ demo_main_env(4) echo_checked echo_obliges(1)]) simp_all
  with startup_log_flushed [OF demo_main_env(1,3) main, of "\<lambda>_ buf w. (0, w @ buf)" "\<lambda>w. w" "[]"]
  show ?thesis by (simp add: write_to_stdout_def)
qed



text \<open>C4: A connection that is accepted is received from, in the same drain of the queue: with a slot, a
  buffer and a ring that takes submissions, the completed accept adds exactly one connection machine, in
  a slot that was free and with a buffer nobody held, and submits exactly one entry, the receive of 4096
  bytes from the accepted file into the start of that buffer under the handle of the new machine.\<close>

theorem accepted_connection_receives:
  assumes ok: "exec_ok ex" and host: "host_profile host = Checked" "host_io host = uring_io ring"
    and ring: "ring_obliges ring" and more: "host_more_io host flags"
    and h: "handle_pool_id h = TCP_SERVER" "op_map (ex_tcp_pool ex) (handle_gid h) = Some ts" "ts_state ts = TcpAccepting"
    and res: "0 \<le> sint res"
    and queue: "ex_queue (ex_current ex) ex = [\<lparr>rq_reason = IoCompleted res flags, rq_handle = h\<rparr>]"
    and room: "card (dom (op_map (ex_conn_pool ex))) < op_cap (ex_conn_pool ex)"
      "card (bp_live (ex_io_bufs ex)) < bp_cap (ex_io_bufs ex)"
  shows "\<exists>ex' gid b. drain_run_queue host ex = Some (Inr ex') \<and> op_map (ex_conn_pool ex) gid = None \<and>
    op_map (ex_conn_pool ex') = (op_map (ex_conn_pool ex))(gid \<mapsto>
      \<lparr>ch_state = Recv ReceivingHeader, ch_socket = Fixed res, ch_buf_handle = Some b, ch_offset = 0\<rparr>) \<and>
    b \<notin> bp_live (ex_io_bufs ex) \<and> bp_live (ex_io_bufs ex') = insert b (bp_live (ex_io_bufs ex)) \<and>
    ring_sq_push ring (ReadFixed (Fixed res) (sl_ptr (bp_slice (ex_io_bufs ex') b)) 4096
      (ucast (gid_index (bh_gid b))) (handle_into_u64 (handle_new CONN_HANDLER gid))) (ex_io ex) = (Inr (), ex_io ex')"
proof -
  obtain gid ex1 where ex1: "drain_run_queue host ex = drain_run_queue host ex1"
    "exec_ok ex1" "unat (gid_index gid) < 2 ^ 24" "op_map (ex_conn_pool ex) gid = None"
    "op_map (ex_conn_pool ex1) = (op_map (ex_conn_pool ex))(gid \<mapsto> conn_new res)"
    "ex_queue (ex_current ex1) ex1 = [\<lparr>rq_reason = Spawn, rq_handle = handle_new CONN_HANDLER gid\<rparr>]"
    "ex_io ex1 = ex_io ex" "ex_io_bufs ex1 = ex_io_bufs ex"
    by (rule accept_drains [OF ok host(1) more h res room(1) queue])
  let ?h = "handle_new CONN_HANDLER gid"
  have conn: "handle_pool_id ?h = CONN_HANDLER" "handle_gid ?h = gid"
    using ex1(3) by (simp_all add: handle_pack_pool_id)
  have new: "op_map (ex_conn_pool ex1) (handle_gid ?h) = Some (conn_new res)"
    and buffer: "card (bp_live (ex_io_bufs ex1)) < bp_cap (ex_io_bufs ex1)"
    using ex1(5,8) conn(2) room(2) by simp_all
  show ?thesis
    by (rule start_drains [OF ex1(2) host ring conn(1) new buffer ex1(6)], intro exI conjI)
      (use ex1 conn(2) in \<open>simp_all\<close>)
qed

theorem accepted_connection_receives_witness:
  "\<exists>ex' gid b. drain_run_queue demo_host accepting_executor = Some (Inr ex') \<and>
    op_map (ex_conn_pool ex') gid =
      Some \<lparr>ch_state = Recv ReceivingHeader, ch_socket = Fixed 3, ch_buf_handle = Some b, ch_offset = 0\<rparr> \<and>
    ex_io ex' = (1, 0)"
proof -
  have h: "handle_pool_id listener_handle = TCP_SERVER" by (rule handle_pack_pool_id) simp
  have "op_map (ex_tcp_pool accepting_executor) (handle_gid listener_handle) = Some accepting_listener"
    unfolding accepting_pool by simp
  moreover have "ex_queue (ex_current accepting_executor) accepting_executor =
      [\<lparr>rq_reason = IoCompleted 3 0, rq_handle = listener_handle\<rparr>]"
    by (simp add: ex_queue_def rb_list_def rb_slot_def)
  ultimately obtain ex' gid b where "drain_run_queue demo_host accepting_executor = Some (Inr ex')"
    "op_map (ex_conn_pool ex') = (op_map (ex_conn_pool accepting_executor))(gid \<mapsto>
      \<lparr>ch_state = Recv ReceivingHeader, ch_socket = Fixed 3, ch_buf_handle = Some b, ch_offset = 0\<rparr>)"
    "ring_sq_push demo_ring (ReadFixed (Fixed 3) (sl_ptr (bp_slice (ex_io_bufs ex') b)) 4096
      (ucast (gid_index (bh_gid b))) (handle_into_u64 (handle_new CONN_HANDLER gid))) (ex_io accepting_executor) =
      (Inr (), ex_io ex')"
    using accepted_connection_receives [OF accepting_executor_ok _ _ demo_obliges _ h _ _ _ _ accepting_room,
        of demo_host 0 accepting_listener 3] by auto
  then show ?thesis by (intro exI [of _ ex'] exI [of _ gid] exI [of _ b]) simp
qed

text \<open>C12: Every turn of the loop, from any well-formed state and whatever the kernel reports, ends: it
  either stops with a panic, never with undefined behaviour, or leaves a state that is again well
  formed; the same then holds of any number of turns.\<close>

theorem executor_turn_safe:
  assumes "exec_ok ex" and "host_safe host" and "host_profile host = Checked"
  shows "(\<exists>r. executor_tick host ex = Some r \<and> ensures r exec_ok) \<and>
    (\<exists>r. executor_ticks n host ex = Some r \<and> ensures r exec_ok)"
  using executor_tick_total [OF assms] executor_ticks_total [OF assms] by blast

theorem executor_turn_safe_witness:
  "\<exists>r. executor_ticks 5 demo_host (busy_executor demo_conn (demo_slots None)) = Some r \<and> ensures r exec_ok"
  by (rule executor_turn_safe [OF receiving_executor_ok uring_host_safe, THEN conjunct2]) simp_all

text \<open>C3: No receive buffer is leaked or shared. Whatever the server has done since it was created, the
  buffers in use are exactly those its receiving connections own, and no two connections own the same;
  there are never more in use than were allocated.\<close>

theorem executor_buffers_shared_out:
  assumes "executor_new env io listeners conn_handlers buf_count = Inr ex"
    and "alloc_contract (env_raw env) \<lparr>lay_size = unat buf_count * POOL_BUF_SIZE, lay_align = POOL_ALIGN\<rparr>"
    and "host_safe host" and "host_profile host = Checked"
  shows "\<exists>r. executor_run n env host ex = Some r \<and> ensures r (\<lambda>ex'.
    bp_live (ex_io_bufs ex') = \<Union> (conn_owned ` ran (op_map (ex_conn_pool ex'))) \<and>
    pairwise (\<lambda>k l. conn_owned (the (op_map (ex_conn_pool ex') k)) \<inter>
      conn_owned (the (op_map (ex_conn_pool ex') l)) = {}) (dom (op_map (ex_conn_pool ex'))) \<and>
    card (bp_live (ex_io_bufs ex')) \<le> bp_cap (ex_io_bufs ex'))"
proof -
  have "exec_ok ex" using executor_new_ok [OF assms(1,2)] by blast
  from executor_run_total [OF this assms(3,4), of n env] obtain r where
    r: "executor_run n env host ex = Some r" "ensures r exec_ok" by blast
  from r(2) have "ensures r (\<lambda>ex'.
    bp_live (ex_io_bufs ex') = \<Union> (conn_owned ` ran (op_map (ex_conn_pool ex'))) \<and>
    pairwise (\<lambda>k l. conn_owned (the (op_map (ex_conn_pool ex') k)) \<inter>
      conn_owned (the (op_map (ex_conn_pool ex') l)) = {}) (dom (op_map (ex_conn_pool ex'))) \<and>
    card (bp_live (ex_io_bufs ex')) \<le> bp_cap (ex_io_bufs ex'))"
  proof (rule ensures_mono)
    fix ex' :: "'a executor" assume "exec_ok ex'"
    then have sh: "conn.shares {} (ex_io_bufs ex') (op_map (ex_conn_pool ex'))" by (simp add: exec_ok_def)
    then have "bp_ok POOL_BUF_SIZE (ex_io_bufs ex')" unfolding conn.shares_def by blast
    then have "card (bp_live (ex_io_bufs ex')) \<le> bp_cap (ex_io_bufs ex')" by (rule bp.card_live_le)
    moreover have "pairwise (\<lambda>k l. conn_owned (the (op_map (ex_conn_pool ex') k)) \<inter>
        conn_owned (the (op_map (ex_conn_pool ex') l)) = {}) (dom (op_map (ex_conn_pool ex')))"
    proof (rule pairwiseI)
      fix k l assume "k \<in> dom (op_map (ex_conn_pool ex'))" "l \<in> dom (op_map (ex_conn_pool ex'))" "k \<noteq> l"
      then obtain c d where cd: "op_map (ex_conn_pool ex') k = Some c"
        "op_map (ex_conn_pool ex') l = Some d" "k \<noteq> l" by blast
      have "conn_owned c \<inter> conn_owned d = {}" by (rule conn.shares_apart [OF sh cd])
      with cd show "conn_owned (the (op_map (ex_conn_pool ex') k)) \<inter>
          conn_owned (the (op_map (ex_conn_pool ex') l)) = {}"
        by simp
    qed
    ultimately show "bp_live (ex_io_bufs ex') = \<Union> (conn_owned ` ran (op_map (ex_conn_pool ex'))) \<and>
        pairwise (\<lambda>k l. conn_owned (the (op_map (ex_conn_pool ex') k)) \<inter>
          conn_owned (the (op_map (ex_conn_pool ex') l)) = {}) (dom (op_map (ex_conn_pool ex'))) \<and>
        card (bp_live (ex_io_bufs ex')) \<le> bp_cap (ex_io_bufs ex')"
      using sh by (simp add: conn.shares_def)
  qed
  with r(1) show ?thesis by blast
qed

theorem executor_buffers_shared_out_witness:
  "\<exists>r. executor_run 4 demo_env demo_host demo_executor = Some r \<and> ensures r (\<lambda>ex'.
    bp_live (ex_io_bufs ex') = \<Union> (conn_owned ` ran (op_map (ex_conn_pool ex'))) \<and>
    pairwise (\<lambda>k l. conn_owned (the (op_map (ex_conn_pool ex') k)) \<inter>
      conn_owned (the (op_map (ex_conn_pool ex') l)) = {}) (dom (op_map (ex_conn_pool ex'))) \<and>
    card (bp_live (ex_io_bufs ex')) \<le> bp_cap (ex_io_bufs ex'))"
  by (rule executor_buffers_shared_out [OF demo_executor_new demo_contract uring_host_safe]) simp_all

text \<open>C10: Both inner loops end. Draining the current run queue, although handling an event may add another
  to the same queue, ends with that queue empty; moving the kernel's completions into a queue ends
  even if the kernel always has another, because the queue is bounded and overfilling it panics.\<close>

theorem executor_loops_end:
  assumes "exec_ok ex" and "host_safe host" and "host_profile host = Checked"
  shows "(\<exists>r. drain_run_queue host ex = Some r \<and>
      ensures r (\<lambda>ex'. exec_ok ex' \<and> ex_queue (ex_current ex) ex' = [])) \<and>
    (\<exists>r. drain_completions host (1 - ex_current ex) ex = Some r \<and> ensures r exec_ok)"
proof
  from drain_run_queue_total [OF assms] obtain r where r: "drain_run_queue host ex = Some r"
    "ensures r (\<lambda>ex'. exec_ok ex' \<and> ex_current ex' = ex_current ex \<and> ex_queue (ex_current ex) ex' = [])"
    by blast
  from ensures_mono [OF r(2), of "\<lambda>ex'. exec_ok ex' \<and> ex_queue (ex_current ex) ex' = []"] r(1)
  show "\<exists>r. drain_run_queue host ex = Some r \<and>
      ensures r (\<lambda>ex'. exec_ok ex' \<and> ex_queue (ex_current ex) ex' = [])" by blast
  have "1 - ex_current ex < 2" by simp
  from drain_completions_total [OF assms(1) this, of host] obtain r where
    r: "drain_completions host (1 - ex_current ex) ex = Some r"
      "ensures r (\<lambda>ex'. exec_ok ex' \<and> ex_current ex' = ex_current ex)"
    by blast
  from ensures_mono [OF r(2), of exec_ok] r(1)
  show "\<exists>r. drain_completions host (1 - ex_current ex) ex = Some r \<and> ensures r exec_ok" by blast
qed

theorem executor_loops_end_witness:
  "\<exists>r. drain_run_queue demo_host (busy_executor demo_conn (demo_slots None)) = Some r \<and>
    ensures r (\<lambda>ex'. exec_ok ex' \<and>
      ex_queue (ex_current (busy_executor demo_conn (demo_slots None))) ex' = [])"
  by (rule executor_loops_end [OF receiving_executor_ok uring_host_safe, THEN conjunct1]) simp_all

text \<open>C22: A connection that is reset by its peer stops the server. For every connection that is receiving
  and every error code that the handler treats as a broken connection, handling the completion frees the
  buffer, then submits a receive into it, and the executor's \<open>unwrap\<close> of the freed buffer panics (unless
  a full generation counter already has).\<close>

theorem connection_reset_panics:
  assumes ok: "exec_ok ex" and host: "host_io host = uring_io ring" "host_profile host = Checked"
    and conn: "handle_pool_id handle = CONN_HANDLER" "op_map (ex_conn_pool ex) (handle_gid handle) = Some ch"
      "ch_state ch = Recv p"
    and res: "sint res < 0" "- (2 ^ 31) < sint res" "Errno (- res) \<in> set errno_close"
  shows "process_queued host \<lparr>rq_reason = IoCompleted res flags, rq_handle = handle\<rparr> ex
    \<in> {Inl UnwrapFailed, Inl ArithOverflow}"
proof -
  obtain h where h: "ch_buf_handle ch = Some h" "h \<in> bp_live (ctx_buffers (ctx_of ex))"
    by (rule conn_recv_buffer [OF ok conn(2,3)])
  let ?m = "host_memory host (ex_io ex)"
  let ?run = "conn_process_event Checked ?m ch (ctx_of ex) (IoCompleted res flags)"
  have "Errno (- res) \<notin> set errno_retry" "Errno (- res) \<notin> set errno_logic"
    using res(3) by (auto simp: errno_retry_def errno_logic_def errno_close_def)
  with conn_io_error_step [OF exec_ok_conn(1) [OF ok conn(2)] h(2) conn(3) h(1) res(1,2)
      exec_ok_conn(3) [OF ok conn(2)], of ?m flags] res(3)
  consider (overflow) "?run = Inl ArithOverflow"
    | (closed) ctx' where "?run = Inr (ch\<lparr>ch_state := Closing, ch_offset := 0\<rparr>, ctx')"
        "emits [CloseFixed (ch_socket ch), SubmitRecv (ch_socket ch) h 0] (ctx_of ex) ctx'"
        "h \<in> bp_dead (ctx_buffers ctx')"
    by auto
  then show ?thesis
  proof cases
    case overflow
    have "object_pool_get_mut (ex_conn_pool ex) handle = Inr (Some ch)"
      using object_pool_get_eq [of "ex_conn_pool ex" handle] ok conn(2) by (simp add: exec_ok_def)
    with overflow conn(1) host(2) show ?thesis by (simp add: process_queued_def dispatch_def)
  next
    case closed
    let ?new = "[CloseFixed (ch_socket ch), SubmitRecv (ch_socket ch) h 0]"
    obtain ex' where ex': "dispatch host (IoCompleted res flags) handle ex = Inr (length ?new, ex')"
        "complete_intent host (length ?new) handle ex' = complete_list host handle (map Some ?new) ex'"
        "ex_io_bufs ex' = ctx_buffers ctx'" "exec_ok ex'"
      by (rule dispatch_conn_Inr [OF ok host(2) conn(1,2) closed(1,2)])
    have bufs: "bp_ok POOL_BUF_SIZE (ex_io_bufs ex')" using ex'(4) by (simp add: exec_ok_def conn.shares_def)
    have dead: "buffer_pool_get_mut POOL_BUF_SIZE (ex_io_bufs ex') h = Inr None"
      using bp.valid_dead [OF bufs] closed(3) ex'(3) buffer_pool_get_invalid by simp
    have second: "complete_one host handle (SubmitRecv (ch_socket ch) h 0) (ex'\<lparr>ex_io := w\<rparr>) = Inl UnwrapFailed" for w
      using dead bufs by (simp add: complete_one_def Let_def bp_ok_def)
    show ?thesis
    proof (cases rule: uring_enqueue_cases [OF host(1), of "CloseFile (ch_socket ch) (handle_into_u64 handle)" ex',
          case_names full queued])
      case full
      with ex'(1,2) show ?thesis by (simp add: process_queued_def complete_one_def)
    next
      case (queued w)
      then have "complete_one host handle (CloseFixed (ch_socket ch)) ex' = Inr (ex'\<lparr>ex_io := w\<rparr>)"
        by (simp add: complete_one_def)
      with ex'(1,2) second show ?thesis by (simp add: process_queued_def)
    qed
  qed
qed

theorem connection_reset_panics_witness:
  "process_queued demo_host \<lparr>rq_reason = IoCompleted (- 104) 0, rq_handle = demo_handle\<rparr>
     (busy_executor demo_conn (demo_slots None)) \<in> {Inl UnwrapFailed, Inl ArithOverflow}"
proof (rule connection_reset_panics [OF receiving_executor_ok])
  show "op_map (ex_conn_pool (busy_executor demo_conn (demo_slots None))) (handle_gid demo_handle) = Some demo_conn"
    unfolding busy_pool_map by simp
  show "handle_pool_id demo_handle = CONN_HANDLER" by (rule handle_pack_pool_id) simp
qed (simp_all add: errno_close_def)

text \<open>C23: A client that fills its connection's buffer stops the server. The receive that brings the total
  to the buffer's 4096 bytes makes the handler submit another receive at that offset, which the
  executor refuses with a failed assertion.\<close>

theorem full_buffer_panics:
  assumes ok: "exec_ok ex" and host: "host_profile host = Checked"
    and conn: "handle_pool_id handle = CONN_HANDLER" "op_map (ex_conn_pool ex) (handle_gid handle) = Some ch"
      "ch_state ch = Recv p"
    and res: "0 < sint res" "POOL_BUF_SIZE \<le> unat (ch_offset ch) + unat res"
      "unat (ch_offset ch) + unat res < 2 ^ 16"
  shows "process_queued host \<lparr>rq_reason = IoCompleted res flags, rq_handle = handle\<rparr> ex = Inl AssertFailed"
proof -
  obtain h where h: "ch_buf_handle ch = Some h" "h \<in> bp_live (ctx_buffers (ctx_of ex))"
    by (rule conn_recv_buffer [OF ok conn(2,3)])
  have range: "unat (ch_offset ch) + unat res < 2 ^ 32" using res(3) by simp
  let ?new = "[SubmitRecv (ch_socket ch) h (ucast (ch_offset ch + res))]"
  obtain ctx' ch' where run: "conn_process_event Checked (host_memory host (ex_io ex)) ch (ctx_of ex)
        (IoCompleted res flags) = Inr (ch', ctx')" and new: "emits ?new (ctx_of ex) ctx'"
    by (rule conn_recv_data [OF exec_ok_conn(1) [OF ok conn(2)] h(2) conn(3) h(1) res(1) range
        exec_ok_conn(4) [OF ok conn(2)], of Checked "host_memory host (ex_io ex)" flags])
  obtain ex' where ex': "dispatch host (IoCompleted res flags) handle ex = Inr (length ?new, ex')"
      "complete_intent host (length ?new) handle ex' = complete_list host handle (map Some ?new) ex'"
      "exec_ok ex'"
    by (rule dispatch_conn_Inr [OF ok host conn(1,2) run new])
  have size: "ab_buf_size (bp_pool (ex_io_bufs ex')) = POOL_BUF_SIZE"
    using ex'(3) by (simp add: exec_ok_def conn.shares_def bp_ok_def)
  have "unat (ch_offset ch + res) = unat (ch_offset ch) + unat res"
    using u32_add_no_overflow [OF range] by blast
  then have "unat (ucast (ch_offset ch + res) :: u16) = unat (ch_offset ch) + unat res"
    using res(3) by (simp add: unsigned_ucast_eq take_bit_nat_eq_self)
  with ex'(1,2) size res(2) show ?thesis
    by (simp add: process_queued_def complete_one_def Let_def)
qed

theorem full_buffer_panics_witness:
  "process_queued demo_host \<lparr>rq_reason = IoCompleted 4096 0, rq_handle = demo_handle\<rparr>
     (busy_executor demo_conn (demo_slots None)) = Inl AssertFailed"
proof (rule full_buffer_panics [OF receiving_executor_ok])
  show "op_map (ex_conn_pool (busy_executor demo_conn (demo_slots None))) (handle_gid demo_handle) = Some demo_conn"
    unfolding busy_pool_map by simp
  show "handle_pool_id demo_handle = CONN_HANDLER" by (rule handle_pack_pool_id) simp
qed simp_all

text \<open>C5: A connection that is received from, ends and is closed gives back all it held. After any completed
  receives that leave room in its buffer, the end of the stream and the completed close, the connection
  is gone from its pool and its handle finds nothing, its buffer is free again, every other connection,
  buffer, listener and queue is as before, and what was submitted is, in order, one receive for each
  one completed, into the rest of the buffer, and the close (unless a full generation counter panics).\<close>

theorem connection_served:
  assumes ok: "exec_ok ex" and host: "host_profile host = Checked" "host_io host = uring_io ring"
    and ring: "ring_obliges ring"
    and conn: "handle_pool_id handle = CONN_HANDLER" "op_map (ex_conn_pool ex) (handle_gid handle) = Some ch"
      "ch_state ch = Recv p" "ch_buf_handle ch = Some b"
    and res: "\<forall>r \<in> set rs. 0 < sint (fst r)"
      "unat (ch_offset ch) + sum_list (map (unat \<circ> fst) rs) < POOL_BUF_SIZE"
  shows "process_all host (completions handle (rs @ [(0, f), (0, g)])) ex = Inl ArithOverflow \<or>
    (\<exists>ex'. process_all host (completions handle (rs @ [(0, f), (0, g)])) ex = Inr ex' \<and>
       op_map (ex_conn_pool ex') = (op_map (ex_conn_pool ex))(handle_gid handle := None) \<and>
       object_pool_get (ex_conn_pool ex') handle = Inr None \<and>
       bp_live (ex_io_bufs ex') = bp_live (ex_io_bufs ex) - {b} \<and>
       ex_tcp_pool ex' = ex_tcp_pool ex \<and> ex_run_queues ex' = ex_run_queues ex \<and>
       ex_io ex' = pushed ring (conn_reads (ch_socket ch) (sl_ptr (bp_slice (ex_io_bufs ex) b)) b handle
           (unat (ch_offset ch)) (map fst rs) @ [CloseFile (ch_socket ch) (handle_into_u64 handle)]) (ex_io ex))"
proof -
  from data_events [OF host ring conn(1) ok conn(2-4) res] obtain ex1 ch1 q where
    data: "process_all host (completions handle rs) ex = Inr ex1" and ok1: "exec_ok ex1"
    and map1: "op_map (ex_conn_pool ex1) = (op_map (ex_conn_pool ex))(handle_gid handle \<mapsto> ch1)"
    and ch1: "ch_state ch1 = Recv q" "ch_buf_handle ch1 = Some b" "ch_socket ch1 = ch_socket ch"
    and same1: "ex_io_bufs ex1 = ex_io_bufs ex" "ex_tcp_pool ex1 = ex_tcp_pool ex" "ex_run_queues ex1 = ex_run_queues ex"
    and io1: "ex_io ex1 = pushed ring (conn_reads (ch_socket ch) (sl_ptr (bp_slice (ex_io_bufs ex) b)) b handle
        (unat (ch_offset ch)) (map fst rs)) (ex_io ex)" by blast
  have all: "process_all host (completions handle (rs @ [(0, f), (0, g)])) ex =
      andThen (process_queued host \<lparr>rq_reason = IoCompleted 0 f, rq_handle = handle\<rparr> ex1) (\<lambda>ex2.
      andThen (process_queued host \<lparr>rq_reason = IoCompleted 0 g, rq_handle = handle\<rparr> ex2) Inr)"
    using data by (simp add: completions_def process_all_append cong: andThen_cong)
  have there: "op_map (ex_conn_pool ex1) (handle_gid handle) = Some ch1" using map1 by simp
  show ?thesis
  proof (cases rule: eof_event [OF ok1 host ring conn(1) there ch1(1,2), of f, case_names overflow closing])
    case (closing ex2)
    have "op_map (ex_conn_pool ex2) (handle_gid handle) = Some (ch1\<lparr>ch_state := Closing, ch_offset := 0\<rparr>)"
      using closing(3) by simp
    from closed_connection_disappears [OF closing(2) host(1) conn(1) this, of g] show ?thesis
      using all closing map1 same1 io1 ch1(3)
      by (auto simp: pushed_append)
  qed (simp add: all)
qed

theorem connection_served_witness:
  "process_all demo_host (completions demo_handle ([(5, 0), (100, 7)] @ [(0, 0), (0, 0)]))
      (busy_executor demo_conn (demo_slots None)) = Inl ArithOverflow \<or>
    (\<exists>ex'. process_all demo_host (completions demo_handle ([(5, 0), (100, 7)] @ [(0, 0), (0, 0)]))
        (busy_executor demo_conn (demo_slots None)) = Inr ex' \<and>
       object_pool_get (ex_conn_pool ex') demo_handle = Inr None \<and>
       bp_live (ex_io_bufs ex') = bp_live (ex_io_bufs (busy_executor demo_conn (demo_slots None))) - {demo_buffer})"
proof -
  have host: "host_profile demo_host = Checked" "host_io demo_host = uring_io demo_ring" by simp_all
  have conn: "handle_pool_id demo_handle = CONN_HANDLER" by (rule handle_pack_pool_id) simp
  have there: "op_map (ex_conn_pool (busy_executor demo_conn (demo_slots None))) (handle_gid demo_handle) =
      Some demo_conn"
    unfolding busy_pool_map by simp
  have state: "ch_state demo_conn = Recv ReceivingHeader" "ch_buf_handle demo_conn = Some demo_buffer" by simp_all
  have "\<forall>r \<in> set [(5 :: i32, 0 :: u32), (100, 7)]. 0 < sint (fst r)"
    "unat (ch_offset demo_conn) + sum_list (map (unat \<circ> fst) [(5 :: i32, 0 :: u32), (100, 7)]) < POOL_BUF_SIZE"
    by simp_all
  from connection_served [OF receiving_executor_ok host demo_obliges conn there state this, of 0 0]
  show ?thesis by blast
qed

end
